(* ===== verification/Prelude.thy ===== *)
theory Prelude
  imports Main "HOL-Library.Sublist" "HOL-Library.Word" "HOL-Library.Code_Target_Numeral"
begin

text \<open>
  The vocabulary every component of the development shares.

  A Rust \<open>String\<close> is the list of its UTF-8 bytes: \<open>string\<close> is a list of \<open>char\<close>, a \<open>char\<close> is a
  byte, \<open>str::len\<close> is \<open>length\<close>, and comparisons, concatenation, prefix tests and splits at ASCII
  characters are the same on bytes as on code points. Where the code works on code points
  (\<open>chars().take(n)\<close>, \<open>trim\<close>) the theory that needs it decodes them. A \<open>Result\<close> is a sum,
  \<open>Inl\<close> for \<open>Err\<close>; an \<open>Option\<close> is an \<open>option\<close>. Unsigned integers are \<open>nat\<close> and signed ones
  \<open>int\<close>, with \<open>mod 2 ^ 64\<close> and \<open>wrap64\<close> written out where the code can reach the width, and
  \<open>32 word\<close> where it wraps on purpose.

  The theory holds the printing and parsing of decimals (\<open>to_string\<close>, \<open>str::parse\<close>), \<open>join\<close> and
  \<open>split\<close>, millisecond timestamps with their order, and the list facts the components share.
\<close>

named_theorems wf_intros \<open>introduction rules for the well-formedness invariants\<close>
named_theorems op_simps \<open>defining equations of the small operations of the model\<close>

type_synonym ('e, 'a) res = "'e + 'a"

subsection \<open>Results\<close>

definition res_bind :: "('e, 'a) res \<Rightarrow> ('a \<Rightarrow> ('e, 'b) res) \<Rightarrow> ('e, 'b) res" where
  "res_bind r f = (case r of Inl e \<Rightarrow> Inl e | Inr a \<Rightarrow> f a)"

lemma res_bind_simps [simp]:
  "res_bind (Inl e) f = Inl e" "res_bind (Inr a) f = f a"
  by (simp_all add: res_bind_def)

lemma res_bind_Inr_conv: "res_bind r f = Inr b \<longleftrightarrow> (\<exists>a. r = Inr a \<and> f a = Inr b)"
  by (cases r) simp_all

lemma res_bind_InrE:
  assumes "res_bind r f = Inr b"
  obtains a where "r = Inr a" "f a = Inr b"
  using assms by (auto simp: res_bind_Inr_conv)

text \<open>A member with \<open>serde(default)\<close>: its default when it is missing, else what it reads as.\<close>

definition default_field :: "'a \<Rightarrow> ('v \<Rightarrow> 'a option) \<Rightarrow> 'v option \<Rightarrow> 'a option" where
  "default_field d read field = (case field of None \<Rightarrow> Some d | Some v \<Rightarrow> read v)"

subsection \<open>Decimal numbers\<close>

definition digit :: "nat \<Rightarrow> char" where
  "digit n = char_of (48 + n)"

definition digit_value :: "char \<Rightarrow> nat option" where
  "digit_value c = (if 48 \<le> (of_char c :: nat) \<and> (of_char c :: nat) \<le> 57
                    then Some (of_char c - 48) else None)"

fun dec_nat :: "nat \<Rightarrow> string" where
  "dec_nat n = (if n < 10 then [digit n] else dec_nat (n div 10) @ [digit (n mod 10)])"

declare dec_nat.simps [simp del]

definition dec_int :: "int \<Rightarrow> string" where
  "dec_int i = (if i < 0 then CHR ''-'' # dec_nat (nat (- i)) else dec_nat (nat i))"

fun digits_value :: "nat \<Rightarrow> string \<Rightarrow> nat option" where
  "digits_value acc [] = Some acc"
| "digits_value acc (c # cs) =
     (case digit_value c of None \<Rightarrow> None | Some d \<Rightarrow> digits_value (10 * acc + d) cs)"

text \<open>
  \<open>str::parse\<close> for an unsigned type of \<open>w\<close> bits: an optional plus sign, at least one digit,
  a value that fits.
\<close>

definition parse_unsigned :: "nat \<Rightarrow> string \<Rightarrow> nat option" where
  "parse_unsigned w s =
     (let s = (case s of CHR ''+'' # r \<Rightarrow> r | _ \<Rightarrow> s)
      in if s = [] then None
         else case digits_value 0 s of
                None \<Rightarrow> None
              | Some n \<Rightarrow> if n < 2 ^ w then Some n else None)"

text \<open>\<open>str::parse\<close> for a signed type of \<open>w\<close> bits: an optional sign, digits, a value that fits.\<close>

definition parse_signed :: "nat \<Rightarrow> string \<Rightarrow> int option" where
  "parse_signed w s =
     (let (neg, s) = (case s of CHR ''-'' # r \<Rightarrow> (True, r)
                              | CHR ''+'' # r \<Rightarrow> (False, r)
                              | _ \<Rightarrow> (False, s))
      in if s = [] then None
         else case digits_value 0 s of
                None \<Rightarrow> None
              | Some n \<Rightarrow> let i = (if neg then - int n else int n)
                          in if - (2 ^ (w - 1)) \<le> i \<and> i < 2 ^ (w - 1) then Some i else None)"

lemma of_char_digit [simp]: "n < 10 \<Longrightarrow> (of_char (digit n) :: nat) = 48 + n"
  by (simp add: digit_def)

lemma digit_value_digit [simp]: "n < 10 \<Longrightarrow> digit_value (digit n) = Some n"
  by (simp add: digit_value_def)

lemma digits_value_append:
  "digits_value acc (xs @ ys) = Option.bind (digits_value acc xs) (\<lambda>v. digits_value v ys)"
  by (induction acc xs rule: digits_value.induct) (auto split: option.splits)

lemma digits_value_dec_nat: "digits_value 0 (dec_nat n) = Some n"
proof (induction n rule: dec_nat.induct)
  case (1 n)
  then show ?case
    by (cases "n < 10") (simp_all add: dec_nat.simps [of n] digits_value_append)
qed

lemma dec_nat_not_Nil [simp]: "dec_nat n \<noteq> []"
  by (subst dec_nat.simps) simp

lemma dec_nat_digits: "c \<in> set (dec_nat n) \<Longrightarrow> 48 \<le> (of_char c :: nat) \<and> (of_char c :: nat) \<le> 57"
proof (induction n rule: dec_nat.induct)
  case (1 n)
  have d: "n mod 10 < 10" by simp
  show ?case
  proof (cases "n < 10")
    case True
    with 1 show ?thesis by (auto simp: dec_nat.simps [of n])
  next
    case False
    with 1 d show ?thesis by (auto simp: dec_nat.simps [of n])
  qed
qed

lemma dec_nat_inject [simp]: "dec_nat m = dec_nat n \<longleftrightarrow> m = n"
  by (metis digits_value_dec_nat option.inject)

lemma dec_nat_no_char:
  assumes "(of_char c :: nat) < 48 \<or> 57 < (of_char c :: nat)"
  shows "c \<notin> set (dec_nat n)"
  using assms dec_nat_digits [of c n] by linarith

lemma dec_int_no_char:
  assumes "(of_char c :: nat) < 45 \<or> 57 < (of_char c :: nat)"
  shows "c \<notin> set (dec_int i)"
proof -
  have "c \<noteq> CHR ''-''" using assms by auto
  moreover have "c \<notin> set (dec_nat n)" for n
    using assms dec_nat_no_char [of c n] by linarith
  ultimately show ?thesis by (simp add: dec_int_def)
qed

lemma dec_nat_hd_not_sign:
  "hd (dec_nat n) \<noteq> CHR ''-''" "hd (dec_nat n) \<noteq> CHR ''+''"
proof -
  have h: "hd (dec_nat n) \<in> set (dec_nat n)" by (rule hd_in_set) simp
  show "hd (dec_nat n) \<noteq> CHR ''-''" using dec_nat_digits [OF h] by auto
  show "hd (dec_nat n) \<noteq> CHR ''+''" using dec_nat_digits [OF h] by auto
qed

lemma dec_int_inject [simp]: "dec_int i = dec_int j \<longleftrightarrow> i = j"
proof
  assume eq: "dec_int i = dec_int j"
  have no: "dec_nat a \<noteq> CHR ''-'' # s" for a s
    using dec_nat_hd_not_sign(1) [of a] by (metis list.sel(1))
  show "i = j"
    using eq no no [symmetric] by (auto simp: dec_int_def split: if_splits)
qed simp

lemma parse_unsigned_dec_nat: "n < 2 ^ w \<Longrightarrow> parse_unsigned w (dec_nat n) = Some n"
proof -
  assume n: "n < 2 ^ w"
  have "(case dec_nat n of CHR ''+'' # r \<Rightarrow> r | _ \<Rightarrow> dec_nat n) = dec_nat n"
  proof (cases "dec_nat n")
    case (Cons c cs)
    then have "c \<noteq> CHR ''+''" using dec_nat_hd_not_sign(2) [of n] by simp
    with Cons show ?thesis by (cases c) (auto split: bool.splits)
  qed simp
  with n show ?thesis by (simp add: parse_unsigned_def digits_value_dec_nat)
qed

lemma parse_unsigned_bound: "parse_unsigned w s = Some n \<Longrightarrow> n < 2 ^ w"
  by (auto simp: parse_unsigned_def Let_def split: option.splits if_splits)

subsection \<open>Sixty-four bit arithmetic\<close>

definition succ64 :: "nat \<Rightarrow> nat" where
  "succ64 n = (n + 1) mod 2 ^ 64"

definition wrap64 :: "int \<Rightarrow> int" where
  "wrap64 i = (i + 2 ^ 63) mod 2 ^ 64 - 2 ^ 63"

lemma succ64_small [simp]: "n + 1 < 2 ^ 64 \<Longrightarrow> succ64 n = n + 1"
  by (simp add: succ64_def)

lemma succ64_bound: "succ64 n < 2 ^ 64"
  by (simp add: succ64_def)

lemma wrap64_id: "- (2 ^ 63) \<le> i \<Longrightarrow> i < 2 ^ 63 \<Longrightarrow> wrap64 i = i"
  by (simp add: wrap64_def)

definition sat_add :: "nat \<Rightarrow> nat \<Rightarrow> nat" where
  "sat_add a b = min (a + b) (2 ^ 64 - 1)"

subsection \<open>Joining and splitting at a character\<close>

fun join :: "string \<Rightarrow> string list \<Rightarrow> string" where
  "join sep [] = []"
| "join sep [x] = x"
| "join sep (x # y # zs) = x @ sep @ join sep (y # zs)"

text \<open>\<open>split_char c s\<close> is \<open>s.split(c)\<close>: always at least one field.\<close>

fun split_char :: "char \<Rightarrow> string \<Rightarrow> string list" where
  "split_char c [] = [[]]"
| "split_char c (x # xs) =
     (if x = c then [] # split_char c xs
      else case split_char c xs of [] \<Rightarrow> [[x]] | f # fs \<Rightarrow> (x # f) # fs)"

lemma split_char_not_Nil [simp]: "split_char c s \<noteq> []"
  by (cases s) (auto split: list.splits)

lemma split_char_no_sep: "c \<notin> set s \<Longrightarrow> split_char c s = [s]"
  by (induction s) auto

lemma split_char_append_sep:
  "c \<notin> set x \<Longrightarrow> split_char c (x @ c # s) = x # split_char c s"
  by (induction x) auto

lemma split_char_join:
  "xs \<noteq> [] \<Longrightarrow> \<forall>x\<in>set xs. c \<notin> set x \<Longrightarrow> split_char c (join [c] xs) = xs"
proof (induction "[c]" xs rule: join.induct)
  case (2 x)
  then show ?case by (simp add: split_char_no_sep)
next
  case (3 x y zs)
  then show ?case by (simp add: split_char_append_sep)
qed simp

lemma join_inject:
  assumes "xs \<noteq> []" "ys \<noteq> []"
    and "\<forall>x\<in>set xs. c \<notin> set x" "\<forall>y\<in>set ys. c \<notin> set y"
    and "join [c] xs = join [c] ys"
  shows "xs = ys"
  using assms by (metis split_char_join)

lemma join_Cons: "xs \<noteq> [] \<Longrightarrow> join sep (x # xs) = x @ sep @ join sep xs"
  by (cases xs) simp_all

lemma join_append:
  "xs \<noteq> [] \<Longrightarrow> ys \<noteq> [] \<Longrightarrow> join sep (xs @ ys) = join sep xs @ sep @ join sep ys"
  by (induction sep xs rule: join.induct) (auto simp: join_Cons)

text \<open>
  The same fact when one field is free text that may hold the separator: the fields before and
  after it are still determined, because they are read off from the two ends.
\<close>

lemma sep_prefix_unique:
  assumes "c \<notin> set x" "c \<notin> set y" "x @ c # s = y @ c # t"
  shows "x = y \<and> s = t"
  using assms
proof (induction x arbitrary: y)
  case Nil
  then show ?case by (cases y) auto
next
  case (Cons a x)
  then show ?case by (cases y) auto
qed

lemma sep_suffix_unique:
  assumes "c \<notin> set x" "c \<notin> set y" "s @ c # x = t @ c # y"
  shows "x = y \<and> s = t"
proof -
  have "rev x @ c # rev s = rev y @ c # rev t"
    using arg_cong [OF assms(3), of rev] by simp
  then show ?thesis
    using sep_prefix_unique [of c "rev x" "rev y" "rev s" "rev t"] assms(1,2) by simp
qed

lemma sep_prefix_eq:
  "c \<notin> set x \<Longrightarrow> c \<notin> set y \<Longrightarrow> x @ c # s = y @ c # t \<longleftrightarrow> x = y \<and> s = t"
  using sep_prefix_unique [of c x y s t] by auto

lemma sep_suffix_eq:
  "c \<notin> set x \<Longrightarrow> c \<notin> set y \<Longrightarrow> s @ c # x = t @ c # y \<longleftrightarrow> s = t \<and> x = y"
  using sep_suffix_unique [of c x y s t] by auto

lemma sep_suffix_eq2:
  assumes "c \<notin> set x" "c \<notin> set y" "c \<notin> set x'" "c \<notin> set y'"
  shows "s @ c # x @ c # y = t @ c # x' @ c # y' \<longleftrightarrow> s = t \<and> x = x' \<and> y = y'"
  using assms sep_suffix_eq [of c y y' "s @ c # x" "t @ c # x'"] by (auto simp: sep_suffix_eq)

subsection \<open>Prefixes and suffixes\<close>

fun strip_prefix :: "string \<Rightarrow> string \<Rightarrow> string option" where
  "strip_prefix [] s = Some s"
| "strip_prefix (p # ps) [] = None"
| "strip_prefix (p # ps) (c # cs) = (if p = c then strip_prefix ps cs else None)"

definition strip_suffix :: "string \<Rightarrow> string \<Rightarrow> string option" where
  "strip_suffix p s = map_option rev (strip_prefix (rev p) (rev s))"

definition starts_with :: "string \<Rightarrow> string \<Rightarrow> bool" where
  "starts_with s p = (strip_prefix p s \<noteq> None)"

lemma strip_prefix_Some_iff: "strip_prefix p s = Some r \<longleftrightarrow> s = p @ r"
  by (induction p s rule: strip_prefix.induct) auto

lemma starts_with_iff: "starts_with s p \<longleftrightarrow> (\<exists>r. s = p @ r)"
  by (auto simp: starts_with_def simp flip: strip_prefix_Some_iff)

lemma strip_suffix_Some_iff: "strip_suffix p s = Some r \<longleftrightarrow> s = r @ p"
proof -
  have "strip_suffix p s = Some r \<longleftrightarrow> rev s = rev p @ rev r"
    by (auto simp: strip_suffix_def strip_prefix_Some_iff)
  then show ?thesis by (metis rev_append rev_rev_ident)
qed

subsection \<open>Hexadecimal\<close>

definition hex_digit :: "nat \<Rightarrow> char" where
  "hex_digit n = char_of (if n < 10 then 48 + n else 87 + n)"

text \<open>\<open>{byte:02x}\<close>: two lower-case digits.\<close>

definition hex_byte :: "char \<Rightarrow> string" where
  "hex_byte b = [hex_digit (of_char b div 16), hex_digit (of_char b mod 16)]"

definition hex_bytes :: "string \<Rightarrow> string" where
  "hex_bytes bs = concat (map hex_byte bs)"

lemma length_hex_bytes [simp]: "length (hex_bytes bs) = 2 * length bs"
  by (induction bs) (simp_all add: hex_bytes_def hex_byte_def)

lemma of_char_hex_digit:
  "n < 16 \<Longrightarrow> (of_char (hex_digit n) :: nat) = (if n < 10 then 48 + n else 87 + n)"
  by (simp add: hex_digit_def)

lemma hex_digit_inject: "m < 16 \<Longrightarrow> n < 16 \<Longrightarrow> hex_digit m = hex_digit n \<longleftrightarrow> m = n"
  by (auto dest: arg_cong [where f = "of_char :: char \<Rightarrow> nat"] simp: of_char_hex_digit split: if_splits)

lemma hex_byte_inject [simp]: "hex_byte a = hex_byte b \<longleftrightarrow> a = b"
proof
  assume eq: "hex_byte a = hex_byte b"
  have lt: "(of_char x :: nat) < 256" for x :: char by simp
  have "(of_char a :: nat) div 16 = of_char b div 16" "(of_char a :: nat) mod 16 = of_char b mod 16"
    using eq lt [of a] lt [of b] by (auto simp: hex_byte_def hex_digit_inject less_mult_imp_div_less)
  then have "(of_char a :: nat) = of_char b" by (metis div_mult_mod_eq)
  then show "a = b" by simp
qed simp

lemma hex_bytes_inject: "length xs = length ys \<Longrightarrow> hex_bytes xs = hex_bytes ys \<longleftrightarrow> xs = ys"
proof (induction xs ys rule: list_induct2)
  case (Cons x xs y ys)
  have "length (hex_byte x) = length (hex_byte y)" by (simp add: hex_byte_def)
  with Cons show ?case by (simp add: hex_bytes_def)
qed simp

subsection \<open>Timestamps\<close>

text \<open>\<open>struct Timestamp(i64)\<close>: milliseconds since the epoch, ordered by them.\<close>

datatype timestamp = Timestamp (millis: int)

instantiation timestamp :: linorder
begin

definition less_eq_timestamp :: "timestamp \<Rightarrow> timestamp \<Rightarrow> bool" where
  "less_eq_timestamp a b = (millis a \<le> millis b)"

definition less_timestamp :: "timestamp \<Rightarrow> timestamp \<Rightarrow> bool" where
  "less_timestamp a b = (millis a < millis b)"

instance
  by standard (auto simp: less_eq_timestamp_def less_timestamp_def intro: timestamp.expand)

end

subsection \<open>Parsed URLs\<close>

text \<open>
  What the code reads off a \<open>Url\<close> of the \<open>url\<close> crate. The parser itself is a parameter of the
  definitions that call it.
\<close>

record url =
  url_scheme :: string
  url_username :: string
  url_password :: "string option"
  url_host :: "string option"
  url_port :: "nat option"
  url_query :: "string option"
  url_fragment :: "string option"
  url_opaque :: bool  \<comment> \<open>\<open>cannot_be_a_base\<close>\<close>

subsection \<open>Lists\<close>

lemma sorted_wrt_append_single:
  "sorted_wrt (<) xs \<Longrightarrow> \<forall>x\<in>set xs. x < (y :: 'a :: linorder) \<Longrightarrow> sorted_wrt (<) (xs @ [y])"
  by (simp add: sorted_wrt_append)

lemma filter_sorted_le_drop:
  fixes f :: "'a \<Rightarrow> 'b :: linorder"
  assumes "sorted_wrt (<) (map f xs)" "n < length xs"
  shows "filter (\<lambda>x. \<not> f x \<le> f (xs ! n)) xs = drop (Suc n) xs"
  using assms
proof (induction xs arbitrary: n)
  case (Cons x xs)
  show ?case
  proof (cases n)
    case 0
    with Cons.prems show ?thesis by (auto simp: filter_id_conv not_le)
  next
    case (Suc m)
    with Cons.prems have "f x \<le> f (xs ! m)" by (auto intro: less_imp_le)
    with Suc Cons show ?thesis by simp
  qed
qed simp

end
