(* ===== verification/Json.thy ===== *)
theory Json
  imports Prelude
begin

text \<open>
  The JSON values the payloads are made of, \<open>serde_json::Value\<close>, with the part of its interface
  the source uses: \<open>get\<close>, \<open>get_mut\<close>, \<open>insert\<close>, \<open>pointer\<close> and the \<open>as_\<close> projections. An object is
  the list of its members; \<open>obj_insert\<close> replaces the member a key has or adds one, so a key occurs
  once in an object built by it (\<open>distinct_keys\<close>) and every lookup reads the last value stored.
  Parsing and printing of JSON text belong to the library and are parameters wherever the code
  calls them.
\<close>

datatype json =
    JNull
  | JBool bool
  | JInt int
  | JFloat string
  | JString string
  | JArray "json list"
  | JObject "(string \<times> json) list"

type_synonym obj = "(string \<times> json) list"

fun obj_insert :: "string \<Rightarrow> json \<Rightarrow> obj \<Rightarrow> obj" where
  "obj_insert k v [] = [(k, v)]"
| "obj_insert k v ((k', v') # m) = (if k = k' then (k, v) # m else (k', v') # obj_insert k v m)"

text \<open>Writing through \<open>get_mut\<close>: only a member that is there changes.\<close>

fun obj_modify :: "string \<Rightarrow> (json \<Rightarrow> json) \<Rightarrow> obj \<Rightarrow> obj" where
  "obj_modify k f [] = []"
| "obj_modify k f ((k', v') # m) = (if k = k' then (k', f v') # m else (k', v') # obj_modify k f m)"

abbreviation obj_get :: "obj \<Rightarrow> string \<Rightarrow> json option" where
  "obj_get \<equiv> map_of"

definition distinct_keys :: "obj \<Rightarrow> bool" where
  "distinct_keys m = distinct (map fst m)"

fun as_str :: "json \<Rightarrow> string option" where
  "as_str (JString s) = Some s"
| "as_str _ = None"

fun as_bool :: "json \<Rightarrow> bool option" where
  "as_bool (JBool b) = Some b"
| "as_bool _ = None"

fun as_array :: "json \<Rightarrow> json list option" where
  "as_array (JArray xs) = Some xs"
| "as_array _ = None"

fun as_object :: "json \<Rightarrow> obj option" where
  "as_object (JObject m) = Some m"
| "as_object _ = None"

text \<open>\<open>Value::get\<close> with a string index: a member of an object, nothing of any other value.\<close>

fun json_get :: "json \<Rightarrow> string \<Rightarrow> json option" where
  "json_get (JObject m) k = obj_get m k"
| "json_get _ k = None"

text \<open>\<open>value.get(k).and_then(Value::as_str)\<close> and its like.\<close>

definition get_str :: "json \<Rightarrow> string \<Rightarrow> string option" where
  "get_str v k = Option.bind (json_get v k) as_str"

definition get_array :: "json \<Rightarrow> string \<Rightarrow> json list option" where
  "get_array v k = Option.bind (json_get v k) as_array"

text \<open>\<open>value.pointer("/a/b")\<close> through objects, for the paths the code uses.\<close>

fun json_path :: "json \<Rightarrow> string list \<Rightarrow> json option" where
  "json_path v [] = Some v"
| "json_path v (k # ks) = Option.bind (json_get v k) (\<lambda>w. json_path w ks)"

lemma map_of_obj_insert [simp]: "map_of (obj_insert k v m) = (map_of m)(k \<mapsto> v)"
  by (induction k v m rule: obj_insert.induct) (auto simp: fun_eq_iff)

lemma map_of_obj_modify [simp]:
  "map_of (obj_modify k f m) k' =
     (if k' = k then map_option f (map_of m k) else map_of m k')"
  by (induction k f m rule: obj_modify.induct) auto

lemma keys_obj_insert [simp]: "fst ` set (obj_insert k v m) = insert k (fst ` set m)"
  by (induction k v m rule: obj_insert.induct) auto

lemma map_fst_obj_modify [simp]: "map fst (obj_modify k f m) = map fst m"
  by (induction k f m rule: obj_modify.induct) auto

lemma distinct_keys_Nil [wf_intros]: "distinct_keys []"
  by (simp add: distinct_keys_def)

lemma distinct_keys_obj_insert [wf_intros]: "distinct_keys m \<Longrightarrow> distinct_keys (obj_insert k v m)"
  unfolding distinct_keys_def
proof (induction k v m rule: obj_insert.induct)
  case (2 k v k' v' m)
  then show ?case by (auto simp: image_iff split: if_splits)
qed simp

lemma distinct_keys_obj_modify [wf_intros]: "distinct_keys m \<Longrightarrow> distinct_keys (obj_modify k f m)"
  by (simp add: distinct_keys_def)

lemma obj_insert_same_keys:
  "map_of m k = Some v' \<Longrightarrow> map fst (obj_insert k v m) = map fst m"
  by (induction k v m rule: obj_insert.induct) auto

lemma obj_insert_idem: "obj_insert k v (obj_insert k v m) = obj_insert k v m"
  by (induction k v m rule: obj_insert.induct) auto

lemma obj_modify_idem: "(\<And>x. f (f x) = f x) \<Longrightarrow> obj_modify k f (obj_modify k f m) = obj_modify k f m"
  by (induction k f m rule: obj_modify.induct) auto

lemma obj_modify_comm:
  "j \<noteq> k \<Longrightarrow> obj_modify j f (obj_modify k g m) = obj_modify k g (obj_modify j f m)"
  by (induction k g m rule: obj_modify.induct) auto

end
