(* ===== verification/Records.thy ===== *)
theory Records
  imports Json
begin

text \<open>
  The record model of \<open>src/src/runtime/mod.rs\<close> and the deduplication keys of
  \<open>src/src/runtime/dedup.rs\<close>. A provider emits \<open>record_draft\<close>s; the buffer gives each a sequence
  number and \<open>into_envelope\<close> turns it into the \<open>envelope\<close> that is stored and shipped, with its
  \<open>dedup_key\<close>. The hash (the \<open>sha2\<close> crate) is the parameter \<open>sha\<close>, a map from bytes to the digest's
  bytes; calendar formatting (the \<open>chrono\<close> crate) is the parameter \<open>utc\<close>, which has no value for
  an instant it cannot represent.
\<close>

subsection \<open>Providers, kinds and key sources\<close>

datatype provider = Windows | BrowserHistory | ClaudeCode

fun provider_as_str :: "provider \<Rightarrow> string" where
  "provider_as_str Windows = ''windows''"
| "provider_as_str BrowserHistory = ''browser_history''"
| "provider_as_str ClaudeCode = ''claude_code''"

datatype kind =
    Tick | Focus | StateChange | Lock | Unlock | Sleep | Wake
  | BufferOverflow | Visit | Message | Session | Touch

fun kind_as_str :: "kind \<Rightarrow> string" where
  "kind_as_str Tick = ''tick''"
| "kind_as_str Focus = ''focus''"
| "kind_as_str StateChange = ''state_change''"
| "kind_as_str Lock = ''lock''"
| "kind_as_str Unlock = ''unlock''"
| "kind_as_str Sleep = ''sleep''"
| "kind_as_str Wake = ''wake''"
| "kind_as_str BufferOverflow = ''buffer_overflow''"
| "kind_as_str Visit = ''visit''"
| "kind_as_str Message = ''message''"
| "kind_as_str Session = ''session''"
| "kind_as_str Touch = ''touch''"

definition unrepresentable_instant :: string where
  "unrepresentable_instant = ''1970-01-01T00:00:00.000Z''"

definition to_rfc3339 :: "(int \<Rightarrow> string option) \<Rightarrow> timestamp \<Rightarrow> string" where
  "to_rfc3339 utc ts =
     (case utc (millis ts) of None \<Rightarrow> unrepresentable_instant | Some s \<Rightarrow> s)"

record cursor =
  cur_provider :: provider
  cur_key :: string
  cur_value :: string

datatype key_source =
    WindowsKey
  | BrowserVisit string nat int          \<comment> \<open>profile, generation, visit id\<close>
  | ClaudeMessage string string nat      \<comment> \<open>session id, uuid, block\<close>
  | ClaudeSession string string string   \<comment> \<open>session id, field, value\<close>
  | ClaudeTouch string string string string  \<comment> \<open>session id, uuid, repository, action\<close>

record record_draft =
  dr_provider :: provider
  dr_kind :: kind
  dr_ts :: timestamp
  dr_degraded :: bool
  dr_payload :: json
  dr_key :: key_source

record envelope =
  en_provider :: provider
  en_device :: string
  en_ts :: timestamp
  en_seq :: nat
  en_kind :: kind
  en_dedup_key :: string
  en_degraded :: bool
  en_payload :: json

subsection \<open>Deduplication keys\<close>

definition unit_separator :: char where
  "unit_separator = CHR 0x1F"

definition key_hex_chars :: nat where
  "key_hex_chars = 16"

definition key :: "(string \<Rightarrow> string) \<Rightarrow> string list \<Rightarrow> string" where
  "key sha parts =
     hex_bytes (take (key_hex_chars div 2) (sha (join [unit_separator] parts)))"

definition windows_key :: "(string \<Rightarrow> string) \<Rightarrow> string \<Rightarrow> kind \<Rightarrow> int \<Rightarrow> nat \<Rightarrow> string" where
  "windows_key sha device knd ts_millis seq =
     key sha [device, provider_as_str Windows, kind_as_str knd, dec_int ts_millis, dec_nat seq]"

definition browser_key :: "(string \<Rightarrow> string) \<Rightarrow> string \<Rightarrow> string \<Rightarrow> nat \<Rightarrow> int \<Rightarrow> string" where
  "browser_key sha device prof gen vid =
     key sha [device, provider_as_str BrowserHistory, prof, dec_nat gen, dec_int vid]"

definition claude_message_key ::
  "(string \<Rightarrow> string) \<Rightarrow> string \<Rightarrow> string \<Rightarrow> string \<Rightarrow> nat \<Rightarrow> string" where
  "claude_message_key sha device sid uid blk =
     key sha [device, provider_as_str ClaudeCode, kind_as_str Message, sid, uid, dec_nat blk]"

definition claude_session_key ::
  "(string \<Rightarrow> string) \<Rightarrow> string \<Rightarrow> string \<Rightarrow> string \<Rightarrow> string \<Rightarrow> string" where
  "claude_session_key sha device sid fld val =
     key sha [device, provider_as_str ClaudeCode, kind_as_str Session, sid, fld, val]"

definition claude_touch_key ::
  "(string \<Rightarrow> string) \<Rightarrow> string \<Rightarrow> string \<Rightarrow> string \<Rightarrow> string \<Rightarrow> string \<Rightarrow> string" where
  "claude_touch_key sha device sid uid rep act =
     key sha [device, provider_as_str ClaudeCode, kind_as_str Touch, sid, uid, rep, act]"

fun dedup_key_of ::
  "(string \<Rightarrow> string) \<Rightarrow> string \<Rightarrow> kind \<Rightarrow> timestamp \<Rightarrow> nat \<Rightarrow> key_source \<Rightarrow> string" where
  "dedup_key_of sha device knd ts seq WindowsKey = windows_key sha device knd (millis ts) seq"
| "dedup_key_of sha device knd ts seq (BrowserVisit prof gen vid) =
     browser_key sha device prof gen vid"
| "dedup_key_of sha device knd ts seq (ClaudeMessage sid uid blk) =
     claude_message_key sha device sid uid blk"
| "dedup_key_of sha device knd ts seq (ClaudeSession sid fld val) =
     claude_session_key sha device sid fld val"
| "dedup_key_of sha device knd ts seq (ClaudeTouch sid uid rep act) =
     claude_touch_key sha device sid uid rep act"

definition into_envelope ::
  "(string \<Rightarrow> string) \<Rightarrow> record_draft \<Rightarrow> string \<Rightarrow> nat \<Rightarrow> envelope" where
  "into_envelope sha d device seq =
     \<lparr>en_provider = dr_provider d, en_device = device, en_ts = dr_ts d, en_seq = seq,
      en_kind = dr_kind d,
      en_dedup_key = dedup_key_of sha device (dr_kind d) (dr_ts d) seq (dr_key d),
      en_degraded = dr_degraded d, en_payload = dr_payload d\<rparr>"

lemma into_envelope_sel [simp]:
  "en_provider (into_envelope sha d device seq) = dr_provider d"
  "en_device (into_envelope sha d device seq) = device"
  "en_ts (into_envelope sha d device seq) = dr_ts d"
  "en_seq (into_envelope sha d device seq) = seq"
  "en_kind (into_envelope sha d device seq) = dr_kind d"
  "en_degraded (into_envelope sha d device seq) = dr_degraded d"
  "en_payload (into_envelope sha d device seq) = dr_payload d"
  by (simp_all add: into_envelope_def)

subsection \<open>What a key identifies\<close>

text \<open>
  The identity a key stands for: a window record is this kind at this instant with this sequence
  number, every other record is what its key source says, and neither its sequence number nor its
  time of capture takes part.
\<close>

datatype identity = WindowIdentity kind int nat | SourceIdentity key_source

fun identity_of :: "kind \<Rightarrow> timestamp \<Rightarrow> nat \<Rightarrow> key_source \<Rightarrow> identity" where
  "identity_of knd ts seq WindowsKey = WindowIdentity knd (millis ts) seq"
| "identity_of knd ts seq src = SourceIdentity src"

text \<open>
  The ids a transcript line supplies must be free of the separator; titles, repository paths,
  profile and device names may hold anything.
\<close>

fun plain_ids :: "key_source \<Rightarrow> bool" where
  "plain_ids WindowsKey = True"
| "plain_ids (BrowserVisit prof gen vid) = True"
| "plain_ids (ClaudeMessage sid uid blk) = (unit_separator \<notin> set sid \<and> unit_separator \<notin> set uid)"
| "plain_ids (ClaudeSession sid fld val) = (unit_separator \<notin> set sid \<and> unit_separator \<notin> set fld)"
| "plain_ids (ClaudeTouch sid uid rep act) =
     (unit_separator \<notin> set sid \<and> unit_separator \<notin> set uid \<and> unit_separator \<notin> set act)"

lemma of_char_unit_separator [simp]: "(of_char unit_separator :: nat) = 31"
  by (simp add: unit_separator_def)

lemma unit_separator_not_in_dec [simp]:
  "unit_separator \<notin> set (dec_nat n)" "unit_separator \<notin> set (dec_int i)"
  by (simp_all add: dec_nat_no_char dec_int_no_char)

lemma unit_separator_not_in_names [simp]:
  "unit_separator \<notin> set (provider_as_str p)" "unit_separator \<notin> set (kind_as_str k)"
  by (cases p; simp add: unit_separator_def) (cases k; simp add: unit_separator_def)

lemma provider_as_str_inject [simp]: "provider_as_str p = provider_as_str q \<longleftrightarrow> p = q"
  by (cases p; cases q) simp_all

lemma kind_as_str_inject [simp]: "kind_as_str k = kind_as_str l \<longleftrightarrow> k = l"
  by (cases k; cases l) simp_all

text \<open>Two field lists share their keys under every hash exactly when their joined texts agree.\<close>

lemma key_all_hashes_iff:
  "(\<forall>sha. key sha xs = key sha ys) \<longleftrightarrow> join [unit_separator] xs = join [unit_separator] ys"
proof
  assume all: "\<forall>sha. key sha xs = key sha ys"
  let ?x = "join [unit_separator] xs"
  have "key (\<lambda>t. if t = ?x then [CHR 0x00] else [CHR 0x01]) xs =
        key (\<lambda>t. if t = ?x then [CHR 0x00] else [CHR 0x01]) ys"
    using all by blast
  then show "?x = join [unit_separator] ys"
    by (simp add: key_def key_hex_chars_def hex_bytes_inject split: if_splits)
qed (simp add: key_def)

lemma length_key:
  assumes "8 \<le> length (sha (join [unit_separator] xs))"
  shows "length (key sha xs) = key_hex_chars"
  using assms by (simp add: key_def key_hex_chars_def)


text \<open>What follows the device name in a key's text.\<close>

fun key_parts :: "kind \<Rightarrow> timestamp \<Rightarrow> nat \<Rightarrow> key_source \<Rightarrow> string list" where
  "key_parts knd ts seq WindowsKey =
     [provider_as_str Windows, kind_as_str knd, dec_int (millis ts), dec_nat seq]"
| "key_parts knd ts seq (BrowserVisit prof gen vid) =
     [provider_as_str BrowserHistory, prof, dec_nat gen, dec_int vid]"
| "key_parts knd ts seq (ClaudeMessage sid uid blk) =
     [provider_as_str ClaudeCode, kind_as_str Message, sid, uid, dec_nat blk]"
| "key_parts knd ts seq (ClaudeSession sid fld val) =
     [provider_as_str ClaudeCode, kind_as_str Session, sid, fld, val]"
| "key_parts knd ts seq (ClaudeTouch sid uid rep act) =
     [provider_as_str ClaudeCode, kind_as_str Touch, sid, uid, rep, act]"

lemma dedup_key_of_parts: "dedup_key_of sha device knd ts seq src = key sha (device # key_parts knd ts seq src)"
  by (cases src) (simp_all add: windows_key_def browser_key_def claude_message_key_def
      claude_session_key_def claude_touch_key_def)

lemma join_device_parts:
  "join [unit_separator] (device # key_parts knd ts seq src) =
     device @ unit_separator # join [unit_separator] (key_parts knd ts seq src)"
  by (cases src) simp_all

lemma key_parts_inject:
  assumes "plain_ids src" "plain_ids src'"
  shows "join [unit_separator] (key_parts knd ts seq src) =
           join [unit_separator] (key_parts knd' ts' seq' src') \<longleftrightarrow>
         identity_of knd ts seq src = identity_of knd' ts' seq' src'"
  using assms
  by (cases src; cases src')
    (simp_all add: sep_prefix_eq sep_suffix_eq sep_suffix_eq2 del: provider_as_str.simps kind_as_str.simps)

text \<open>
  C1. Two records of one device carry the same deduplication key, whatever the hash, exactly when
  they are the same observation: for a window record the same kind, instant and sequence number,
  for a browser visit the same profile, generation and visit id, for a transcript record the same
  session, line and block (or field and value, or repository and action). Sequence numbers and
  capture times never enter the keys of browser and transcript records, records of different
  providers or kinds never share a key text, and titles or paths that contain the separator
  cannot make two records collide.
\<close>

theorem dedup_key_identity:
  assumes "plain_ids (dr_key d)" "plain_ids (dr_key d')"
  shows "(\<forall>sha. en_dedup_key (into_envelope sha d device seq) =
                en_dedup_key (into_envelope sha d' device seq')) \<longleftrightarrow>
         identity_of (dr_kind d) (dr_ts d) seq (dr_key d) =
         identity_of (dr_kind d') (dr_ts d') seq' (dr_key d')"
  using key_parts_inject [OF assms]
  by (simp add: into_envelope_def dedup_key_of_parts key_all_hashes_iff join_device_parts)

definition example_message :: "string \<Rightarrow> record_draft" where
  "example_message sid =
     \<lparr>dr_provider = ClaudeCode, dr_kind = Message, dr_ts = Timestamp 5, dr_degraded = False,
      dr_payload = JObject [], dr_key = ClaudeMessage sid ''u1'' 0\<rparr>"

theorem dedup_key_identity_witness:
  "(\<forall>sha. en_dedup_key (into_envelope sha (example_message ''s1'') ''mac'' 1) =
          en_dedup_key (into_envelope sha (example_message ''s1'') ''mac'' 9)) \<and>
   \<not> (\<forall>sha. en_dedup_key (into_envelope sha (example_message ''s1'') ''mac'' 1) =
            en_dedup_key (into_envelope sha (example_message ''s2'') ''mac'' 1))"
proof -
  have p: "plain_ids (dr_key (example_message ''s1''))" "plain_ids (dr_key (example_message ''s2''))"
    by (simp_all add: example_message_def unit_separator_def)
  show ?thesis
    using dedup_key_identity [OF p(1) p(1), of "''mac''" 1 9]
      dedup_key_identity [OF p(1) p(2), of "''mac''" 1 1]
    by (simp add: example_message_def)
qed

end
