(* ===== verification/Store.thy ===== *)
theory Store
  imports Records
begin

text \<open>
  The tables of \<open>buffer.db\<close> as the schema in \<open>src/src/runtime/buffer.rs\<close> declares them, and the
  statements the buffer runs against them. A statement is a function on a \<open>db\<close>: the tables, and a
  schedule of failures that says for each statement still to come whether SQLite reports an error.
  The schedule is the environment's: every theorem quantifies over it. A failed statement leaves the
  tables alone; a transaction whose body or commit fails puts back the tables it began with, which is
  what dropping an uncommitted \<open>rusqlite::Transaction\<close> does.
\<close>

subsection \<open>Tables\<close>

datatype buffer_error =
    StateDir string
  | OpenFailed string
  | WorkerFailed
  | StatementFailed
  | SerialiseFailed
  | Counter string string
  | Closed

record pending_row =
  row_id :: int
  row_envelope :: string
  row_bytes :: nat
  row_created_at :: string

record dead_row =
  dead_id :: int
  dead_envelope :: string
  dead_bytes :: nat
  dead_reason :: string
  dead_at :: string

record tables =
  t_pending :: "pending_row list"
  t_cursors :: "string \<times> string \<rightharpoonup> string"
  t_dead_letter :: "dead_row list"
  t_meta :: "string \<rightharpoonup> string"

text \<open>The tables of a database the schema has just created.\<close>

definition empty_tables :: tables where
  "empty_tables =
     \<lparr>t_pending = [], t_cursors = Map.empty, t_dead_letter = [], t_meta = Map.empty\<rparr>"

text \<open>
  \<open>id INTEGER PRIMARY KEY\<close> without \<open>AUTOINCREMENT\<close>: a new row gets one more than the largest id
  in the table, and 1 in an empty table.
\<close>

definition next_id :: "int list \<Rightarrow> int" where
  "next_id ids = (if ids = [] then 1 else foldr max ids (hd ids) + 1)"

definition insert_row :: "string \<Rightarrow> nat \<Rightarrow> string \<Rightarrow> pending_row list \<Rightarrow> pending_row list" where
  "insert_row txt bytes at rows =
     rows @ [\<lparr>row_id = next_id (map row_id rows), row_envelope = txt, row_bytes = bytes,
              row_created_at = at\<rparr>]"

definition insert_dead ::
  "string \<Rightarrow> nat \<Rightarrow> string \<Rightarrow> string \<Rightarrow> dead_row list \<Rightarrow> dead_row list" where
  "insert_dead txt bytes reason at rows =
     rows @ [\<lparr>dead_id = next_id (map dead_id rows), dead_envelope = txt, dead_bytes = bytes,
              dead_reason = reason, dead_at = at\<rparr>]"

definition ordered :: "pending_row list \<Rightarrow> pending_row list" where
  "ordered rows = sort_key row_id rows"

definition ordered_dead :: "dead_row list \<Rightarrow> dead_row list" where
  "ordered_dead rows = sort_key dead_id rows"

subsection \<open>Statements\<close>

record db =
  db_tables :: tables
  db_faults :: "bool list"

type_synonym 'a stmt = "db \<Rightarrow> (buffer_error, 'a) res \<times> db"

definition return :: "'a \<Rightarrow> 'a stmt" where
  "return a s = (Inr a, s)"

definition raise :: "buffer_error \<Rightarrow> 'a stmt" where
  "raise e s = (Inl e, s)"

definition bind :: "'a stmt \<Rightarrow> ('a \<Rightarrow> 'b stmt) \<Rightarrow> 'b stmt" where
  "bind m f s = (case m s of (Inl e, s') \<Rightarrow> (Inl e, s') | (Inr a, s') \<Rightarrow> f a s')"

text \<open>One SQL statement: it fails as the schedule says, and otherwise has its effect.\<close>

definition exec :: "(tables \<Rightarrow> 'a \<times> tables) \<Rightarrow> 'a stmt" where
  "exec f s =
     (case db_faults s of
        True # fs \<Rightarrow> (Inl StatementFailed, s\<lparr>db_faults := fs\<rparr>)
      | fs \<Rightarrow> (let (a, t) = f (db_tables s)
               in (Inr a, \<lparr>db_tables = t, db_faults = tl fs\<rparr>)))"

definition query :: "(tables \<Rightarrow> 'a) \<Rightarrow> 'a stmt" where
  "query f = exec (\<lambda>t. (f t, t))"

definition update :: "(tables \<Rightarrow> tables) \<Rightarrow> unit stmt" where
  "update f = exec (\<lambda>t. ((), f t))"

text \<open>\<open>BEGIN\<close>, the body, \<open>COMMIT\<close>; anything short of the commit rolls back.\<close>

definition transaction :: "'a stmt \<Rightarrow> 'a stmt" where
  "transaction body s =
     (let (r, s') = bind (query (\<lambda>t. ())) (\<lambda>_. bind body (\<lambda>a. bind (query (\<lambda>t. ())) (\<lambda>_. return a))) s
      in case r of
           Inl e \<Rightarrow> (Inl e, s'\<lparr>db_tables := db_tables s\<rparr>)
         | Inr a \<Rightarrow> (Inr a, s'))"

subsection \<open>Success does not depend on the schedule\<close>

text \<open>
  A statement that succeeds does what it would have done had nothing been scheduled to fail. With
  this, what a successful operation leaves behind is computed on the schedule \<open>[]\<close>.
\<close>

definition fault_blind :: "'a stmt \<Rightarrow> bool" where
  "fault_blind m =
     (\<forall>s a s'. m s = (Inr a, s') \<longrightarrow>
        m \<lparr>db_tables = db_tables s, db_faults = []\<rparr> =
          (Inr a, \<lparr>db_tables = db_tables s', db_faults = []\<rparr>))"

named_theorems blind_intros \<open>statements that are fault blind\<close>

lemma fault_blindD:
  "fault_blind m \<Longrightarrow> m s = (Inr a, s') \<Longrightarrow>
     m \<lparr>db_tables = db_tables s, db_faults = []\<rparr> = (Inr a, \<lparr>db_tables = db_tables s', db_faults = []\<rparr>)"
  unfolding fault_blind_def by blast

lemma fault_blind_return [blind_intros]: "fault_blind (return a)"
  by (simp add: fault_blind_def return_def)

lemma fault_blind_raise [blind_intros]: "fault_blind (raise e)"
  by (simp add: fault_blind_def raise_def)

lemma fault_blind_exec: "fault_blind (exec f)"
  unfolding fault_blind_def exec_def
  by (auto split: list.splits bool.splits prod.splits)

lemma fault_blind_query [blind_intros]: "fault_blind (query f)"
  by (simp add: query_def fault_blind_exec)

lemma fault_blind_update [blind_intros]: "fault_blind (update f)"
  by (simp add: update_def fault_blind_exec)

lemma fault_blind_bind [blind_intros]:
  assumes m: "fault_blind m" and f: "\<And>a. fault_blind (f a)"
  shows "fault_blind (bind m f)"
  unfolding fault_blind_def
proof (intro allI impI)
  fix s b s'
  assume "bind m f s = (Inr b, s')"
  then obtain a s1 where "m s = (Inr a, s1)" "f a s1 = (Inr b, s')"
    by (auto simp: bind_def split: prod.splits sum.splits)
  with fault_blindD [OF m] fault_blindD [OF f]
  have "m \<lparr>db_tables = db_tables s, db_faults = []\<rparr> = (Inr a, \<lparr>db_tables = db_tables s1, db_faults = []\<rparr>)"
    and "f a \<lparr>db_tables = db_tables s1, db_faults = []\<rparr> = (Inr b, \<lparr>db_tables = db_tables s', db_faults = []\<rparr>)"
    by blast+
  then show "bind m f \<lparr>db_tables = db_tables s, db_faults = []\<rparr> =
      (Inr b, \<lparr>db_tables = db_tables s', db_faults = []\<rparr>)"
    by (simp add: bind_def)
qed

lemma transaction_Inr:
  "transaction body s = (Inr a, s') \<longleftrightarrow>
     bind (query (\<lambda>t. ())) (\<lambda>_. bind body (\<lambda>a. bind (query (\<lambda>t. ())) (\<lambda>_. return a))) s = (Inr a, s')"
  by (auto simp: transaction_def Let_def split: prod.splits sum.splits)

lemma fault_blind_transaction [blind_intros]:
  "fault_blind body \<Longrightarrow> fault_blind (transaction body)"
  unfolding fault_blind_def [of "transaction body"] transaction_Inr
  by (intro allI impI, rule fault_blindD) (auto intro!: blind_intros)

lemma transaction_Inl: "transaction body s = (Inl e, s') \<Longrightarrow> db_tables s' = db_tables s"
  by (auto simp: transaction_def Let_def split: prod.splits sum.splits)

subsection \<open>Running without faults\<close>

abbreviation calm :: "tables \<Rightarrow> db" where
  "calm t \<equiv> \<lparr>db_tables = t, db_faults = []\<rparr>"

named_theorems calm_simps \<open>statements run on the empty schedule\<close>

lemma return_calm [calm_simps]: "return a s = (Inr a, s)"
  by (simp add: return_def)

lemma raise_calm [calm_simps]: "raise e s = (Inl e, s)"
  by (simp add: raise_def)

lemma query_calm [calm_simps]: "query f (calm t) = (Inr (f t), calm t)"
  by (simp add: query_def exec_def)

lemma update_calm [calm_simps]: "update f (calm t) = (Inr (), calm (f t))"
  by (simp add: update_def exec_def)

lemma bind_Inr [calm_simps]: "m s = (Inr a, s') \<Longrightarrow> bind m f s = f a s'"
  by (simp add: bind_def)

lemma bind_Inl [calm_simps]: "m s = (Inl e, s') \<Longrightarrow> bind m f s = (Inl e, s')"
  by (simp add: bind_def)

lemma bind_assoc: "bind (bind m f) g = bind m (\<lambda>a. bind (f a) g)"
  by (rule ext) (auto simp: bind_def split: prod.splits sum.splits)

lemma transaction_calm:
  "transaction body (calm t) =
     (case body (calm t) of
        (Inl e, s) \<Rightarrow> (Inl e, s\<lparr>db_tables := t\<rparr>)
      | (Inr a, s) \<Rightarrow> bind (query (\<lambda>t. ())) (\<lambda>_. return a) s)"
  if "db_faults (snd (body (calm t))) = []"
proof -
  obtain r s where b: "body (calm t) = (r, s)" by (cases "body (calm t)")
  with that obtain u where s: "s = calm u" by (cases s) simp
  show ?thesis
    by (cases r) (simp_all add: transaction_def bind_def b s query_calm return_calm)
qed

lemma fault_blind_calm:
  assumes "fault_blind m" "m s = (Inr a, s')"
  shows "m (calm (db_tables s)) = (Inr a, calm (db_tables s'))"
  using fault_blindD [OF assms] .

subsection \<open>Row ids\<close>

lemma foldr_max_ge: "x \<in> set xs \<Longrightarrow> (x :: int) \<le> foldr max xs b"
  by (induction xs) auto

lemma foldr_max_in: "foldr max xs (b :: int) \<in> insert b (set xs)"
  by (induction xs) (auto simp: max_def)

lemma next_id_fresh: "x \<in> set ids \<Longrightarrow> x < next_id ids"
  using foldr_max_ge [of x ids "hd ids"] by (auto simp: next_id_def)

text \<open>The invariant of a table: ids increase in the order the rows were added and start above 0.\<close>

definition ids_ok :: "int list \<Rightarrow> bool" where
  "ids_ok ids = (sorted_wrt (<) ids \<and> (\<forall>i \<in> set ids. 0 < i))"

definition tables_ok :: "tables \<Rightarrow> bool" where
  "tables_ok t = (ids_ok (map row_id (t_pending t)) \<and> ids_ok (map dead_id (t_dead_letter t)))"

lemma next_id_pos: "ids_ok ids \<Longrightarrow> 0 < next_id ids"
  using foldr_max_in [of ids "hd ids"] by (cases ids) (auto simp: ids_ok_def next_id_def)

lemma ids_ok_Nil [wf_intros]: "ids_ok []"
  by (simp add: ids_ok_def)

lemma ids_ok_snoc [wf_intros]: "ids_ok ids \<Longrightarrow> ids_ok (ids @ [next_id ids])"
  using next_id_pos [of ids] by (auto simp: ids_ok_def sorted_wrt_append next_id_fresh)

lemma ids_ok_insert_row [wf_intros]:
  "ids_ok (map row_id rows) \<Longrightarrow> ids_ok (map row_id (insert_row txt b at rows))"
  by (simp add: insert_row_def ids_ok_snoc)

lemma ids_ok_insert_dead [wf_intros]:
  "ids_ok (map dead_id rows) \<Longrightarrow> ids_ok (map dead_id (insert_dead txt b r at rows))"
  by (simp add: insert_dead_def ids_ok_snoc)

lemma ids_ok_filter [wf_intros]: "ids_ok (map f rows) \<Longrightarrow> ids_ok (map f (filter P rows))"
  by (auto simp: ids_ok_def sorted_wrt_map intro: sorted_wrt_filter)

lemma sort_key_ids_ok: "ids_ok (map f rows) \<Longrightarrow> sort_key f rows = rows"
  by (rule sort_key_id_if_sorted) (simp add: ids_ok_def strict_sorted_imp_sorted)

lemma ordered_id: "ids_ok (map row_id rows) \<Longrightarrow> ordered rows = rows"
  by (simp add: ordered_def sort_key_ids_ok)

lemma ordered_dead_id: "ids_ok (map dead_id rows) \<Longrightarrow> ordered_dead rows = rows"
  by (simp add: ordered_dead_def sort_key_ids_ok)

lemma distinct_ids_ok: "ids_ok ids \<Longrightarrow> distinct ids"
  by (auto simp: ids_ok_def strict_sorted_iff)

end
