(* ===== verification/Redact.thy ===== *)
theory Redact
  imports Records
begin

text \<open>
  The redactor, \<open>src/src/runtime/redact.rs\<close>, with the rule types of \<open>src/src/config.rs\<close> it is
  built from. \<open>parse\<close> is \<open>Url::parse\<close> of the \<open>url\<close> crate and \<open>lower\<close> is \<open>str::to_lowercase\<close>, whose
  Unicode tables are not written out: both are parameters.
\<close>

subsection \<open>Rules and the redactor they make\<close>

datatype keep = KeepHost | KeepFull

datatype redact_field = TitleField

record redact_rule =
  rule_url_host :: "string option"
  rule_keep :: "keep option"
  rule_bundle_id :: "string option"
  rule_drop :: "redact_field list"

record redactor =
  rd_fallback :: keep
  rd_hosts :: "string \<rightharpoonup> keep"
  rd_titleless :: "string set"

definition wildcard_host :: string where
  "wildcard_host = ''*''"

definition dropped_with_title :: "string list" where
  "dropped_with_title = [''tab'', ''command'']"

fun drop_fields :: "string \<Rightarrow> redact_field list \<Rightarrow> string set \<Rightarrow> string set" where
  "drop_fields b [] bundles = bundles"
| "drop_fields b (TitleField # fs) bundles = drop_fields b fs (insert b bundles)"

definition add_rule :: "(string \<Rightarrow> string) \<Rightarrow> redactor \<Rightarrow> redact_rule \<Rightarrow> redactor" where
  "add_rule lower rd r =
     (let rd = (case rule_url_host r of
                  None \<Rightarrow> rd
                | Some h \<Rightarrow>
                    let k = (case rule_keep r of Some k \<Rightarrow> k | None \<Rightarrow> KeepHost)
                    in if h = wildcard_host then rd\<lparr>rd_fallback := k\<rparr>
                       else rd\<lparr>rd_hosts := (rd_hosts rd)(lower h \<mapsto> k)\<rparr>)
      in case rule_bundle_id r of
           None \<Rightarrow> rd
         | Some b \<Rightarrow> rd\<lparr>rd_titleless := drop_fields b (rule_drop r) (rd_titleless rd)\<rparr>)"

definition redactor_new :: "(string \<Rightarrow> string) \<Rightarrow> redact_rule list \<Rightarrow> redactor" where
  "redactor_new lower rules =
     foldl (add_rule lower)
       \<lparr>rd_fallback = KeepHost, rd_hosts = Map.empty, rd_titleless = {}\<rparr> rules"

subsection \<open>Applying it\<close>

definition keep_for :: "(string \<Rightarrow> string) \<Rightarrow> redactor \<Rightarrow> string \<Rightarrow> keep" where
  "keep_for lower rd host =
     (case rd_hosts rd (lower host) of Some k \<Rightarrow> k | None \<Rightarrow> rd_fallback rd)"

definition host_only :: "url \<Rightarrow> string" where
  "host_only u =
     (let scheme = url_scheme u; host = (case url_host u of Some h \<Rightarrow> h | None \<Rightarrow> [])
      in if host = [] then
           (if url_opaque u then scheme @ '':'' else scheme @ '':///'')
         else case url_port u of
                Some p \<Rightarrow> scheme @ ''://'' @ host @ '':'' @ dec_nat p @ ''/''
              | None \<Rightarrow> scheme @ ''://'' @ host @ ''/'')"

definition reduce ::
  "(string \<Rightarrow> url option) \<Rightarrow> (string \<Rightarrow> string) \<Rightarrow> redactor \<Rightarrow> string \<Rightarrow> string" where
  "reduce parse lower rd val =
     (case parse val of
        None \<Rightarrow> []
      | Some u \<Rightarrow>
          let host = (case url_host u of Some h \<Rightarrow> h | None \<Rightarrow> [])
          in if host = [] then host_only u
             else case keep_for lower rd host of
                    KeepFull \<Rightarrow> val
                  | KeepHost \<Rightarrow> host_only u)"

definition redact_url ::
  "(string \<Rightarrow> url option) \<Rightarrow> (string \<Rightarrow> string) \<Rightarrow> redactor \<Rightarrow> json \<Rightarrow> json" where
  "redact_url parse lower rd slot =
     (case as_str slot of None \<Rightarrow> slot | Some s \<Rightarrow> JString (reduce parse lower rd s))"

definition drops_title :: "redactor \<Rightarrow> json option \<Rightarrow> bool" where
  "drops_title rd bundle =
     (case Option.bind bundle as_str of None \<Rightarrow> False | Some b \<Rightarrow> b \<in> rd_titleless rd)"

fun null_members :: "string list \<Rightarrow> obj \<Rightarrow> obj" where
  "null_members [] m = m"
| "null_members (k # ks) m = null_members ks (obj_modify k (\<lambda>_. JNull) m)"

fun redact_details ::
  "(string \<Rightarrow> url option) \<Rightarrow> (string \<Rightarrow> string) \<Rightarrow> redactor \<Rightarrow> bool \<Rightarrow> json \<Rightarrow> json" where
  "redact_details parse lower rd drops (JObject d) =
     (let d = obj_modify ''url'' (redact_url parse lower rd) d
      in JObject (if drops then null_members dropped_with_title d else d))"
| "redact_details parse lower rd drops v = v"

fun redact_entry :: "redactor \<Rightarrow> json \<Rightarrow> json" where
  "redact_entry rd (JObject e) =
     (if drops_title rd (obj_get e ''bundle_id'') then JObject (obj_insert ''title'' JNull e)
      else JObject e)"
| "redact_entry rd v = v"

fun redact_visible :: "redactor \<Rightarrow> json \<Rightarrow> json" where
  "redact_visible rd (JArray es) = JArray (map (redact_entry rd) es)"
| "redact_visible rd v = v"

fun redact_apply ::
  "(string \<Rightarrow> url option) \<Rightarrow> (string \<Rightarrow> string) \<Rightarrow> redactor \<Rightarrow> json \<Rightarrow> json" where
  "redact_apply parse lower rd (JObject p) =
     (let drops = drops_title rd (obj_get p ''bundle_id'');
          p = obj_modify ''url'' (redact_url parse lower rd) p;
          p = obj_modify ''details'' (redact_details parse lower rd drops) p;
          p = (if drops then obj_insert ''title'' JNull p else p)
      in JObject (obj_modify ''visible'' (redact_visible rd) p))"
| "redact_apply parse lower rd v = v"

subsection \<open>Which rule decides\<close>

text \<open>
  The policy a rule list states, read without building anything: the last rule for the host,
  else the last wildcard rule, else host only.
\<close>

fun last_match :: "(redact_rule \<Rightarrow> bool) \<Rightarrow> redact_rule list \<Rightarrow> keep option" where
  "last_match P [] = None"
| "last_match P (r # rs) =
     (case last_match P rs of
        Some k \<Rightarrow> Some k
      | None \<Rightarrow> if P r then Some (case rule_keep r of Some k \<Rightarrow> k | None \<Rightarrow> KeepHost) else None)"

definition names_host :: "(string \<Rightarrow> string) \<Rightarrow> string \<Rightarrow> redact_rule \<Rightarrow> bool" where
  "names_host lower host r =
     (case rule_url_host r of None \<Rightarrow> False | Some h \<Rightarrow> h \<noteq> wildcard_host \<and> lower h = lower host)"

definition names_any :: "redact_rule \<Rightarrow> bool" where
  "names_any r = (rule_url_host r = Some wildcard_host)"

definition policy :: "(string \<Rightarrow> string) \<Rightarrow> redact_rule list \<Rightarrow> string \<Rightarrow> keep" where
  "policy lower rules host =
     (case last_match (names_host lower host) rules of
        Some k \<Rightarrow> k
      | None \<Rightarrow> (case last_match names_any rules of Some k \<Rightarrow> k | None \<Rightarrow> KeepHost))"

definition drops_title_rule :: "string \<Rightarrow> redact_rule \<Rightarrow> bool" where
  "drops_title_rule b r = (rule_bundle_id r = Some b \<and> TitleField \<in> set (rule_drop r))"

lemma drop_fields_eq: "drop_fields b fs S = (if TitleField \<in> set fs then insert b S else S)"
  by (induction b fs S rule: drop_fields.induct) auto

lemma rd_hosts_fold:
  "rd_hosts (foldl (add_rule lower) rd rules) (lower h) =
     (case last_match (names_host lower h) rules of Some k \<Rightarrow> Some k | None \<Rightarrow> rd_hosts rd (lower h))"
  by (induction rules arbitrary: rd)
    (auto simp: add_rule_def names_host_def Let_def split: option.splits)

lemma rd_fallback_fold:
  "rd_fallback (foldl (add_rule lower) rd rules) =
     (case last_match names_any rules of Some k \<Rightarrow> k | None \<Rightarrow> rd_fallback rd)"
  by (induction rules arbitrary: rd)
    (auto simp: add_rule_def names_any_def Let_def split: option.splits)

lemma rd_titleless_fold:
  "b \<in> rd_titleless (foldl (add_rule lower) rd rules) \<longleftrightarrow>
     b \<in> rd_titleless rd \<or> (\<exists>r\<in>set rules. drops_title_rule b r)"
  by (induction rules arbitrary: rd)
    (auto simp: add_rule_def drops_title_rule_def drop_fields_eq Let_def split: option.splits if_splits)

text \<open>
  C2. The redactor built from a rule list decides as the list reads: a host is kept as the last
  rule naming it (in either case) says, else as the last wildcard rule says, else host-only, which
  no rule list can delete; and a bundle loses its titles exactly when some rule for it drops them.
\<close>

theorem redactor_new_policy:
  "keep_for lower (redactor_new lower rules) host = policy lower rules host \<and>
   (b \<in> rd_titleless (redactor_new lower rules) \<longleftrightarrow> (\<exists>r \<in> set rules. drops_title_rule b r))"
  by (simp add: keep_for_def redactor_new_def policy_def rd_hosts_fold rd_fallback_fold
      rd_titleless_fold split: option.splits)

subsection \<open>What redaction hides\<close>

text \<open>
  Two URL texts are alike for a redactor when neither parses, or both parse with the same scheme,
  host, port and opaqueness and the host is not one a rule keeps in full. They may differ in user,
  password, path, query and fragment.
\<close>

definition alike ::
  "(string \<Rightarrow> url option) \<Rightarrow> (string \<Rightarrow> string) \<Rightarrow> redactor \<Rightarrow> string \<Rightarrow> string \<Rightarrow> bool" where
  "alike parse lower rd s s' =
     (case (parse s, parse s') of
        (None, None) \<Rightarrow> True
      | (Some u, Some u') \<Rightarrow>
          url_scheme u = url_scheme u' \<and> url_host u = url_host u' \<and> url_port u = url_port u' \<and>
          url_opaque u = url_opaque u' \<and>
          (case url_host u of None \<Rightarrow> True | Some h \<Rightarrow> h = [] \<or> keep_for lower rd h = KeepHost)
      | _ \<Rightarrow> False)"

lemma reduce_alike: "alike parse lower rd s s' \<Longrightarrow> reduce parse lower rd s = reduce parse lower rd s'"
  by (auto simp: alike_def reduce_def host_only_def Let_def split: option.splits if_splits)

lemma drops_title_irrelevant:
  "k \<noteq> ''bundle_id'' \<Longrightarrow>
     drops_title rd (obj_get (obj_insert k v p) ''bundle_id'') = drops_title rd (obj_get p ''bundle_id'')"
  by simp

lemma obj_modify_insert_same:
  "obj_modify k f (obj_insert k v m) = obj_insert k (f v) m"
  by (induction k v m rule: obj_insert.induct) auto

lemma obj_modify_insert_other:
  "j \<noteq> k \<Longrightarrow> obj_modify j f (obj_insert k v m) = obj_insert k v (obj_modify j f m)"
  by (induction k v m rule: obj_insert.induct) auto

definition page_payload :: "obj \<Rightarrow> obj \<Rightarrow> string \<Rightarrow> string \<Rightarrow> json" where
  "page_payload p d s t =
     JObject (obj_insert ''url'' (JString s)
       (obj_insert ''details'' (JObject (obj_insert ''url'' (JString t) d)) p))"

text \<open>
  C3. Redaction is non-interfering in the part of a URL it does not keep: two payloads that differ
  only in their URL, and in the URL of their details, redact to the same payload whenever the URLs
  share scheme, host and port and no rule keeps that host in full. Nothing of a path, a query, a
  fragment or of credentials therefore reaches the buffer.
\<close>

theorem redact_hides_urls:
  assumes "alike parse lower rd s s'" and "alike parse lower rd t t'"
  shows "redact_apply parse lower rd (page_payload p d s t) =
         redact_apply parse lower rd (page_payload p d s' t')"
  using assms [THEN reduce_alike]
  by (simp add: page_payload_def Let_def obj_modify_insert_same obj_modify_insert_other redact_url_def)

definition sample_parse :: "string \<Rightarrow> url option" where
  "sample_parse s =
     (if s = ''https://a/x'' \<or> s = ''https://a/y?q'' \<or> s = ''https://a/''
      then Some \<lparr>url_scheme = ''https'', url_username = [], url_password = None,
                 url_host = Some ''a'', url_port = None, url_query = None, url_fragment = None,
                 url_opaque = False\<rparr>
      else None)"

theorem redact_hides_urls_witness:
  "redact_apply sample_parse id (redactor_new id [])
     (page_payload [] [] ''https://a/x'' ''https://a/y?q'') =
   redact_apply sample_parse id (redactor_new id [])
     (page_payload [] [] ''https://a/y?q'' ''https://a/x'')"
  by (rule redact_hides_urls; simp add: alike_def sample_parse_def redactor_new_def keep_for_def)

lemma map_of_null_members:
  "map_of (null_members ks m) k =
     (if k \<in> set ks then map_option (\<lambda>_. JNull) (map_of m k) else map_of m k)"
  by (induction ks m rule: null_members.induct) (auto simp: option.map_comp comp_def)

definition titles_hidden :: "redactor \<Rightarrow> obj \<Rightarrow> bool" where
  "titles_hidden rd p =
     (obj_get p ''title'' = Some JNull \<and>
      (\<forall>d. obj_get p ''details'' = Some (JObject d) \<longrightarrow>
        (\<forall>k \<in> set dropped_with_title. obj_get d k \<in> {None, Some JNull})))"

definition entries_hidden :: "redactor \<Rightarrow> obj \<Rightarrow> bool" where
  "entries_hidden rd p =
     (\<forall>es e. obj_get p ''visible'' = Some (JArray es) \<longrightarrow> JObject e \<in> set es \<longrightarrow>
        drops_title rd (obj_get e ''bundle_id'') \<longrightarrow> obj_get e ''title'' = Some JNull)"

lemma redact_entry_hidden:
  assumes "redact_entry rd v = JObject e" "drops_title rd (obj_get e ''bundle_id'')"
  shows "obj_get e ''title'' = Some JNull"
  using assms by (cases v) (auto split: if_splits)

lemma redact_visible_hidden:
  assumes "redact_visible rd v = JArray es" "JObject e \<in> set es"
    and "drops_title rd (obj_get e ''bundle_id'')"
  shows "obj_get e ''title'' = Some JNull"
proof (cases v)
  case (JArray vs)
  with assms(1,2) obtain w where "redact_entry rd w = JObject e"
    by (metis (mono_tags, lifting) imageE json.inject(5) list.set_map redact_visible.simps(1))
  then show ?thesis using assms(3) by (rule redact_entry_hidden)
qed (use assms in auto)

lemma redact_apply_object:
  obtains q where "redact_apply parse lower rd (JObject p) = JObject q"
    and "obj_get q ''bundle_id'' = obj_get p ''bundle_id''"
    and "obj_get q ''visible'' = map_option (redact_visible rd) (obj_get p ''visible'')"
    and "obj_get q ''details'' =
           map_option (redact_details parse lower rd (drops_title rd (obj_get p ''bundle_id'')))
             (obj_get p ''details'')"
    and "obj_get q ''url'' = map_option (redact_url parse lower rd) (obj_get p ''url'')"
    and "obj_get q ''title'' =
           (if drops_title rd (obj_get p ''bundle_id'') then Some JNull else obj_get p ''title'')"
    and "\<And>k. k \<notin> {''url'', ''details'', ''title'', ''visible''} \<Longrightarrow> obj_get q k = obj_get p k"
proof -
  let ?q = "the (as_object (redact_apply parse lower rd (JObject p)))"
  show thesis
    by (rule that [of ?q]) (simp_all add: Let_def)
qed

text \<open>
  C4. Dropping a bundle's title leaves no copy of it: the top-level title, the browser tab title
  and the command line in \<open>details\<close>, and the title of every \<open>visible\<close> entry of such a bundle
  are null after redaction, whichever application is focused.
\<close>

theorem redact_drops_titles:
  "\<exists>q. redact_apply parse lower rd (JObject p) = JObject q \<and> entries_hidden rd q \<and>
       (drops_title rd (obj_get q ''bundle_id'') \<longrightarrow> titles_hidden rd q)"
proof -
  obtain q where q: "redact_apply parse lower rd (JObject p) = JObject q"
      "obj_get q ''bundle_id'' = obj_get p ''bundle_id''"
      "obj_get q ''visible'' = map_option (redact_visible rd) (obj_get p ''visible'')"
      "obj_get q ''details'' =
           map_option (redact_details parse lower rd (drops_title rd (obj_get p ''bundle_id'')))
             (obj_get p ''details'')"
      "obj_get q ''title'' =
           (if drops_title rd (obj_get p ''bundle_id'') then Some JNull else obj_get p ''title'')"
    by (rule redact_apply_object [of parse lower rd p])
  have "entries_hidden rd q"
    using q(3) by (auto simp: entries_hidden_def intro: redact_visible_hidden)
  moreover have "titles_hidden rd q" if "drops_title rd (obj_get q ''bundle_id'')"
  proof -
    have "obj_get d k \<in> {None, Some JNull}"
      if d: "redact_details parse lower rd True v = JObject d" and k: "k \<in> set dropped_with_title" for v d k
      using d k by (cases v) (auto simp: Let_def map_of_null_members)
    then show ?thesis using that q by (auto simp: titles_hidden_def)
  qed
  ultimately show ?thesis using q(1) by blast
qed

theorem redact_drops_titles_witness:
  "\<exists>q. redact_apply sample_parse id
         (redactor_new id [\<lparr>rule_url_host = None, rule_keep = None,
            rule_bundle_id = Some ''b'', rule_drop = [TitleField]\<rparr>])
         (JObject [(''bundle_id'', JString ''b''), (''title'', JString ''t''),
                   (''details'', JObject [(''tab'', JString ''t'')])]) = JObject q \<and>
       obj_get q ''title'' = Some JNull"
proof -
  let ?rd = "redactor_new id [\<lparr>rule_url_host = None, rule_keep = None,
            rule_bundle_id = Some ''b'', rule_drop = [TitleField]\<rparr>]"
  let ?p = "[(''bundle_id'', JString ''b''), (''title'', JString ''t''),
                   (''details'', JObject [(''tab'', JString ''t'')])]"
  obtain q where q: "redact_apply sample_parse id ?rd (JObject ?p) = JObject q"
      "drops_title ?rd (obj_get q ''bundle_id'') \<longrightarrow> titles_hidden ?rd q"
    using redact_drops_titles [of sample_parse id ?rd ?p] by blast
  have "obj_get q ''bundle_id'' = Some (JString ''b'')"
    using q(1) by (auto simp: Let_def)
  then have "drops_title ?rd (obj_get q ''bundle_id'')"
    by (simp add: drops_title_def redactor_new_def add_rule_def Let_def)
  with q show ?thesis by (auto simp: titles_hidden_def)
qed

text \<open>
  Redaction touches nothing else: every member other than the URL, the details, the title and
  the visible list is what it was, and a document path in particular survives whole.
\<close>

theorem redact_keeps_rest:
  "\<exists>q. redact_apply parse lower rd (JObject p) = JObject q \<and>
       obj_get q ''path'' = obj_get p ''path'' \<and>
       (\<forall>k. k \<notin> {''url'', ''details'', ''title'', ''visible''} \<longrightarrow> obj_get q k = obj_get p k) \<and>
       (\<not> drops_title rd (obj_get p ''bundle_id'') \<longrightarrow> obj_get q ''title'' = obj_get p ''title'')"
  by (rule redact_apply_object [of parse lower rd p]) auto

theorem redact_keeps_rest_witness:
  "\<exists>q. redact_apply sample_parse id (redactor_new id [])
         (JObject [(''path'', JString ''file:///x''), (''url'', JString ''https://a/x'')]) = JObject q \<and>
       obj_get q ''path'' = Some (JString ''file:///x'')"
  using redact_keeps_rest [of sample_parse id "redactor_new id []"
      "[(''path'', JString ''file:///x''), (''url'', JString ''https://a/x'')]"]
  by auto

end
