(* ===== verification/Buffer.thy ===== *)
theory Buffer
  imports Store Redact
begin

text \<open>
  The durable buffer, \<open>src/src/runtime/buffer.rs\<close>: opening the database, the owner thread's
  command loop and its operations. What a command needs of the outside is in \<open>buffer_env\<close>: the
  configuration the owner thread captured (device, caps, redactor) and, as parameters, the library
  functions it calls (URL parsing, case folding, the hash, calendar formatting, JSON printing). The
  clock readings are arguments, in the order the code takes them.
\<close>

subsection \<open>Configuration of the owner thread\<close>

record caps =
  max_rows :: nat
  max_bytes :: nat

record buffer_env =
  be_device :: string
  be_caps :: caps
  be_redactor :: redactor
  be_parse :: "string \<Rightarrow> url option"      \<comment> \<open>\<open>Url::parse\<close>\<close>
  be_lower :: "string \<Rightarrow> string"          \<comment> \<open>\<open>str::to_lowercase\<close>\<close>
  be_sha :: "string \<Rightarrow> string"            \<comment> \<open>\<open>Sha256::digest\<close>\<close>
  be_utc :: "int \<Rightarrow> string option"        \<comment> \<open>\<open>chrono\<close> formatting\<close>
  be_render :: "envelope \<Rightarrow> string option" \<comment> \<open>\<open>serde_json::to_string\<close>\<close>

definition dead_letter_max_rows :: nat where
  "dead_letter_max_rows = 5000"

definition dead_letter_max_bytes :: nat where
  "dead_letter_max_bytes = 50 * 1024 * 1024"

definition overflow_headroom_bytes :: nat where
  "overflow_headroom_bytes = 512"

definition seq_key :: string where
  "seq_key = ''seq''"

subsection \<open>The sequence counter\<close>

definition parse_seq :: "string option \<Rightarrow> (buffer_error, nat) res" where
  "parse_seq stored =
     (case stored of
        None \<Rightarrow> Inr 0
      | Some v \<Rightarrow> (case parse_unsigned 64 v of None \<Rightarrow> Inl (Counter seq_key v) | Some n \<Rightarrow> Inr n))"

definition read_seq :: "nat stmt" where
  "read_seq =
     bind (query (\<lambda>t. t_meta t seq_key))
       (\<lambda>stored. case parse_seq stored of Inl e \<Rightarrow> raise e | Inr n \<Rightarrow> return n)"

definition write_seq :: "nat \<Rightarrow> unit stmt" where
  "write_seq n = update (\<lambda>t. t\<lparr>t_meta := (t_meta t)(seq_key \<mapsto> dec_nat n)\<rparr>)"

subsection \<open>Eviction\<close>

record evicted =
  ev_dropped :: nat
  ev_from :: string
  ev_to :: string

definition sum_bytes :: "pending_row list \<Rightarrow> nat" where
  "sum_bytes rows = sum_list (map row_bytes rows)"

definition sum_dead_bytes :: "dead_row list \<Rightarrow> nat" where
  "sum_dead_bytes rows = sum_list (map dead_bytes rows)"

definition totals_pending :: "(nat \<times> nat) stmt" where
  "totals_pending = query (\<lambda>t. (length (t_pending t), sum_bytes (t_pending t)))"

definition totals_dead :: "(nat \<times> nat) stmt" where
  "totals_dead = query (\<lambda>t. (length (t_dead_letter t), sum_dead_bytes (t_dead_letter t)))"

text \<open>One more candidate goes: the cutoff moves to it and the span of what was dropped extends.\<close>

definition drop_candidate :: "int \<Rightarrow> string \<Rightarrow> (int \<times> evicted) option \<Rightarrow> (int \<times> evicted) option" where
  "drop_candidate i at acc =
     (case acc of
        None \<Rightarrow> Some (i, \<lparr>ev_dropped = 1, ev_from = at, ev_to = at\<rparr>)
      | Some (_, e) \<Rightarrow> Some (i, e\<lparr>ev_dropped := ev_dropped e + 1, ev_to := at\<rparr>))"

fun plan_loop ::
  "nat \<Rightarrow> nat \<Rightarrow> nat \<Rightarrow> nat \<Rightarrow> (int \<times> nat \<times> string) list \<Rightarrow>
     (int \<times> evicted) option \<Rightarrow> (int \<times> evicted) option" where
  "plan_loop row_target byte_target rows bytes [] acc = acc"
| "plan_loop row_target byte_target rows bytes ((i, sz, at) # cands) acc =
     (if rows \<le> row_target \<and> bytes \<le> byte_target then acc
      else plan_loop row_target byte_target (rows - 1) (bytes - sz) cands (drop_candidate i at acc))"

definition plan_eviction ::
  "(tables \<Rightarrow> (int \<times> nat \<times> string) list) \<Rightarrow> nat \<Rightarrow> nat \<Rightarrow> nat \<Rightarrow> nat \<Rightarrow>
     (int \<times> evicted) option stmt" where
  "plan_eviction sel rows bytes row_target byte_target =
     bind (query sel) (\<lambda>cands. return (plan_loop row_target byte_target rows bytes cands None))"

definition pending_candidates :: "tables \<Rightarrow> (int \<times> nat \<times> string) list" where
  "pending_candidates t =
     map (\<lambda>r. (row_id r, row_bytes r, row_created_at r)) (ordered (t_pending t))"

definition dead_candidates :: "tables \<Rightarrow> (int \<times> nat \<times> string) list" where
  "dead_candidates t =
     map (\<lambda>r. (dead_id r, dead_bytes r, dead_at r)) (ordered_dead (t_dead_letter t))"

definition evict_pending :: "caps \<Rightarrow> evicted option stmt" where
  "evict_pending c =
     bind totals_pending (\<lambda>(rows, bytes).
       if rows \<le> max_rows c \<and> bytes \<le> max_bytes c then return None
       else bind (plan_eviction pending_candidates rows bytes (max_rows c - 1)
                    (max_bytes c - overflow_headroom_bytes))
         (\<lambda>plan. case plan of
            None \<Rightarrow> return None
          | Some (cutoff, e) \<Rightarrow>
              bind (update (\<lambda>t. t\<lparr>t_pending := filter (\<lambda>r. \<not> row_id r \<le> cutoff) (t_pending t)\<rparr>))
                (\<lambda>_. return (Some e))))"

definition evict_dead_letter :: "unit stmt" where
  "evict_dead_letter =
     bind totals_dead (\<lambda>(rows, bytes).
       if rows \<le> dead_letter_max_rows \<and> bytes \<le> dead_letter_max_bytes then return ()
       else bind (plan_eviction dead_candidates rows bytes dead_letter_max_rows dead_letter_max_bytes)
         (\<lambda>plan. case plan of
            None \<Rightarrow> return ()
          | Some (cutoff, e) \<Rightarrow>
              update (\<lambda>t. t\<lparr>t_dead_letter := filter (\<lambda>r. \<not> dead_id r \<le> cutoff) (t_dead_letter t)\<rparr>)))"

definition overflow_draft :: "timestamp \<Rightarrow> evicted \<Rightarrow> record_draft" where
  "overflow_draft now e =
     \<lparr>dr_provider = Windows, dr_kind = BufferOverflow, dr_ts = now, dr_degraded = False,
      dr_payload = JObject [(''details'', JObject
        [(''dropped'', JInt (int (ev_dropped e))),
         (''dropped_from'', JString (ev_from e)),
         (''dropped_to'', JString (ev_to e))])],
      dr_key = WindowsKey\<rparr>"

subsection \<open>Enqueue\<close>

definition insert_pending :: "buffer_env \<Rightarrow> envelope \<Rightarrow> string \<Rightarrow> unit stmt" where
  "insert_pending env en created_at =
     (case be_render env en of
        None \<Rightarrow> raise SerialiseFailed
      | Some txt \<Rightarrow>
          update (\<lambda>t. t\<lparr>t_pending := insert_row txt (length txt) created_at (t_pending t)\<rparr>))"

definition redact_draft :: "buffer_env \<Rightarrow> record_draft \<Rightarrow> record_draft" where
  "redact_draft env d =
     d\<lparr>dr_payload := redact_apply (be_parse env) (be_lower env) (be_redactor env) (dr_payload d)\<rparr>"

fun seal_drafts ::
  "buffer_env \<Rightarrow> string \<Rightarrow> string \<Rightarrow> record_draft list \<Rightarrow> nat \<Rightarrow> (nat \<times> envelope list) stmt" where
  "seal_drafts env device created_at [] seq = return (seq, [])"
| "seal_drafts env device created_at (d # ds) seq =
     (let seq = succ64 seq; en = into_envelope (be_sha env) (redact_draft env d) device seq
      in bind (insert_pending env en created_at) (\<lambda>_.
         bind (seal_drafts env device created_at ds seq) (\<lambda>(seq, ens). return (seq, en # ens))))"

definition store_cursor :: "cursor option \<Rightarrow> unit stmt" where
  "store_cursor c =
     (case c of
        None \<Rightarrow> return ()
      | Some c \<Rightarrow> update (\<lambda>t. t\<lparr>t_cursors :=
          (t_cursors t)((provider_as_str (cur_provider c), cur_key c) \<mapsto> cur_value c)\<rparr>))"

definition enqueue_body ::
  "buffer_env \<Rightarrow> timestamp \<Rightarrow> timestamp \<Rightarrow> record_draft list \<Rightarrow> cursor option \<Rightarrow>
     string option \<Rightarrow> envelope list stmt" where
  "enqueue_body env now later drafts cur record_device =
     (let device = (case record_device of Some d \<Rightarrow> d | None \<Rightarrow> be_device env);
          created_at = to_rfc3339 (be_utc env) now
      in bind read_seq (\<lambda>seq.
         bind (seal_drafts env device created_at drafts seq) (\<lambda>(seq, sealed).
         bind (store_cursor cur) (\<lambda>_.
         bind (evict_pending (be_caps env)) (\<lambda>evicted.
           case evicted of
             None \<Rightarrow> bind (write_seq seq) (\<lambda>_. return sealed)
           | Some e \<Rightarrow>
               let seq = succ64 seq;
                   en = into_envelope (be_sha env) (overflow_draft later e) (be_device env) seq
               in bind (insert_pending env en created_at) (\<lambda>_.
                  bind (write_seq seq) (\<lambda>_. return (sealed @ [en]))))))))"

definition enqueue ::
  "buffer_env \<Rightarrow> timestamp \<Rightarrow> timestamp \<Rightarrow> record_draft list \<Rightarrow> cursor option \<Rightarrow>
     string option \<Rightarrow> envelope list stmt" where
  "enqueue env now later drafts cur record_device =
     transaction (enqueue_body env now later drafts cur record_device)"

subsection \<open>The other operations\<close>

record pending_record =
  pending_id :: int
  pending_envelope :: string
  pending_bytes :: nat

definition pending_of :: "pending_row \<Rightarrow> pending_record" where
  "pending_of r =
     \<lparr>pending_id = row_id r, pending_envelope = row_envelope r, pending_bytes = row_bytes r\<rparr>"

definition take_batch :: "nat \<Rightarrow> pending_record list stmt" where
  "take_batch limit = query (\<lambda>t. map pending_of (take limit (ordered (t_pending t))))"

definition delete_pending :: "int \<Rightarrow> unit stmt" where
  "delete_pending i = update (\<lambda>t. t\<lparr>t_pending := filter (\<lambda>r. row_id r \<noteq> i) (t_pending t)\<rparr>)"

fun delete_each :: "int list \<Rightarrow> unit stmt" where
  "delete_each [] = return ()"
| "delete_each (i # is) = bind (delete_pending i) (\<lambda>_. delete_each is)"

definition delete_batch :: "int list \<Rightarrow> unit stmt" where
  "delete_batch ids = (if ids = [] then return () else transaction (delete_each ids))"

fun bury_each :: "string \<Rightarrow> string \<Rightarrow> pending_record list \<Rightarrow> unit stmt" where
  "bury_each reason at [] = return ()"
| "bury_each reason at (p # ps) =
     bind (update (\<lambda>t. t\<lparr>t_dead_letter :=
             insert_dead (pending_envelope p) (pending_bytes p) reason at (t_dead_letter t)\<rparr>))
       (\<lambda>_. bind (delete_pending (pending_id p)) (\<lambda>_. bury_each reason at ps))"

definition dead_letter ::
  "buffer_env \<Rightarrow> timestamp \<Rightarrow> pending_record list \<Rightarrow> string \<Rightarrow> unit stmt" where
  "dead_letter env now records reason =
     (if records = [] then return ()
      else transaction (bind (bury_each reason (to_rfc3339 (be_utc env) now) records)
             (\<lambda>_. evict_dead_letter)))"

definition read_cursor :: "provider \<Rightarrow> string \<Rightarrow> string option stmt" where
  "read_cursor p k = query (\<lambda>t. t_cursors t (provider_as_str p, k))"

definition checkpoint :: "unit stmt" where
  "checkpoint = query (\<lambda>t. ())"

subsection \<open>Opening, and the owner thread\<close>

text \<open>
  \<open>Connection::open\<close> is the first scheduled step; setting the busy timeout, switching to the
  write-ahead log and creating the missing tables are the statements after it.
\<close>

definition open_connection :: "string \<Rightarrow> unit stmt" where
  "open_connection path s =
     (case exec (\<lambda>t. ((), t)) s of
        (Inl _, s) \<Rightarrow> (Inl (OpenFailed path), s)
      | (Inr _, s) \<Rightarrow> bind checkpoint (\<lambda>_. bind checkpoint (\<lambda>_. checkpoint)) s)"

datatype command =
    Enqueue "record_draft list" "cursor option" "string option"
  | TakeBatch nat
  | DeleteBatch "int list"
  | DeadLetter "pending_record list" string
  | ReadCursor provider string
  | FlushNow
  | Close

datatype reply =
    REnvelopes "envelope list"
  | RBatch "pending_record list"
  | RCursor "string option"
  | RUnit

definition reply_with :: "('a \<Rightarrow> reply) \<Rightarrow> 'a stmt \<Rightarrow> reply stmt" where
  "reply_with f m = bind m (\<lambda>a. return (f a))"

fun serve_command :: "buffer_env \<Rightarrow> timestamp \<Rightarrow> timestamp \<Rightarrow> command \<Rightarrow> reply stmt" where
  "serve_command env now later (Enqueue drafts cur device) =
     reply_with REnvelopes (enqueue env now later drafts cur device)"
| "serve_command env now later (TakeBatch limit) = reply_with RBatch (take_batch limit)"
| "serve_command env now later (DeleteBatch ids) = reply_with (\<lambda>_. RUnit) (delete_batch ids)"
| "serve_command env now later (DeadLetter records reason) =
     reply_with (\<lambda>_. RUnit) (dead_letter env now records reason)"
| "serve_command env now later (ReadCursor p k) = reply_with RCursor (read_cursor p k)"
| "serve_command env now later FlushNow = reply_with (\<lambda>_. RUnit) checkpoint"
| "serve_command env now later Close = reply_with (\<lambda>_. RUnit) checkpoint"

text \<open>
  The owner thread answers the commands in the order they were sent and returns after \<open>Close\<close>; a
  handle that calls it afterwards gets \<open>Closed\<close>.
\<close>

fun serve ::
  "buffer_env \<Rightarrow> (timestamp \<times> timestamp \<times> command) list \<Rightarrow> db \<Rightarrow>
     (buffer_error, reply) res list \<times> db" where
  "serve env [] s = ([], s)"
| "serve env ((now, later, c) # cs) s =
     (let (r, s') = serve_command env now later c s
      in if c = Close then (r # map (\<lambda>_. Inl Closed) cs, s')
         else (let (rs, s'') = serve env cs s' in (r # rs, s'')))"

end
