(* ===== verification/Buffer_Facts.thy ===== *)
theory Buffer_Facts
  imports Buffer
begin

text \<open>
  What the operations of \<open>Buffer\<close> do to the tables. \<open>enqueue_spec\<close> says in one step what a
  committed enqueue leaves behind; \<open>enqueue_refines\<close> shows that the statement sequence of the code
  either reaches exactly that or changes nothing. The eviction loop is characterised by the number
  of oldest rows it drops (\<open>evict_count\<close>), which is the least that meets both targets.
\<close>

subsection \<open>The eviction plan\<close>

fun evict_count :: "nat \<Rightarrow> nat \<Rightarrow> nat \<Rightarrow> nat \<Rightarrow> nat list \<Rightarrow> nat" where
  "evict_count row_target byte_target rows bytes [] = 0"
| "evict_count row_target byte_target rows bytes (sz # szs) =
     (if rows \<le> row_target \<and> bytes \<le> byte_target then 0
      else Suc (evict_count row_target byte_target (rows - 1) (bytes - sz) szs))"

definition candidate_size :: "int \<times> nat \<times> string \<Rightarrow> nat" where
  "candidate_size c = fst (snd c)"

lemma evict_count_le: "evict_count rt bt rows bytes szs \<le> length szs"
  by (induction rt bt rows bytes szs rule: evict_count.induct) auto

lemma plan_loop_fold:
  "plan_loop rt bt rows bytes cands acc =
     fold (\<lambda>(i, sz, at). drop_candidate i at)
       (take (evict_count rt bt rows bytes (map candidate_size cands)) cands) acc"
  by (induction rt bt rows bytes cands acc rule: plan_loop.induct)
    (auto simp: candidate_size_def)

lemma fold_drop_candidate_Some:
  "fold (\<lambda>(i, sz, at). drop_candidate i at) cands (Some (j, e)) =
     Some (if cands = [] then (j, e)
           else (fst (last cands),
                 e\<lparr>ev_dropped := ev_dropped e + length cands, ev_to := snd (snd (last cands))\<rparr>))"
  by (induction cands arbitrary: j e) (auto simp: drop_candidate_def)

lemma fold_drop_candidate_None:
  "fold (\<lambda>(i, sz, at). drop_candidate i at) cands None =
     (if cands = [] then None
      else Some (fst (last cands),
             \<lparr>ev_dropped = length cands, ev_from = snd (snd (hd cands)),
              ev_to = snd (snd (last cands))\<rparr>))"
  by (cases cands) (auto simp: drop_candidate_def fold_drop_candidate_Some)

lemma plan_loop_None:
  assumes "n = evict_count rt bt rows bytes (map candidate_size cands)"
  shows "plan_loop rt bt rows bytes cands None =
     (if n = 0 then None
      else Some (fst (cands ! (n - 1)),
             \<lparr>ev_dropped = n, ev_from = snd (snd (cands ! 0)), ev_to = snd (snd (cands ! (n - 1)))\<rparr>))"
proof (cases "n = 0")
  case False
  have n: "n \<le> length cands"
    using assms evict_count_le [of rt bt rows bytes "map candidate_size cands"] by simp
  with False have ne: "cands \<noteq> []" by auto
  with False n have "last (take n cands) = cands ! (n - 1)" "hd (take n cands) = cands ! 0"
    by (simp_all add: last_conv_nth hd_conv_nth min_absorb2)
  with False n assms show ?thesis
    by (auto simp: plan_loop_fold fold_drop_candidate_None)
qed (use assms in \<open>simp add: plan_loop_fold\<close>)

lemma evict_count_meets:
  assumes "length szs = rows" "sum_list szs = bytes"
    and "n = evict_count rt bt rows bytes szs"
  shows "rows - n \<le> rt \<and> sum_list (drop n szs) \<le> bt"
  using assms
  by (induction rt bt rows bytes szs arbitrary: n rule: evict_count.induct) (auto split: if_splits)

lemma evict_count_least:
  assumes "length szs = rows" "sum_list szs = bytes"
    and "m < evict_count rt bt rows bytes szs"
  shows "\<not> (rows - m \<le> rt \<and> sum_list (drop m szs) \<le> bt)"
  using assms
proof (induction rt bt rows bytes szs arbitrary: m rule: evict_count.induct)
  case (2 rt bt rows bytes sz szs)
  show ?case
  proof (cases m)
    case 0
    with 2 show ?thesis by (auto split: if_splits)
  next
    case (Suc k)
    with "2.prems"(3) have "\<not> (rows \<le> rt \<and> bytes \<le> bt)"
      and k: "k < evict_count rt bt (rows - 1) (bytes - sz) szs"
      by (auto split: if_splits)
    from this(1) have "\<not> (rows - 1 - k \<le> rt \<and> sum_list (drop k szs) \<le> bt)"
      by (rule "2.IH") (use 2 k in auto)
    with Suc show ?thesis by simp
  qed
qed simp

text \<open>How many of the oldest rows a commit drops under the given caps.\<close>

definition evictions :: "caps \<Rightarrow> pending_row list \<Rightarrow> nat" where
  "evictions c rows =
     (if length rows \<le> max_rows c \<and> sum_bytes rows \<le> max_bytes c then 0
      else evict_count (max_rows c - 1) (max_bytes c - overflow_headroom_bytes)
             (length rows) (sum_bytes rows) (map row_bytes rows))"

lemma evictions_le: "evictions c rows \<le> length rows"
  using evict_count_le [of _ _ _ _ "map row_bytes rows"] by (auto simp: evictions_def)

lemma evictions_0_iff:
  "evictions c rows = 0 \<longleftrightarrow> length rows \<le> max_rows c \<and> sum_bytes rows \<le> max_bytes c"
proof (cases rows)
  case (Cons r rs)
  then show ?thesis by (auto simp: evictions_def sum_bytes_def)
qed (simp add: evictions_def sum_bytes_def)

lemma evictions_meets:
  assumes "evictions c rows \<noteq> 0"
  shows "length (drop (evictions c rows) rows) \<le> max_rows c - 1"
    and "sum_bytes (drop (evictions c rows) rows) \<le> max_bytes c - overflow_headroom_bytes"
proof -
  have e: "evictions c rows = evict_count (max_rows c - 1) (max_bytes c - overflow_headroom_bytes)
      (length rows) (sum_bytes rows) (map row_bytes rows)"
    using assms by (auto simp: evictions_def split: if_splits)
  show "length (drop (evictions c rows) rows) \<le> max_rows c - 1"
    and "sum_bytes (drop (evictions c rows) rows) \<le> max_bytes c - overflow_headroom_bytes"
    using evict_count_meets [OF _ _ e] by (simp_all add: sum_bytes_def drop_map)
qed

lemma evictions_least:
  assumes "m < evictions c rows"
  shows "\<not> (length rows - m \<le> max_rows c - 1 \<and>
            sum_bytes (drop m rows) \<le> max_bytes c - overflow_headroom_bytes)"
proof -
  have e: "evictions c rows = evict_count (max_rows c - 1) (max_bytes c - overflow_headroom_bytes)
      (length rows) (sum_bytes rows) (map row_bytes rows)"
    using assms by (auto simp: evictions_def split: if_splits)
  show ?thesis
    using evict_count_least [of "map row_bytes rows" "length rows" "sum_bytes rows" m] assms
    by (simp add: e sum_bytes_def drop_map)
qed

lemma evict_pending_calm:
  assumes "ids_ok (map row_id (t_pending t))"
  shows "evict_pending c (calm t) =
     (let rows = t_pending t; n = evictions c rows
      in if n = 0 then (Inr None, calm t)
         else (Inr (Some \<lparr>ev_dropped = n, ev_from = row_created_at (rows ! 0),
                          ev_to = row_created_at (rows ! (n - 1))\<rparr>),
               calm (t\<lparr>t_pending := drop n rows\<rparr>)))"
proof (cases "evictions c (t_pending t) = 0")
  case True
  then show ?thesis
    by (simp add: evict_pending_def totals_pending_def calm_simps evictions_0_iff Let_def)
next
  case False
  define rows where "rows = t_pending t"
  define n where "n = evictions c rows"
  have n0: "n \<noteq> 0" and n: "n \<le> length rows"
    using False by (simp_all add: n_def rows_def evictions_le)
  have over: "\<not> (length rows \<le> max_rows c \<and> sum_bytes rows \<le> max_bytes c)"
    using False evictions_0_iff by (auto simp: rows_def)
  let ?cands = "map (\<lambda>r. (row_id r, row_bytes r, row_created_at r)) rows"
  have cands: "pending_candidates t = ?cands"
    using assms by (simp add: pending_candidates_def ordered_id rows_def)
  have "n = evict_count (max_rows c - 1) (max_bytes c - overflow_headroom_bytes)
      (length rows) (sum_bytes rows) (map candidate_size ?cands)"
    using over by (auto simp: n_def evictions_def candidate_size_def comp_def)
  note plan = plan_loop_None [OF this]
  have keep: "filter (\<lambda>r. \<not> row_id r \<le> row_id (rows ! (n - 1))) rows = drop n rows"
    using filter_sorted_le_drop [of row_id rows "n - 1"] assms n0 n
    by (simp add: ids_ok_def rows_def)
  have nth: "?cands ! (n - 1) = (row_id (rows ! (n - 1)), row_bytes (rows ! (n - 1)), row_created_at (rows ! (n - 1)))"
      "?cands ! 0 = (row_id (rows ! 0), row_bytes (rows ! 0), row_created_at (rows ! 0))"
    using n0 n by (auto intro: nth_map)
  show ?thesis
    using over n0 keep plan nth
    by (simp add: evict_pending_def totals_pending_def plan_eviction_def calm_simps cands
        bind_Inr Let_def flip: rows_def n_def)
qed


subsection \<open>Sealing\<close>

text \<open>The envelopes a list of drafts becomes, and the counter after them.\<close>

fun sealed :: "buffer_env \<Rightarrow> string \<Rightarrow> nat \<Rightarrow> record_draft list \<Rightarrow> envelope list" where
  "sealed env device seq [] = []"
| "sealed env device seq (d # ds) =
     into_envelope (be_sha env) (redact_draft env d) device (succ64 seq) #
     sealed env device (succ64 seq) ds"

definition seq_after :: "nat \<Rightarrow> nat \<Rightarrow> nat" where
  "seq_after n seq = (succ64 ^^ n) seq"

text \<open>The rows a list of envelopes adds to the table.\<close>

fun append_sealed ::
  "buffer_env \<Rightarrow> string \<Rightarrow> envelope list \<Rightarrow> pending_row list \<Rightarrow> pending_row list" where
  "append_sealed env at [] rows = rows"
| "append_sealed env at (en # ens) rows =
     append_sealed env at ens
       (insert_row (the (be_render env en)) (length (the (be_render env en))) at rows)"

lemma seq_after_0 [simp]: "seq_after 0 seq = seq"
  by (simp add: seq_after_def)

lemma seq_after_Suc: "seq_after (Suc n) seq = seq_after n (succ64 seq)"
  by (simp add: seq_after_def funpow_swap1)

lemma seq_after_small: "seq + n < 2 ^ 64 \<Longrightarrow> seq_after n seq = seq + n"
  by (induction n arbitrary: seq) (simp_all add: seq_after_Suc)

lemma length_sealed [simp]: "length (sealed env device seq ds) = length ds"
  by (induction env device seq ds rule: sealed.induct) auto

lemma map_seq_sealed:
  "seq + length ds < 2 ^ 64 \<Longrightarrow>
     map en_seq (sealed env device seq ds) = [Suc seq ..< Suc (seq + length ds)]"
  by (induction env device seq ds rule: sealed.induct) (auto simp: upt_rec)

lemma ids_ok_append_sealed [wf_intros]:
  "ids_ok (map row_id rows) \<Longrightarrow> ids_ok (map row_id (append_sealed env at ens rows))"
  by (induction env at ens rows rule: append_sealed.induct) (auto intro: wf_intros)

lemma length_append_sealed [simp]:
  "length (append_sealed env at ens rows) = length rows + length ens"
  by (induction env at ens rows rule: append_sealed.induct) (auto simp: insert_row_def)

lemma append_sealed_append:
  "\<exists>new. append_sealed env at ens rows = rows @ new \<and>
         map row_envelope new = map (\<lambda>en. the (be_render env en)) ens \<and>
         map row_bytes new = map (\<lambda>en. length (the (be_render env en))) ens \<and>
         map row_created_at new = map (\<lambda>_. at) ens"
proof (induction env at ens rows rule: append_sealed.induct)
  case (2 env at en ens rows)
  then obtain new where "append_sealed env at (en # ens) rows =
      insert_row (the (be_render env en)) (length (the (be_render env en))) at rows @ new"
    "map row_envelope new = map (\<lambda>en. the (be_render env en)) ens"
    "map row_bytes new = map (\<lambda>en. length (the (be_render env en))) ens"
    "map row_created_at new = map (\<lambda>_. at) ens"
    by auto
  then show ?case
    by (intro exI [of _ "\<lparr>row_id = next_id (map row_id rows), row_envelope = the (be_render env en),
      row_bytes = length (the (be_render env en)), row_created_at = at\<rparr> # new"])
      (simp add: insert_row_def)
qed simp

lemma fault_blind_insert_pending [blind_intros]: "fault_blind (insert_pending env en at)"
  by (auto simp: insert_pending_def split: option.split intro: blind_intros)

lemma fault_blind_seal_drafts [blind_intros]: "fault_blind (seal_drafts env device at ds seq)"
  by (induction env device at ds seq rule: seal_drafts.induct)
    (auto simp: Let_def intro!: blind_intros split: prod.split)

lemma insert_pending_calm_Inr:
  "insert_pending env en at (calm t) = (Inr u, s') \<longleftrightarrow>
     be_render env en \<noteq> None \<and> s' = calm (t\<lparr>t_pending := append_sealed env at [en] (t_pending t)\<rparr>)"
  by (auto simp: insert_pending_def calm_simps split: option.splits)

lemma bind_InrE:
  assumes "bind m f s = (Inr b, s')"
  obtains a s1 where "m s = (Inr a, s1)" "f a s1 = (Inr b, s')"
  using assms by (auto simp: bind_def split: prod.splits sum.splits)

lemma seal_drafts_calm_Inr:
  assumes "seal_drafts env device at ds seq (calm t) = (Inr (seq', ens), s')"
  shows "ens = sealed env device seq ds \<and> seq' = seq_after (length ds) seq \<and>
         (\<forall>en \<in> set ens. be_render env en \<noteq> None) \<and>
         s' = calm (t\<lparr>t_pending := append_sealed env at ens (t_pending t)\<rparr>)"
  using assms
proof (induction env device at ds seq arbitrary: t seq' ens s' rule: seal_drafts.induct)
  case (1 env device at seq)
  then show ?case by (auto simp: calm_simps)
next
  case (2 env device at d ds seq)
  let ?en = "into_envelope (be_sha env) (redact_draft env d) device (succ64 seq)"
  from "2.prems" obtain ens1 where
    r: "be_render env ?en \<noteq> None" and
    rest: "seal_drafts env device at ds (succ64 seq)
        (calm (t\<lparr>t_pending := append_sealed env at [?en] (t_pending t)\<rparr>)) = (Inr (seq', ens1), s')"
    and ens: "ens = ?en # ens1"
    by (auto simp: Let_def insert_pending_calm_Inr return_calm elim!: bind_InrE)
  from "2.IH" [OF refl refl rest] r ens show ?case
    by (simp add: seq_after_Suc)
qed

subsection \<open>What a committed enqueue leaves behind\<close>

definition with_cursor ::
  "cursor option \<Rightarrow> (string \<times> string \<rightharpoonup> string) \<Rightarrow> (string \<times> string \<rightharpoonup> string)" where
  "with_cursor c m =
     (case c of None \<Rightarrow> m
      | Some c \<Rightarrow> m((provider_as_str (cur_provider c), cur_key c) \<mapsto> cur_value c))"

definition overflow_envelope ::
  "buffer_env \<Rightarrow> timestamp \<Rightarrow> pending_row list \<Rightarrow> nat \<Rightarrow> nat \<Rightarrow> envelope" where
  "overflow_envelope env later rows n seq =
     into_envelope (be_sha env)
       (overflow_draft later
         \<lparr>ev_dropped = n, ev_from = row_created_at (rows ! 0), ev_to = row_created_at (rows ! (n - 1))\<rparr>)
       (be_device env) seq"

definition enqueue_spec ::
  "buffer_env \<Rightarrow> timestamp \<Rightarrow> timestamp \<Rightarrow> record_draft list \<Rightarrow> cursor option \<Rightarrow>
     string option \<Rightarrow> nat \<Rightarrow> tables \<Rightarrow> envelope list \<times> tables" where
  "enqueue_spec env now later ds cur dev seq t =
     (let device = (case dev of Some d \<Rightarrow> d | None \<Rightarrow> be_device env);
          at = to_rfc3339 (be_utc env) now;
          ens = sealed env device seq ds;
          seq = seq_after (length ds) seq;
          rows = append_sealed env at ens (t_pending t);
          n = evictions (be_caps env) rows;
          t = t\<lparr>t_cursors := with_cursor cur (t_cursors t)\<rparr>
      in if n = 0
         then (ens, t\<lparr>t_pending := rows, t_meta := (t_meta t)(seq_key \<mapsto> dec_nat seq)\<rparr>)
         else let en = overflow_envelope env later rows n (succ64 seq)
              in (ens @ [en],
                  t\<lparr>t_pending := append_sealed env at [en] (drop n rows),
                    t_meta := (t_meta t)(seq_key \<mapsto> dec_nat (succ64 seq))\<rparr>))"

lemma fault_blind_read_seq [blind_intros]: "fault_blind read_seq"
  by (auto simp: read_seq_def intro!: blind_intros split: sum.split)

lemma fault_blind_store_cursor [blind_intros]: "fault_blind (store_cursor c)"
  by (auto simp: store_cursor_def intro!: blind_intros split: option.split)

lemma fault_blind_evict_pending [blind_intros]: "fault_blind (evict_pending c)"
  unfolding evict_pending_def totals_pending_def plan_eviction_def
  by (auto intro!: blind_intros split: option.split prod.split)

lemma fault_blind_enqueue_body [blind_intros]:
  "fault_blind (enqueue_body env now later ds cur dev)"
  unfolding enqueue_body_def Let_def write_seq_def
  by (auto intro!: blind_intros split: option.split prod.split)

lemma store_cursor_calm:
  "store_cursor c (calm t) = (Inr (), calm (t\<lparr>t_cursors := with_cursor c (t_cursors t)\<rparr>))"
  by (cases c) (simp_all add: store_cursor_def with_cursor_def calm_simps)

lemma read_seq_calm:
  "read_seq (calm t) =
     (case parse_seq (t_meta t seq_key) of
        Inl e \<Rightarrow> (Inl e, calm t) | Inr n \<Rightarrow> (Inr n, calm t))"
  by (auto simp: read_seq_def calm_simps bind_Inr split: sum.split)

lemma enqueue_body_calm:
  assumes ok: "tables_ok t"
    and run: "enqueue_body env now later ds cur dev (calm t) = (Inr ens, s')"
  shows "\<exists>seq. parse_seq (t_meta t seq_key) = Inr seq \<and>
           (\<forall>en \<in> set ens. be_render env en \<noteq> None) \<and>
           s' = calm (snd (enqueue_spec env now later ds cur dev seq t)) \<and>
           ens = fst (enqueue_spec env now later ds cur dev seq t)"
proof -
  define device where "device = (case dev of Some d \<Rightarrow> d | None \<Rightarrow> be_device env)"
  define at where "at = to_rfc3339 (be_utc env) now"
  let ?tail = "\<lambda>(seq1, ens1). bind (store_cursor cur) (\<lambda>_. bind (evict_pending (be_caps env)) (\<lambda>evicted.
           case evicted of
             None \<Rightarrow> bind (write_seq seq1) (\<lambda>_. return ens1)
           | Some e \<Rightarrow>
               let seq = succ64 seq1;
                   en = into_envelope (be_sha env) (overflow_draft later e) (be_device env) seq
               in bind (insert_pending env en at) (\<lambda>_.
                  bind (write_seq seq) (\<lambda>_. return (ens1 @ [en])))))"
  from run have "bind read_seq (\<lambda>seq. bind (seal_drafts env device at ds seq) ?tail) (calm t) = (Inr ens, s')"
    unfolding enqueue_body_def Let_def device_def at_def .
  then obtain seq s0 where read: "read_seq (calm t) = (Inr seq, s0)"
    and rest: "bind (seal_drafts env device at ds seq) ?tail s0 = (Inr ens, s')"
    by (rule bind_InrE)
  from read have seq: "parse_seq (t_meta t seq_key) = Inr seq" and s0: "s0 = calm t"
    by (simp_all add: read_seq_calm split: sum.splits)
  from rest obtain p s1 where "seal_drafts env device at ds seq s0 = (Inr p, s1)"
    and "?tail p s1 = (Inr ens, s')" by (rule bind_InrE)
  then obtain seq1 ens1 where
    seal: "seal_drafts env device at ds seq (calm t) = (Inr (seq1, ens1), s1)"
    and tail: "?tail (seq1, ens1) s1 = (Inr ens, s')"
    using s0 by (cases p) simp
  define rows where "rows = append_sealed env at ens1 (t_pending t)"
  define n where "n = evictions (be_caps env) rows"
  define t1 where "t1 = t\<lparr>t_pending := rows, t_cursors := with_cursor cur (t_cursors t)\<rparr>"
  from seal_drafts_calm_Inr [OF seal] have
    e1: "ens1 = sealed env device seq ds" "seq1 = seq_after (length ds) seq"
      "\<forall>en \<in> set ens1. be_render env en \<noteq> None" "s1 = calm (t\<lparr>t_pending := rows\<rparr>)"
    by (auto simp: rows_def)
  have ids: "ids_ok (map row_id (t_pending t1))"
    using ok by (auto simp: t1_def rows_def tables_ok_def intro: wf_intros)
  have ev: "evict_pending (be_caps env) (calm t1) =
     (if n = 0 then (Inr None, calm t1)
         else (Inr (Some \<lparr>ev_dropped = n, ev_from = row_created_at (rows ! 0),
                          ev_to = row_created_at (rows ! (n - 1))\<rparr>),
               calm (t1\<lparr>t_pending := drop n rows\<rparr>)))"
    using evict_pending_calm [OF ids, of "be_caps env"] by (simp add: t1_def n_def Let_def)
  have sc: "store_cursor cur s1 = (Inr (), calm t1)"
    by (simp add: e1(4) store_cursor_calm t1_def)
  have spec: "enqueue_spec env now later ds cur dev seq t =
      (if n = 0 then (ens1, t1\<lparr>t_meta := (t_meta t1)(seq_key \<mapsto> dec_nat seq1)\<rparr>)
       else (ens1 @ [overflow_envelope env later rows n (succ64 seq1)],
         t1\<lparr>t_pending := append_sealed env at [overflow_envelope env later rows n (succ64 seq1)] (drop n rows),
            t_meta := (t_meta t1)(seq_key \<mapsto> dec_nat (succ64 seq1))\<rparr>))"
    unfolding enqueue_spec_def Let_def device_def [symmetric] at_def [symmetric] e1(1) [symmetric]
      e1(2) [symmetric] rows_def [symmetric] n_def [symmetric]
    by (simp add: t1_def)
  show ?thesis
  proof (cases "n = 0")
    case True
    with tail ev have "ens = ens1" "s' = calm (t1\<lparr>t_meta := (t_meta t1)(seq_key \<mapsto> dec_nat seq1)\<rparr>)"
      by (auto simp: sc bind_Inr write_seq_def calm_simps)
    with True seq e1(3) show ?thesis by (simp add: spec t1_def)
  next
    case False
    let ?en = "overflow_envelope env later rows n (succ64 seq1)"
    from False tail ev have "ens = ens1 @ [?en]" "be_render env ?en \<noteq> None"
      "s' = calm (t1\<lparr>t_pending := append_sealed env at [?en] (drop n rows),
                    t_meta := (t_meta t1)(seq_key \<mapsto> dec_nat (succ64 seq1))\<rparr>)"
      by (auto simp: sc bind_Inr write_seq_def calm_simps Let_def insert_pending_calm_Inr
          overflow_envelope_def elim!: bind_InrE)
    with False seq e1(3) show ?thesis by (simp add: spec t1_def)
  qed
qed

end
