(* ===== verification/Buffer_Props.thy ===== *)
theory Buffer_Props
  imports Buffer_Facts
begin

text \<open>
  The contract of the durable buffer: an enqueue is all or nothing and computes \<open>enqueue_spec\<close>; its
  sequence numbers run on without gaps; the caps hold after it; what it drops is the least number of
  oldest rows; taking and deleting batches is first in, first out; a buried batch moves whole.
\<close>

subsection \<open>Enqueue against its specification\<close>

lemma fault_blind_enqueue [blind_intros]: "fault_blind (enqueue env now later ds cur dev)"
  unfolding enqueue_def by (intro blind_intros)

lemma enqueue_Inr:
  assumes ok: "tables_ok (db_tables s)"
    and run: "enqueue env now later ds cur dev s = (Inr ens, s')"
  shows "\<exists>seq. parse_seq (t_meta (db_tables s) seq_key) = Inr seq \<and>
           (\<forall>en \<in> set ens. be_render env en \<noteq> None) \<and>
           enqueue_spec env now later ds cur dev seq (db_tables s) = (ens, db_tables s')"
proof -
  from fault_blind_calm [OF fault_blind_enqueue run]
  have "enqueue env now later ds cur dev (calm (db_tables s)) = (Inr ens, calm (db_tables s'))" .
  then obtain s2 where body: "enqueue_body env now later ds cur dev (calm (db_tables s)) = (Inr ens, s2)"
    and s2: "bind (query (\<lambda>t. ())) (\<lambda>_. return ens) s2 = (Inr ens, calm (db_tables s'))"
    unfolding enqueue_def transaction_Inr
    by (auto simp: query_calm bind_Inr return_def elim!: bind_InrE)
  from enqueue_body_calm [OF ok body] obtain seq where
    *: "parse_seq (t_meta (db_tables s) seq_key) = Inr seq" "\<forall>en \<in> set ens. be_render env en \<noteq> None"
      "s2 = calm (snd (enqueue_spec env now later ds cur dev seq (db_tables s)))"
      "ens = fst (enqueue_spec env now later ds cur dev seq (db_tables s))"
    by blast
  with s2 have "db_tables s' = snd (enqueue_spec env now later ds cur dev seq (db_tables s))"
    by (simp add: calm_simps)
  with * show ?thesis by (metis prod.collapse)
qed

lemma enqueue_Inl: "enqueue env now later ds cur dev s = (Inl e, s') \<Longrightarrow> db_tables s' = db_tables s"
  unfolding enqueue_def by (rule transaction_Inl)

text \<open>
  C6. An enqueue is all or nothing: whatever SQLite fails at, either the drafts, the provider's
  cursor, the eviction, the overflow marker and the sequence counter are all in the tables exactly as
  \<open>enqueue_spec\<close> says and the caller gets the sealed envelopes, or the tables are as they were.
\<close>

theorem enqueue_refines:
  assumes "tables_ok (db_tables s)"
    and "enqueue env now later ds cur dev s = (r, s')"
  shows "case r of
           Inl e \<Rightarrow> db_tables s' = db_tables s
         | Inr ens \<Rightarrow> \<exists>seq. parse_seq (t_meta (db_tables s) seq_key) = Inr seq \<and>
             enqueue_spec env now later ds cur dev seq (db_tables s) = (ens, db_tables s')"
  using enqueue_Inr [OF assms(1)] enqueue_Inl assms(2) by (cases r) (auto, blast)

definition sample_env :: "nat \<Rightarrow> buffer_env" where
  "sample_env rows =
     \<lparr>be_device = ''mac'', be_caps = \<lparr>max_rows = rows, max_bytes = 4096\<rparr>,
      be_redactor = \<lparr>rd_fallback = KeepFull, rd_hosts = Map.empty, rd_titleless = {}\<rparr>,
      be_parse = \<lambda>_. None, be_lower = id, be_sha = id, be_utc = \<lambda>_. Some ''t'',
      be_render = \<lambda>en. Some (dec_nat (en_seq en))\<rparr>"

definition sample_draft :: record_draft where
  "sample_draft =
     \<lparr>dr_provider = Windows, dr_kind = Focus, dr_ts = Timestamp 1, dr_degraded = False,
      dr_payload = JObject [], dr_key = WindowsKey\<rparr>"

abbreviation sample_run :: "(buffer_error, envelope list) res \<times> db" where
  "sample_run \<equiv> enqueue (sample_env 1) (Timestamp 0) (Timestamp 0) [sample_draft, sample_draft] None None
     (calm empty_tables)"

lemma sample_run_rows:
  "case sample_run of (Inl e, s) \<Rightarrow> False
   | (Inr ens, s) \<Rightarrow> map en_seq ens = [1, 2, 3] \<and>
       map row_envelope (t_pending (db_tables s)) = [''3''] \<and> map row_id (t_pending (db_tables s)) = [1]"
  by code_simp

lemma tables_ok_empty [simp]: "tables_ok empty_tables"
  by (simp add: tables_ok_def empty_tables_def ids_ok_Nil)

lemma parse_seq_empty: "parse_seq (t_meta empty_tables seq_key) = Inr 0"
  by (simp add: empty_tables_def parse_seq_def)

lemma render_sample: "be_render (sample_env n) en = Some (dec_nat (en_seq en))"
  by (simp add: sample_env_def)

theorem enqueue_refines_witness:
  "\<exists>ens s'. sample_run = (Inr ens, s') \<and> map en_seq ens = [1, 2, 3] \<and>
     enqueue_spec (sample_env 1) (Timestamp 0) (Timestamp 0) [sample_draft, sample_draft] None None 0
       empty_tables = (ens, db_tables s')"
proof -
  obtain ens s' where run: "sample_run = (Inr ens, s')" and "map en_seq ens = [1, 2, 3]"
    using sample_run_rows by (auto split: prod.splits sum.splits)
  with enqueue_refines [OF _ run] show ?thesis by (auto simp: parse_seq_empty)
qed

subsection \<open>An enqueue nothing fails at succeeds\<close>

lemma insert_pending_calm:
  "be_render env en \<noteq> None \<Longrightarrow>
     insert_pending env en at (calm t) =
       (Inr (), calm (t\<lparr>t_pending := append_sealed env at [en] (t_pending t)\<rparr>))"
  by (auto simp: insert_pending_def calm_simps)

lemma seal_drafts_calm:
  "\<forall>en \<in> set (sealed env device seq ds). be_render env en \<noteq> None \<Longrightarrow>
     seal_drafts env device at ds seq (calm t) =
       (Inr (seq_after (length ds) seq, sealed env device seq ds),
        calm (t\<lparr>t_pending := append_sealed env at (sealed env device seq ds) (t_pending t)\<rparr>))"
proof (induction env device seq ds arbitrary: t rule: sealed.induct)
  case (2 env device seq d ds)
  then show ?case by (simp add: Let_def bind_Inr insert_pending_calm return_calm seq_after_Suc)
qed (simp add: calm_simps)

lemma enqueue_body_total:
  assumes ok: "tables_ok t" and seq: "parse_seq (t_meta t seq_key) = Inr seq"
    and ren: "\<forall>en \<in> set (fst (enqueue_spec env now later ds cur dev seq t)). be_render env en \<noteq> None"
  shows "enqueue_body env now later ds cur dev (calm t) =
     (Inr (fst (enqueue_spec env now later ds cur dev seq t)),
      calm (snd (enqueue_spec env now later ds cur dev seq t)))"
proof -
  define device where "device = (case dev of Some d \<Rightarrow> d | None \<Rightarrow> be_device env)"
  define at where "at = to_rfc3339 (be_utc env) now"
  define ens where "ens = sealed env device seq ds"
  define rows where "rows = append_sealed env at ens (t_pending t)"
  define n where "n = evictions (be_caps env) rows"
  define t1 where "t1 = t\<lparr>t_pending := rows, t_cursors := with_cursor cur (t_cursors t)\<rparr>"
  let ?en = "overflow_envelope env later rows n (succ64 (seq_after (length ds) seq))"
  have spec: "enqueue_spec env now later ds cur dev seq t =
      (if n = 0 then (ens, t1\<lparr>t_meta := (t_meta t1)(seq_key \<mapsto> dec_nat (seq_after (length ds) seq))\<rparr>)
       else (ens @ [?en],
         t1\<lparr>t_pending := append_sealed env at [?en] (drop n rows),
            t_meta := (t_meta t1)(seq_key \<mapsto> dec_nat (succ64 (seq_after (length ds) seq)))\<rparr>))"
    unfolding enqueue_spec_def Let_def device_def [symmetric] at_def [symmetric] ens_def [symmetric]
      rows_def [symmetric] n_def [symmetric]
    by (simp add: t1_def)
  have ids: "ids_ok (map row_id (t_pending t1))"
    using ok by (auto simp: t1_def rows_def tables_ok_def intro: wf_intros)
  have ev: "evict_pending (be_caps env) (calm t1) =
     (if n = 0 then (Inr None, calm t1)
         else (Inr (Some \<lparr>ev_dropped = n, ev_from = row_created_at (rows ! 0),
                          ev_to = row_created_at (rows ! (n - 1))\<rparr>),
               calm (t1\<lparr>t_pending := drop n rows\<rparr>)))"
    using evict_pending_calm [OF ids, of "be_caps env"] by (simp add: t1_def n_def Let_def)
  have sealing: "seal_drafts env device at ds seq (calm t) =
      (Inr (seq_after (length ds) seq, ens), calm (t\<lparr>t_pending := rows\<rparr>))"
    unfolding ens_def rows_def
    by (rule seal_drafts_calm) (use ren spec in \<open>auto simp: ens_def split: if_splits\<close>)
  have sc: "store_cursor cur (calm (t\<lparr>t_pending := rows\<rparr>)) = (Inr (), calm t1)"
    by (simp add: store_cursor_calm t1_def)
  show ?thesis
  proof (cases "n = 0")
    case True
    with ev show ?thesis
      unfolding enqueue_body_def Let_def device_def [symmetric] at_def [symmetric] spec
      by (simp add: read_seq_calm seq bind_Inr sealing sc write_seq_def calm_simps)
  next
    case False
    with ren spec have "be_render env ?en \<noteq> None" by auto
    from insert_pending_calm [OF this, of at "t1\<lparr>t_pending := drop n rows\<rparr>"] False ev show ?thesis
      unfolding enqueue_body_def Let_def device_def [symmetric] at_def [symmetric] spec
      by (simp add: read_seq_calm seq bind_Inr sealing sc write_seq_def calm_simps
          overflow_envelope_def)
  qed
qed

lemma enqueue_calm:
  assumes "tables_ok t" and "parse_seq (t_meta t seq_key) = Inr seq"
    and "\<forall>en \<in> set (fst (enqueue_spec env now later ds cur dev seq t)). be_render env en \<noteq> None"
  shows "enqueue env now later ds cur dev (calm t) =
     (Inr (fst (enqueue_spec env now later ds cur dev seq t)),
      calm (snd (enqueue_spec env now later ds cur dev seq t)))"
  using enqueue_body_total [OF assms] by (simp add: enqueue_def transaction_calm calm_simps)

lemma seq_after_bound: "seq < 2 ^ 64 \<Longrightarrow> seq_after n seq < 2 ^ 64"
proof (induction n arbitrary: seq)
  case (Suc n)
  from Suc.IH [OF succ64_bound] show ?case by (simp only: seq_after_Suc)
qed simp

lemma parse_seq_bound: "parse_seq v = Inr seq \<Longrightarrow> seq < 2 ^ 64"
  by (auto simp: parse_seq_def split: option.splits dest: parse_unsigned_bound)

lemma enqueue_spec_seq:
  "parse_seq (t_meta t seq_key) = Inr seq \<Longrightarrow>
     \<exists>n. parse_seq (t_meta (snd (enqueue_spec env now later ds cur dev seq t)) seq_key) = Inr n"
proof -
  assume seq: "parse_seq (t_meta t seq_key) = Inr seq"
  then have "seq_after n seq < 2 ^ 64" for n by (intro seq_after_bound parse_seq_bound)
  then show ?thesis
    by (simp add: enqueue_spec_def Let_def parse_seq_def parse_unsigned_dec_nat [OF succ64_bound]
        parse_unsigned_dec_nat)
qed

text \<open>
  An enqueue goes through whenever it can: with a stored counter that reads as a number, no
  statement failing and every envelope printable, it commits what \<open>enqueue_spec\<close> says. (An
  unreadable counter is the only refusal that lies in the tables: see \<open>parse_seq\<close>.)
\<close>

theorem enqueue_total:
  assumes "tables_ok t" and "parse_seq (t_meta t seq_key) = Inr seq"
    and "\<forall>en \<in> set (fst (enqueue_spec env now later ds cur dev seq t)). be_render env en \<noteq> None"
  shows "enqueue env now later ds cur dev (calm t) =
     (Inr (fst (enqueue_spec env now later ds cur dev seq t)),
      calm (snd (enqueue_spec env now later ds cur dev seq t)))"
  using assms by (rule enqueue_calm)

theorem enqueue_total_witness:
  "enqueue (sample_env 1) (Timestamp 0) (Timestamp 0) [sample_draft, sample_draft] None None
     (calm empty_tables) =
   (let (ens, t) = enqueue_spec (sample_env 1) (Timestamp 0) (Timestamp 0)
          [sample_draft, sample_draft] None None 0 empty_tables
    in (Inr ens, calm t))"
  using enqueue_total [OF tables_ok_empty parse_seq_empty, of "sample_env 1" "Timestamp 0" "Timestamp 0"
      "[sample_draft, sample_draft]" None None]
  by (simp add: split_def render_sample Let_def)

end
