(* ===== verification/Buffer_Serve.thy ===== *)
theory Buffer_Serve
  imports Buffer_Props
begin

text \<open>
  The owner thread over whole command sequences: what every command keeps of the tables, that the
  sequence counter runs on without a gap, that the caps hold, and the first-in-first-out contract the
  shipper relies on.
\<close>

subsection \<open>What a reply says was stored\<close>

text \<open>The envelopes a reply hands to its caller.\<close>

fun handed :: "(buffer_error, reply) res \<Rightarrow> envelope list" where
  "handed (Inr (REnvelopes ens)) = ens"
| "handed _ = []"

lemma handed_closed: "concat (map (handed \<circ> (\<lambda>_. Inl Closed)) cs) = []"
  by (induction cs) auto

text \<open>The texts of envelopes, as they are stored.\<close>

definition texts_of :: "buffer_env \<Rightarrow> envelope list \<Rightarrow> string list" where
  "texts_of env ens = map (\<lambda>en. the (be_render env en)) ens"

lemma texts_of_simps [simp]:
  "texts_of env [] = []" "texts_of env (ens @ ens') = texts_of env ens @ texts_of env ens'"
  "length (texts_of env ens) = length ens"
  by (simp_all add: texts_of_def)

subsection \<open>Invariants of statement sequences\<close>

text \<open>\<open>keeps P m\<close>: the statements \<open>m\<close> lead from tables with \<open>P\<close> to tables with \<open>P\<close>, whatever fails.\<close>

definition keeps :: "(tables \<Rightarrow> bool) \<Rightarrow> 'a stmt \<Rightarrow> bool" where
  "keeps P m = (\<forall>s. P (db_tables s) \<longrightarrow> P (db_tables (snd (m s))))"

named_theorems keeps_intros \<open>statements that keep an invariant of the tables\<close>

lemma keepsD: "keeps P m \<Longrightarrow> m s = (r, s') \<Longrightarrow> P (db_tables s) \<Longrightarrow> P (db_tables s')"
  unfolding keeps_def by (metis snd_conv)

lemma keeps_return [keeps_intros]: "keeps P (return a)"
  by (simp add: keeps_def return_def)

lemma keeps_raise [keeps_intros]: "keeps P (raise e)"
  by (simp add: keeps_def raise_def)

lemma keeps_exec: "(\<And>t. P t \<Longrightarrow> P (snd (f t))) \<Longrightarrow> keeps P (exec f)"
  by (simp add: keeps_def exec_def Let_def split_def split: list.split bool.split)

lemma keeps_query [keeps_intros]: "keeps P (query f)"
  by (simp add: query_def keeps_exec)

lemma keeps_update [keeps_intros]: "(\<And>t. P t \<Longrightarrow> P (f t)) \<Longrightarrow> keeps P (update f)"
  by (simp add: update_def keeps_exec)

lemma keeps_bind [keeps_intros]:
  "keeps P m \<Longrightarrow> (\<And>a. keeps P (f a)) \<Longrightarrow> keeps P (bind m f)"
  by (simp add: keeps_def bind_def split_def split: sum.split)

lemma keeps_transaction [keeps_intros]: "keeps P body \<Longrightarrow> keeps P (transaction body)"
proof -
  assume "keeps P body"
  then have "keeps P (bind (query (\<lambda>t. ())) (\<lambda>_. bind body (\<lambda>a. bind (query (\<lambda>t. ())) (\<lambda>_. return a))))"
    by (intro keeps_intros)
  then show ?thesis
    by (simp add: keeps_def transaction_def Let_def split_def split: sum.split)
qed

lemma keeps_delete_each [keeps_intros]:
  "(\<And>t Q. P t \<Longrightarrow> P (t\<lparr>t_pending := filter Q (t_pending t)\<rparr>)) \<Longrightarrow> keeps P (delete_each ids)"
  by (induction ids) (auto simp: delete_pending_def intro!: keeps_intros)

lemma keeps_bury_each [keeps_intros]:
  assumes "\<And>t Q. P t \<Longrightarrow> P (t\<lparr>t_pending := filter Q (t_pending t)\<rparr>)"
    and "\<And>t (p :: pending_record). P t \<Longrightarrow> P (t\<lparr>t_dead_letter :=
           insert_dead (pending_envelope p) (pending_bytes p) reason at (t_dead_letter t)\<rparr>)"
  shows "keeps P (bury_each reason at ps)"
proof (induction ps)
  case (Cons p ps)
  show ?case
    unfolding bury_each.simps delete_pending_def
    by (intro keeps_bind keeps_update Cons) (erule assms)+
qed (simp add: keeps_return)

lemma keeps_evict_dead_letter [keeps_intros]:
  "(\<And>t Q. P t \<Longrightarrow> P (t\<lparr>t_dead_letter := filter Q (t_dead_letter t)\<rparr>)) \<Longrightarrow> keeps P evict_dead_letter"
  by (auto simp: evict_dead_letter_def totals_dead_def plan_eviction_def
      intro!: keeps_intros split: prod.split option.split)

text \<open>Every command but an enqueue leaves \<open>cursors\<close> and \<open>meta\<close> alone and only filters or buries rows.\<close>

lemma keeps_command:
  assumes "\<And>t Q. P t \<Longrightarrow> P (t\<lparr>t_pending := filter Q (t_pending t)\<rparr>)"
    and "\<And>t Q. P t \<Longrightarrow> P (t\<lparr>t_dead_letter := filter Q (t_dead_letter t)\<rparr>)"
    and "\<And>t txt b reason at. P t \<Longrightarrow> P (t\<lparr>t_dead_letter := insert_dead txt b reason at (t_dead_letter t)\<rparr>)"
    and "case c of Enqueue ds cur dev \<Rightarrow> False | _ \<Rightarrow> True"
  shows "keeps P (serve_command env now later c)"
  using assms
  by (cases c) (auto simp: reply_with_def take_batch_def delete_batch_def dead_letter_def
      read_cursor_def checkpoint_def intro!: keeps_intros)

lemma keeps_serve:
  assumes "\<And>now later c. keeps P (serve_command env now later c)"
    and "P (db_tables s)"
  shows "P (db_tables (snd (serve env cs s)))"
  using assms(2)
proof (induction cs arbitrary: s)
  case (Cons c cs)
  obtain now later cmd where c: "c = (now, later, cmd)" by (cases c)
  have "P (db_tables (snd (serve_command env now later cmd s)))"
    using assms(1) Cons.prems by (auto simp: keeps_def)
  with Cons.IH show ?case
    by (auto simp: c Let_def split: prod.split) (metis snd_conv)+
qed simp

subsection \<open>Row ids\<close>

lemma tables_ok_intros [wf_intros]:
  "tables_ok t \<Longrightarrow> tables_ok (t\<lparr>t_pending := filter Q (t_pending t)\<rparr>)"
  "tables_ok t \<Longrightarrow> tables_ok (t\<lparr>t_dead_letter := filter R (t_dead_letter t)\<rparr>)"
  "tables_ok t \<Longrightarrow> tables_ok (t\<lparr>t_dead_letter := insert_dead txt b reason at (t_dead_letter t)\<rparr>)"
  "tables_ok t \<Longrightarrow> tables_ok (t\<lparr>t_pending := insert_row txt b at (t_pending t)\<rparr>)"
  "tables_ok t \<Longrightarrow> tables_ok (t\<lparr>t_cursors := c\<rparr>)"
  "tables_ok t \<Longrightarrow> tables_ok (t\<lparr>t_meta := m\<rparr>)"
  by (auto simp: tables_ok_def intro: wf_intros)

lemma keeps_seal_drafts:
  assumes "\<And>t txt b. P t \<Longrightarrow> P (t\<lparr>t_pending := insert_row txt b at (t_pending t)\<rparr>)"
  shows "keeps P (seal_drafts env device at ds seq)"
  using assms
  by (induction env device at ds seq rule: seal_drafts.induct)
    (auto simp: Let_def insert_pending_def intro!: keeps_intros split: option.split prod.split)

lemma keeps_tables_ok_enqueue [keeps_intros]:
  "keeps tables_ok (enqueue env now later ds cur dev)"
  unfolding enqueue_def enqueue_body_def Let_def write_seq_def read_seq_def store_cursor_def
    evict_pending_def totals_pending_def plan_eviction_def insert_pending_def
  by (auto simp: tables_ok_intros intro!: keeps_intros keeps_seal_drafts split: option.split prod.split sum.split)

lemma keeps_tables_ok_command [keeps_intros]:
  "keeps tables_ok (serve_command env now later c)"
proof (cases "case c of Enqueue ds cur dev \<Rightarrow> False | _ \<Rightarrow> True")
  case False
  then show ?thesis by (cases c) (auto simp: reply_with_def intro!: keeps_intros)
qed (rule keeps_command, auto simp: tables_ok_intros)

subsection \<open>The order of arrival\<close>

abbreviation queued :: "db \<Rightarrow> string list" where
  "queued s \<equiv> map row_envelope (t_pending (db_tables s))"

text \<open>The commands a service's answer leads to, which alone take records out of the queue on purpose.\<close>

fun removes :: "command \<Rightarrow> bool" where
  "removes (DeleteBatch ids) = True"
| "removes (DeadLetter ps reason) = True"
| "removes c = False"

lemma append_sealed_texts:
  "map row_envelope (append_sealed env at ens rows) = map row_envelope rows @ texts_of env ens"
  using append_sealed_append [of env at ens rows] by (auto simp: texts_of_def)

lemma enqueue_spec_texts:
  assumes "enqueue_spec env now later ds cur dev seq t = (ens, t')"
  shows "\<exists>k. map row_envelope (t_pending t') = drop k (map row_envelope (t_pending t) @ texts_of env ens)"
proof -
  define at where "at = to_rfc3339 (be_utc env) now"
  define ens0 where "ens0 = sealed env (case dev of Some d \<Rightarrow> d | None \<Rightarrow> be_device env) seq ds"
  define rows where "rows = append_sealed env at ens0 (t_pending t)"
  define n where "n = evictions (be_caps env) rows"
  have rows: "map row_envelope rows = map row_envelope (t_pending t) @ texts_of env ens0"
    by (simp add: rows_def append_sealed_texts)
  have le: "n \<le> length rows" by (simp add: n_def evictions_le)
  show ?thesis
  proof (cases "n = 0")
    case True
    with assms rows show ?thesis
      by (intro exI [of _ 0]) (auto simp: enqueue_spec_def Let_def at_def ens0_def rows_def n_def)
  next
    case False
    then obtain en where "ens = ens0 @ [en]" "t_pending t' = append_sealed env at [en] (drop n rows)"
      using assms by (auto simp: enqueue_spec_def Let_def at_def ens0_def rows_def n_def)
    then have "map row_envelope (t_pending t') = drop n (map row_envelope rows) @ texts_of env [en]"
      by (simp only: append_sealed_texts drop_map)
    also have "\<dots> = drop n (map row_envelope rows @ texts_of env [en])" using le by simp
    also have "map row_envelope rows @ texts_of env [en] = map row_envelope (t_pending t) @ texts_of env ens"
      using \<open>ens = ens0 @ [en]\<close> rows by simp
    finally show ?thesis ..
  qed
qed

lemma enqueue_texts:
  assumes "tables_ok (db_tables s)" and "enqueue env now later ds cur dev s = (Inr ens, s')"
  shows "\<exists>k. queued s' = drop k (queued s @ texts_of env ens)"
  using enqueue_Inr [OF assms] enqueue_spec_texts by blast

lemma command_texts:
  assumes ok: "tables_ok (db_tables s)" and run: "serve_command env now later c s = (r, s')"
  shows "subseq (queued s') (queued s @ texts_of env (handed r)) \<and>
     (\<not> removes c \<longrightarrow> suffix (queued s') (queued s @ texts_of env (handed r)))"
proof (cases "case c of Enqueue ds cur dev \<Rightarrow> False | _ \<Rightarrow> True")
  case True
  have other: "handed r = []"
    using True run by (cases c) (auto simp: reply_with_def bind_def return_def split: prod.splits sum.splits)
  have kept: "keeps (\<lambda>t. subseq (map row_envelope (t_pending t)) (queued s)) (serve_command env now later c)"
    using True by (intro keeps_command) (auto intro: subseq_order.trans [OF subseq_map [OF subseq_filter_left]])
  from keepsD [OF kept run] have "subseq (queued s') (queued s)" by simp
  moreover have "queued s' = queued s" if "\<not> removes c"
    using that True run
    by (cases c) (auto simp: reply_with_def take_batch_def read_cursor_def checkpoint_def bind_def return_def
        query_def exec_def Let_def split: prod.splits sum.splits list.splits bool.splits)
  ultimately show ?thesis by (auto simp: other)
next
  case False
  then obtain ds cur dev where c: "c = Enqueue ds cur dev" by (cases c) auto
  obtain q s1 where q: "enqueue env now later ds cur dev s = (q, s1)" by fastforce
  with run c have s1: "s' = s1" "\<And>ens. q = Inr ens \<Longrightarrow> handed r = ens" "\<And>e. q = Inl e \<Longrightarrow> handed r = []"
    by (auto simp: reply_with_def bind_def return_def split: sum.splits)
  have "suffix (queued s') (queued s @ texts_of env (handed r))"
  proof (cases q)
    case (Inl e)
    with enqueue_Inl q s1 show ?thesis by fastforce
  next
    case (Inr ens)
    with enqueue_texts [OF ok] q s1 show ?thesis by (metis suffix_drop)
  qed
  then show ?thesis by (simp add: suffix_imp_subseq)
qed

text \<open>
  C8. The queue is in the order of arrival. After any sequence of commands under any schedule of
  failures, what is queued is, in its order and without anything twice, among the texts that were
  queued before and the texts the replies say were stored, one after the other: nothing is stored by a
  command that failed. Unless a batch was deleted or buried in between, it is the newest of them:
  evictions take from the front. The row ids of both tables still increase from the oldest row to the
  newest, so that \<open>ORDER BY id\<close> is this order.
\<close>

theorem serve_keeps_arrival_order:
  assumes "tables_ok (db_tables s)" and "serve env cs s = (rs, s')"
  shows "tables_ok (db_tables s') \<and>
     subseq (map row_envelope (t_pending (db_tables s')))
       (map row_envelope (t_pending (db_tables s)) @ texts_of env (concat (map handed rs))) \<and>
     (list_all (\<lambda>(now, later, c). \<not> removes c) cs \<longrightarrow>
        suffix (map row_envelope (t_pending (db_tables s')))
          (map row_envelope (t_pending (db_tables s)) @ texts_of env (concat (map handed rs))))"
  using assms
proof (induction cs arbitrary: s rs)
  case (Cons c cs)
  obtain now later cmd where c: "c = (now, later, cmd)" by (cases c)
  obtain r s1 where one: "serve_command env now later cmd s = (r, s1)" by fastforce
  have ok: "tables_ok (db_tables s1)" using keepsD [OF keeps_tables_ok_command one Cons.prems(1)] .
  note texts = command_texts [OF Cons.prems(1) one]
  show ?case
  proof (cases "cmd = Close")
    case True
    with Cons.prems(2) c one have "s' = s1" "concat (map handed rs) = handed r"
      by (auto simp: Let_def handed_closed comp_def)
    with ok texts c show ?thesis by auto
  next
    case False
    obtain rs1 s2 where more: "serve env cs s1 = (rs1, s2)" by fastforce
    with Cons.prems(2) c one False have out: "s' = s2" "rs = r # rs1" by (auto simp: Let_def)
    note rest = Cons.IH [OF ok more [folded out(1)]]
    let ?later = "texts_of env (concat (map handed rs1))"
    have "subseq (queued s1 @ ?later) ((queued s @ texts_of env (handed r)) @ ?later)"
      using texts by (intro list_emb_append_mono) auto
    moreover have "suffix (queued s1 @ ?later) ((queued s @ texts_of env (handed r)) @ ?later)" if "\<not> removes cmd"
      using texts that by (auto simp: suffix_def)
    ultimately show ?thesis
      using rest ok unfolding out(2) c by (auto intro: subseq_order.trans suffix_order.trans)
  qed
qed simp

theorem serve_keeps_arrival_order_witness:
  "suffix (map row_envelope (t_pending (db_tables (snd (serve (sample_env 2)
       [(Timestamp 0, Timestamp 0, Enqueue [sample_draft, sample_draft] None None),
        (Timestamp 0, Timestamp 0, Enqueue [sample_draft] None None)] (calm empty_tables))))))
     [''1'', ''2'', ''3'', ''4''] \<and>
   map row_envelope (t_pending (db_tables (snd (serve (sample_env 2)
       [(Timestamp 0, Timestamp 0, Enqueue [sample_draft, sample_draft] None None),
        (Timestamp 0, Timestamp 0, Enqueue [sample_draft] None None)] (calm empty_tables))))) = [''3'', ''4'']"
proof -
  let ?cs = "[(Timestamp 0, Timestamp 0, Enqueue [sample_draft, sample_draft] None None),
    (Timestamp 0, Timestamp 0, Enqueue [sample_draft] None None)]"
  obtain rs s' where run: "serve (sample_env 2) ?cs (calm empty_tables) = (rs, s')" by fastforce
  have "texts_of (sample_env 2) (concat (map handed (fst (serve (sample_env 2) ?cs (calm empty_tables))))) =
      [''1'', ''2'', ''3'', ''4'']"
    and rows: "map row_envelope (t_pending (db_tables (snd (serve (sample_env 2) ?cs (calm empty_tables))))) = [''3'', ''4'']"
    by code_simp+
  with serve_keeps_arrival_order [OF _ run] show ?thesis
    unfolding run by (simp add: empty_tables_def tables_ok_def ids_ok_def)
qed

subsection \<open>The sequence counter\<close>

text \<open>The numbers handed out after \<open>seq\<close> to \<open>n\<close> envelopes.\<close>

definition numbered :: "nat \<Rightarrow> nat \<Rightarrow> nat list" where
  "numbered seq n = [Suc seq ..< Suc (seq + n)]"

lemma numbered_0 [simp]: "numbered seq 0 = []"
  by (simp add: numbered_def)

lemma numbered_append: "numbered seq (m + n) = numbered seq m @ numbered (seq + m) n"
  using upt_add_eq_append [of "Suc seq" "Suc (seq + m)" n]
  by (simp add: numbered_def add.assoc del: upt_Suc)

lemma numbered_Suc: "numbered seq (Suc n) = numbered seq n @ [Suc (seq + n)]"
  by (simp add: numbered_def)

lemma map_seq_sealed_numbered [simp]:
  "seq + length ds < 2 ^ 64 \<Longrightarrow> map en_seq (sealed env device seq ds) = numbered seq (length ds)"
  unfolding numbered_def by (rule map_seq_sealed)

lemma en_seq_overflow_envelope [simp]: "en_seq (overflow_envelope env later rows n seq) = seq"
  by (simp add: overflow_envelope_def)

lemma enqueue_spec_seqs:
  assumes "enqueue_spec env now later ds cur dev seq t = (ens, t')"
    and "seq + length ens < 2 ^ 64"
  shows "map en_seq ens = numbered seq (length ens)"
    and "t_meta t' seq_key = Some (dec_nat (seq + length ens))"
  using assms
  by (auto simp: enqueue_spec_def Let_def seq_after_small numbered_Suc split: if_splits)

lemma parse_seq_stored: "n < 2 ^ 64 \<Longrightarrow> parse_seq (Some (dec_nat n)) = Inr n"
  by (simp add: parse_seq_def parse_unsigned_dec_nat)

lemma keeps_meta_command:
  assumes "case c of Enqueue ds cur dev \<Rightarrow> False | _ \<Rightarrow> True"
  shows "keeps (\<lambda>t. t_meta t = m) (serve_command env now later c)"
  using assms by (intro keeps_command) auto

lemma serve_command_seqs:
  assumes run: "serve_command env now later c s = (r, s')"
    and ok: "tables_ok (db_tables s)"
    and seq: "parse_seq (t_meta (db_tables s) seq_key) = Inr seq"
    and small: "seq + length (handed r) < 2 ^ 64"
  shows "map en_seq (handed r) = numbered seq (length (handed r)) \<and>
         parse_seq (t_meta (db_tables s') seq_key) = Inr (seq + length (handed r))"
proof (cases "case c of Enqueue ds cur dev \<Rightarrow> False | _ \<Rightarrow> True")
  case True
  then have "handed r = []"
    using run by (cases c) (auto simp: reply_with_def bind_def return_def split: prod.splits sum.splits)
  moreover have "t_meta (db_tables s') = t_meta (db_tables s)"
    using keepsD [OF keeps_meta_command [OF True] run] by blast
  ultimately show ?thesis using seq by simp
next
  case False
  then obtain ds cur dev where c: "c = Enqueue ds cur dev" by (cases c) auto
  obtain q s1 where e: "enqueue env now later ds cur dev s = (q, s1)" by fastforce
  show ?thesis
  proof (cases q)
    case (Inl err)
    with e have "db_tables s1 = db_tables s" by (blast intro: enqueue_Inl)
    moreover have "handed r = []" "s' = s1"
      using run c e Inl by (auto simp: reply_with_def bind_def)
    ultimately show ?thesis using seq by simp
  next
    case (Inr ens)
    from enqueue_Inr [OF ok e [unfolded Inr]] seq
    have "enqueue_spec env now later ds cur dev seq (db_tables s) = (ens, db_tables s1)" by auto
    moreover have r: "handed r = ens" "s' = s1"
      using run c e Inr by (auto simp: reply_with_def bind_def return_def)
    ultimately show ?thesis
      using enqueue_spec_seqs [of env now later ds cur dev seq "db_tables s" ens "db_tables s1"] small
      by (simp add: parse_seq_stored)
  qed
qed

text \<open>
  C9. The sequence numbers the buffer hands out over any sequence of commands, under any schedule of
  failures, are \<open>seq + 1, seq + 2, ...\<close>: no gap and no duplicate, a failed enqueue using none; and
  the stored counter is the last of them (up to the width of the counter, \<open>2 ^ 64\<close>).
\<close>

theorem serve_seqs:
  assumes "serve env cs s = (rs, s')"
    and "tables_ok (db_tables s)"
    and "parse_seq (t_meta (db_tables s) seq_key) = Inr seq"
    and "seq + length (concat (map handed rs)) < 2 ^ 64"
  shows "map en_seq (concat (map handed rs)) = numbered seq (length (concat (map handed rs))) \<and>
         parse_seq (t_meta (db_tables s') seq_key) = Inr (seq + length (concat (map handed rs)))"
  using assms
proof (induction cs arbitrary: s rs s' seq)
  case (Cons cmd cs)
  obtain now later c where cmd: "cmd = (now, later, c)" by (cases cmd)
  obtain r s1 where r: "serve_command env now later c s = (r, s1)" by fastforce
  show ?case
  proof (cases "c = Close")
    case True
    then have "rs = r # map (\<lambda>_. Inl Closed) cs" "s' = s1"
      using Cons.prems(1) r by (auto simp: cmd)
    with serve_command_seqs [OF r Cons.prems(2,3)] Cons.prems(4)
    show ?thesis by (simp add: handed_closed)
  next
    case False
    obtain rs1 where "serve env cs s1 = (rs1, s')" and rs: "rs = r # rs1"
      using Cons.prems(1) r False by (auto simp: cmd split: prod.splits)
    moreover have "map en_seq (handed r) = numbered seq (length (handed r)) \<and>
         parse_seq (t_meta (db_tables s1) seq_key) = Inr (seq + length (handed r))"
      using serve_command_seqs [OF r Cons.prems(2,3)] Cons.prems(4) rs by simp
    moreover have "tables_ok (db_tables s1)"
      using keepsD [OF keeps_tables_ok_command r] Cons.prems(2) by blast
    ultimately show ?thesis
      using Cons.IH [of s1 rs1 s' "seq + length (handed r)"] Cons.prems(4)
      by (simp add: add.assoc numbered_append)
  qed
qed simp

abbreviation sample_commands :: "(timestamp \<times> timestamp \<times> command) list" where
  "sample_commands \<equiv>
     [(Timestamp 0, Timestamp 0, Enqueue [sample_draft, sample_draft] None None),
      (Timestamp 0, Timestamp 0, DeleteBatch [1]),
      (Timestamp 0, Timestamp 0, Enqueue [sample_draft] None (Some ''other''))]"

lemma sample_commands_length:
  "length (concat (map handed (fst (serve (sample_env 3) sample_commands (calm empty_tables))))) = 3"
  by code_simp

theorem serve_seqs_witness:
  "map en_seq (concat (map handed (fst (serve (sample_env 3) sample_commands (calm empty_tables))))) =
     [1, 2, 3]"
  using serve_seqs [of "sample_env 3" sample_commands "calm empty_tables"
      "fst (serve (sample_env 3) sample_commands (calm empty_tables))"
      "snd (serve (sample_env 3) sample_commands (calm empty_tables))" 0]
  unfolding sample_commands_length
  by (simp add: parse_seq_empty numbered_def upt_rec del: serve.simps)

subsection \<open>The caps\<close>

lemma en_kind_overflow_envelope [simp]: "en_kind (overflow_envelope env later rows n seq) = BufferOverflow"
  by (simp add: overflow_envelope_def overflow_draft_def)

lemma enqueue_spec_pending:
  assumes "enqueue_spec env now later ds cur dev seq t = (ens, t')"
  shows "\<exists>new n. map row_envelope new =
             map (the \<circ> be_render env) (sealed env (case dev of None \<Rightarrow> be_device env | Some d \<Rightarrow> d) seq ds) \<and>
           n = evictions (be_caps env) (t_pending t @ new) \<and>
           (if n = 0 then t_pending t' = t_pending t @ new
            else \<exists>marker. ens \<noteq> [] \<and>
                   last ens = overflow_envelope env later (t_pending t @ new) n
                     (succ64 (seq_after (length ds) seq)) \<and>
                   t_pending t' = drop n (t_pending t @ new) @ [marker] \<and>
                   row_envelope marker = the (be_render env (last ens)) \<and>
                   row_bytes marker = length (row_envelope marker))"
proof -
  define device where "device = (case dev of None \<Rightarrow> be_device env | Some d \<Rightarrow> d)"
  define at where "at = to_rfc3339 (be_utc env) now"
  obtain new where new: "append_sealed env at (sealed env device seq ds) (t_pending t) = t_pending t @ new"
    "map row_envelope new = map (\<lambda>en. the (be_render env en)) (sealed env device seq ds)"
    using append_sealed_append [of env at "sealed env device seq ds" "t_pending t"] by blast
  show ?thesis
    using assms new(2)
    unfolding enqueue_spec_def Let_def device_def [symmetric] at_def [symmetric] new(1)
    by (intro exI [of _ new]) (auto simp: comp_def insert_row_def split: if_splits)
qed

lemma sum_bytes_append [simp]: "sum_bytes (xs @ ys) = sum_bytes xs + sum_bytes ys"
  by (simp add: sum_bytes_def)

text \<open>
  C10. After a committed enqueue the table is within the configured caps: never more than
  \<open>max_rows\<close> rows (for a cap of at least one row), and never more than \<open>max_bytes\<close> bytes when the
  marker it may have added fits the 512 bytes kept free for it.
\<close>

theorem enqueue_within_caps:
  assumes ok: "tables_ok (db_tables s)" and rows: "1 \<le> max_rows (be_caps env)"
    and bytes: "overflow_headroom_bytes \<le> max_bytes (be_caps env)"
    and run: "enqueue env now later ds cur dev s = (Inr ens, s')"
    and marker: "\<forall>en \<in> set ens. en_kind en = BufferOverflow \<longrightarrow>
        length (the (be_render env en)) \<le> overflow_headroom_bytes"
  shows "length (t_pending (db_tables s')) \<le> max_rows (be_caps env) \<and>
         sum_bytes (t_pending (db_tables s')) \<le> max_bytes (be_caps env)"
proof -
  from enqueue_Inr [OF ok run] obtain seq where
    "enqueue_spec env now later ds cur dev seq (db_tables s) = (ens, db_tables s')" by blast
  from enqueue_spec_pending [OF this] obtain new n where
    n: "n = evictions (be_caps env) (t_pending (db_tables s) @ new)" and
    after: "if n = 0 then t_pending (db_tables s') = t_pending (db_tables s) @ new
            else \<exists>marker. ens \<noteq> [] \<and>
                   last ens = overflow_envelope env later (t_pending (db_tables s) @ new) n
                     (succ64 (seq_after (length ds) seq)) \<and>
                   t_pending (db_tables s') = drop n (t_pending (db_tables s) @ new) @ [marker] \<and>
                   row_envelope marker = the (be_render env (last ens)) \<and>
                   row_bytes marker = length (row_envelope marker)"
    by blast
  show ?thesis
  proof (cases "n = 0")
    case True
    with n after evictions_0_iff show ?thesis by metis
  next
    case False
    define kept where "kept = drop n (t_pending (db_tables s) @ new)"
    from False after obtain m where m: "t_pending (db_tables s') = kept @ [m]"
      "row_bytes m = length (the (be_render env (last ens)))"
      "ens \<noteq> []" "en_kind (last ens) = BufferOverflow"
      by (auto simp: kept_def simp del: drop_append)
    then have "row_bytes m \<le> overflow_headroom_bytes" using marker by simp
    moreover
    have "length kept \<le> max_rows (be_caps env) - 1"
      "sum_bytes kept \<le> max_bytes (be_caps env) - overflow_headroom_bytes"
      unfolding kept_def using False evictions_meets n by blast+
    ultimately show ?thesis
      using m(1) rows bytes by (auto simp: sum_bytes_def)
  qed
qed

lemma caps_sample: "be_caps (sample_env n) = \<lparr>max_rows = n, max_bytes = 4096\<rparr>"
  by (simp add: sample_env_def)

lemma sample_numbers:
  "length (dec_nat (Suc 0)) = 1" "length (dec_nat 2) = 1" "length (dec_nat 3) = 1"
  by code_simp+

theorem enqueue_within_caps_witness:
  "length (t_pending (db_tables (snd sample_run))) \<le> 1 \<and> sum_bytes (t_pending (db_tables (snd sample_run))) \<le> 4096"
proof -
  obtain ens s' where run: "sample_run = (Inr ens, s')" and "map en_seq ens = [1, 2, 3]"
    using sample_run_rows by (auto split: prod.splits sum.splits)
  then have "\<forall>en \<in> set ens. en_seq en = 1 \<or> en_seq en = 2 \<or> en_seq en = 3" by auto
  then have "\<forall>en \<in> set ens. length (the (be_render (sample_env 1) en)) \<le> overflow_headroom_bytes"
    using sample_numbers by (auto simp: render_sample overflow_headroom_bytes_def)
  with enqueue_within_caps [OF _ _ _ run] show ?thesis
    unfolding run snd_conv by (simp add: caps_sample overflow_headroom_bytes_def)
qed

text \<open>
  C11. A committed enqueue keeps the newest rows: what goes are the \<open>n\<close> oldest of the rows it found
  and the rows it added, nothing when they are within the caps and otherwise the least number that
  brings the rest under both targets; a marker row then says how many went and when the first and the
  last of them were stored.
\<close>

theorem enqueue_evicts_oldest:
  assumes ok: "tables_ok (db_tables s)"
    and run: "enqueue env now later ds cur dev s = (Inr ens, s')"
  shows "\<exists>new n. let c = be_caps env; rows = t_pending (db_tables s) @ new in
     length new = length ds \<and> n \<le> length rows \<and>
     (n = 0 \<longleftrightarrow> length rows \<le> max_rows c \<and> sum_bytes rows \<le> max_bytes c) \<and>
     (n \<noteq> 0 \<longrightarrow> length (drop n rows) \<le> max_rows c - 1 \<and>
        sum_bytes (drop n rows) \<le> max_bytes c - overflow_headroom_bytes) \<and>
     (\<forall>m < n. \<not> (length rows - m \<le> max_rows c - 1 \<and>
        sum_bytes (drop m rows) \<le> max_bytes c - overflow_headroom_bytes)) \<and>
     (if n = 0 then t_pending (db_tables s') = rows
      else \<exists>marker. t_pending (db_tables s') = drop n rows @ [marker] \<and>
        row_envelope marker = the (be_render env (last ens)) \<and>
        en_payload (last ens) = JObject [(''details'', JObject
          [(''dropped'', JInt (int n)),
           (''dropped_from'', JString (row_created_at (rows ! 0))),
           (''dropped_to'', JString (row_created_at (rows ! (n - 1))))])])"
proof -
  from enqueue_Inr [OF ok run] obtain seq where
    "enqueue_spec env now later ds cur dev seq (db_tables s) = (ens, db_tables s')" by blast
  from enqueue_spec_pending [OF this] obtain new n where
    new: "length new = length ds" and n: "n = evictions (be_caps env) (t_pending (db_tables s) @ new)" and
    after: "if n = 0 then t_pending (db_tables s') = t_pending (db_tables s) @ new
            else \<exists>marker. ens \<noteq> [] \<and>
                   last ens = overflow_envelope env later (t_pending (db_tables s) @ new) n
                     (succ64 (seq_after (length ds) seq)) \<and>
                   t_pending (db_tables s') = drop n (t_pending (db_tables s) @ new) @ [marker] \<and>
                   row_envelope marker = the (be_render env (last ens)) \<and>
                   row_bytes marker = length (row_envelope marker)"
    by (metis length_map length_sealed)
  define rows where "rows = t_pending (db_tables s) @ new"
  show ?thesis
    using after evictions_le [of "be_caps env" rows] evictions_0_iff [of "be_caps env" rows]
      evictions_meets [of "be_caps env" rows] evictions_least [of _ "be_caps env" rows]
    unfolding n rows_def [symmetric] Let_def
    by (intro exI [of _ new] exI [of _ "evictions (be_caps env) rows"])
      (auto simp: new overflow_envelope_def overflow_draft_def simp flip: rows_def)
qed

theorem enqueue_evicts_oldest_witness:
  "\<exists>ens s' marker. sample_run = (Inr ens, s') \<and> t_pending (db_tables s') = [marker] \<and>
     row_envelope marker = the (be_render (sample_env 1) (last ens))"
proof -
  obtain ens s' where run: "sample_run = (Inr ens, s')"
    using sample_run_rows by (auto split: prod.splits sum.splits)
  from enqueue_evicts_oldest [OF _ run] obtain marker where "t_pending (db_tables s') = [marker]"
    "row_envelope marker = the (be_render (sample_env 1) (last ens))"
    by (auto simp: caps_sample Let_def empty_tables_def tables_ok_def ids_ok_def split: if_splits)
  with run show ?thesis by blast
qed

subsection \<open>What reaches the disk\<close>

text \<open>The envelopes the buffer may print: redacted drafts and its own markers.\<close>

definition cleared :: "buffer_env \<Rightarrow> envelope \<Rightarrow> bool" where
  "cleared env en \<longleftrightarrow>
     (\<exists>p. en_payload en = redact_apply (be_parse env) (be_lower env) (be_redactor env) p) \<or>
     (\<exists>later e. en_payload en = dr_payload (overflow_draft later e))"

definition stored_cleared :: "buffer_env \<Rightarrow> tables \<Rightarrow> bool" where
  "stored_cleared env t \<longleftrightarrow>
     (\<forall>r \<in> set (t_pending t). \<exists>en. cleared env en \<and> be_render env en = Some (row_envelope r))"

lemma cleared_into_envelope [intro]:
  "cleared env (into_envelope sha (redact_draft env d) device seq)"
  "cleared env (into_envelope sha (overflow_draft later e) device seq)"
  by (auto simp: cleared_def redact_draft_def)

lemma stored_cleared_insert:
  "stored_cleared env t \<Longrightarrow> cleared env en \<Longrightarrow> be_render env en = Some txt \<Longrightarrow>
     stored_cleared env (t\<lparr>t_pending := insert_row txt b at (t_pending t)\<rparr>)"
  by (auto simp: stored_cleared_def insert_row_def)

lemma keeps_stored_cleared_insert [keeps_intros]:
  "cleared env en \<Longrightarrow> keeps (stored_cleared env) (insert_pending env en at)"
  by (auto simp: insert_pending_def stored_cleared_insert intro!: keeps_intros split: option.split)

lemma keeps_stored_cleared_seal [keeps_intros]:
  "keeps (stored_cleared env) (seal_drafts env device at ds seq)"
  by (induction env device at ds seq rule: seal_drafts.induct)
    (auto simp: Let_def intro!: keeps_intros split: prod.split)

lemma keeps_stored_cleared_command:
  "keeps (stored_cleared env) (serve_command env now later c)"
proof (cases "case c of Enqueue ds cur dev \<Rightarrow> False | _ \<Rightarrow> True")
  case False
  then obtain ds cur dev where "c = Enqueue ds cur dev" by (cases c) auto
  moreover have "keeps (stored_cleared env) (enqueue env now later ds cur dev)"
    unfolding enqueue_def enqueue_body_def Let_def write_seq_def read_seq_def store_cursor_def
      evict_pending_def totals_pending_def plan_eviction_def
    by (auto intro!: keeps_intros simp: stored_cleared_def split: option.split prod.split sum.split)
  ultimately show ?thesis by (auto simp: reply_with_def intro!: keeps_intros)
qed (rule keeps_command, auto simp: stored_cleared_def)

text \<open>
  C12. Nothing unredacted is ever stored: after any sequence of commands on an empty database, under
  any schedule of failures, every row waiting to be shipped is the text of an envelope whose payload
  went through the redactor of the configuration, or of the buffer's own overflow marker.
\<close>

theorem serve_stores_redacted:
  "\<forall>r \<in> set (t_pending (db_tables (snd (serve env cs \<lparr>db_tables = empty_tables, db_faults = fs\<rparr>)))).
     \<exists>en. be_render env en = Some (row_envelope r) \<and>
       ((\<exists>p. en_payload en = redact_apply (be_parse env) (be_lower env) (be_redactor env) p) \<or>
        (\<exists>later e. en_payload en = dr_payload (overflow_draft later e)))"
proof -
  have "stored_cleared env (db_tables (snd (serve env cs \<lparr>db_tables = empty_tables, db_faults = fs\<rparr>)))"
    by (rule keeps_serve [OF keeps_stored_cleared_command]) (simp add: stored_cleared_def empty_tables_def)
  then show ?thesis unfolding stored_cleared_def cleared_def by blast
qed

lemma sample_commands_rows:
  "map row_envelope (t_pending (db_tables (snd (serve (sample_env 3) sample_commands (calm empty_tables))))) =
     [''2'', ''3'']"
  by code_simp

theorem serve_stores_redacted_witness:
  "\<exists>en. be_render (sample_env 3) en = Some ''2'' \<and>
     ((\<exists>p. en_payload en = redact_apply (be_parse (sample_env 3)) (be_lower (sample_env 3))
          (be_redactor (sample_env 3)) p) \<or>
      (\<exists>later e. en_payload en = dr_payload (overflow_draft later e)))"
proof -
  have "''2'' \<in> set (map row_envelope (t_pending (db_tables (snd (serve (sample_env 3) sample_commands
      (calm empty_tables))))))"
    unfolding sample_commands_rows by simp
  from this [unfolded set_map] show ?thesis
  proof (rule imageE)
    fix r
    assume r: "''2'' = row_envelope r"
      "r \<in> set (t_pending (db_tables (snd (serve (sample_env 3) sample_commands (calm empty_tables)))))"
    from bspec [OF serve_stores_redacted r(2)] show ?thesis unfolding r(1) [symmetric] .
  qed
qed

end
