(* ===== verification/Outbox.thy ===== *)
theory Outbox
  imports Buffer_Serve
begin

text \<open>
  The interface the shipper sees of the buffer: a queue of pending records it takes batches from,
  removes acknowledged records of and buries rejected ones from. \<open>outbox\<close> states the laws the
  operations promise whatever fails; \<open>ready_outbox\<close> adds that nothing fails. Both are interpreted on
  the statements of \<open>Buffer\<close>, whose queue is the \<open>pending\<close> table in the order of arrival.
\<close>

subsection \<open>The interface\<close>

locale outbox =
  fixes inv :: "'s \<Rightarrow> bool"
    and queue :: "'s \<Rightarrow> 'r list"
    and grave :: "'s \<Rightarrow> 'g list"
    and ident :: "'r \<Rightarrow> 'i"
    and body :: "'r \<Rightarrow> 'g"
    and take_op :: "nat \<Rightarrow> 's \<Rightarrow> ('e, 'r list) res \<times> 's"
    and delete_op :: "'i list \<Rightarrow> 's \<Rightarrow> ('e, unit) res \<times> 's"
    and bury_op :: "'t \<Rightarrow> 'r list \<Rightarrow> string \<Rightarrow> 's \<Rightarrow> ('e, unit) res \<times> 's"
  assumes distinct_queue: "inv s \<Longrightarrow> distinct (map ident (queue s))"
    and take_frame: "inv s \<Longrightarrow> take_op n s = (got, s') \<Longrightarrow>
          inv s' \<and> queue s' = queue s \<and> grave s' = grave s"
    and take_result: "inv s \<Longrightarrow> take_op n s = (Inr b, s') \<Longrightarrow> b = take n (queue s)"
    and delete_inv: "inv s \<Longrightarrow> delete_op is s = (r, s') \<Longrightarrow> inv s' \<and> grave s' = grave s"
    and delete_error: "inv s \<Longrightarrow> delete_op is s = (Inl e, s') \<Longrightarrow> queue s' = queue s"
    and delete_done: "inv s \<Longrightarrow> delete_op is s = (Inr u, s') \<Longrightarrow>
          queue s' = filter (\<lambda>r. ident r \<notin> set is) (queue s)"
    and bury_inv: "inv s \<Longrightarrow> bury_op now b reason s = (r, s') \<Longrightarrow> inv s'"
    and bury_error: "inv s \<Longrightarrow> bury_op now b reason s = (Inl e, s') \<Longrightarrow>
          queue s' = queue s \<and> grave s' = grave s"
    and bury_done: "inv s \<Longrightarrow> bury_op now b reason s = (Inr u, s') \<Longrightarrow>
          queue s' = filter (\<lambda>r. ident r \<notin> ident ` set b) (queue s) \<and>
          (\<exists>n. grave s' = drop n (grave s @ map body b))"
begin

text \<open>Removing the records a batch was taken from is dropping the head of the queue.\<close>

lemma filter_taken:
  assumes "inv s"
  shows "filter (\<lambda>r. ident r \<notin> ident ` set (take n (queue s))) (queue s) = drop n (queue s)"
proof -
  have d: "distinct (map ident (take n (queue s)) @ map ident (drop n (queue s)))"
    using distinct_queue [OF assms] by (simp flip: map_append)
  then have "\<forall>r \<in> set (drop n (queue s)). ident r \<notin> ident ` set (take n (queue s))" by auto
  then have "filter (\<lambda>r. ident r \<notin> ident ` set (take n (queue s))) (drop n (queue s)) = drop n (queue s)"
    by (simp add: filter_id_conv)
  moreover have "filter (\<lambda>r. ident r \<notin> ident ` set (take n (queue s))) (take n (queue s)) = []"
    by (simp add: filter_empty_conv)
  ultimately show ?thesis
    by (metis append_Nil append_take_drop_id filter_append)
qed

lemma delete_taken:
  "inv s \<Longrightarrow> delete_op (map ident (take n (queue s))) s = (Inr u, s') \<Longrightarrow> queue s' = drop n (queue s)"
  using delete_done [of s "map ident (take n (queue s))" u s'] filter_taken by simp

lemma bury_taken:
  "inv s \<Longrightarrow> bury_op now (take n (queue s)) reason s = (Inr u, s') \<Longrightarrow>
     queue s' = drop n (queue s) \<and> (\<exists>k. grave s' = drop k (grave s @ map body (take n (queue s))))"
  using bury_done [of s now "take n (queue s)" reason u s'] filter_taken by simp

lemma first_in_first_out:
  "inv s \<Longrightarrow> take_op n s = (Inr b, s1) \<Longrightarrow> delete_op (map ident b) s1 = (Inr u, s2) \<Longrightarrow>
     queue s = b @ queue s2 \<and> length b = min n (length (queue s))"
  using take_frame [of s n "Inr b" s1] take_result [of s n b s1] delete_taken [of s1 n u s2] by simp

end

locale ready_outbox = outbox inv queue grave ident body take_op delete_op bury_op
  for inv :: "'s \<Rightarrow> bool" and queue :: "'s \<Rightarrow> 'r list" and grave :: "'s \<Rightarrow> 'g list"
    and ident :: "'r \<Rightarrow> 'i" and body :: "'r \<Rightarrow> 'g"
    and take_op :: "nat \<Rightarrow> 's \<Rightarrow> ('e, 'r list) res \<times> 's"
    and delete_op :: "'i list \<Rightarrow> 's \<Rightarrow> ('e, unit) res \<times> 's"
    and bury_op :: "'t \<Rightarrow> 'r list \<Rightarrow> string \<Rightarrow> 's \<Rightarrow> ('e, unit) res \<times> 's" +
  fixes ready :: "'s \<Rightarrow> bool"
  assumes take_ready: "ready s \<Longrightarrow> take_op n s = (got, s') \<Longrightarrow> ready s' \<and> (\<exists>b. got = Inr b)"
    and delete_ready: "ready s \<Longrightarrow> delete_op is s = (r, s') \<Longrightarrow> ready s' \<and> (\<exists>u. r = Inr u)"
    and bury_ready: "ready s \<Longrightarrow> bury_op now b reason s = (r, s') \<Longrightarrow> ready s' \<and> (\<exists>u. r = Inr u)"

subsection \<open>The buffer's operations\<close>

lemma fault_blind_delete_each [blind_intros]: "fault_blind (delete_each is)"
  by (induction "is") (auto simp: delete_pending_def intro!: blind_intros)

lemma fault_blind_delete_batch [blind_intros]: "fault_blind (delete_batch is)"
  by (auto simp: delete_batch_def intro!: blind_intros)

lemma fault_blind_bury_each [blind_intros]: "fault_blind (bury_each reason at ps)"
  by (induction ps) (auto simp: delete_pending_def intro!: blind_intros)

lemma fault_blind_evict_dead_letter [blind_intros]: "fault_blind evict_dead_letter"
  unfolding evict_dead_letter_def totals_dead_def plan_eviction_def
  by (auto intro!: blind_intros split: option.split prod.split)

lemma fault_blind_dead_letter [blind_intros]: "fault_blind (dead_letter env now ps reason)"
  by (auto simp: dead_letter_def intro!: blind_intros)

lemma delete_each_calm:
  "delete_each is (calm t) =
     (Inr (), calm (t\<lparr>t_pending := filter (\<lambda>r. row_id r \<notin> set is) (t_pending t)\<rparr>))"
  by (induction "is" arbitrary: t)
    (simp_all add: delete_pending_def calm_simps bind_Inr conj_commute)

lemma delete_batch_calm:
  "delete_batch is (calm t) =
     (Inr (), calm (t\<lparr>t_pending := filter (\<lambda>r. row_id r \<notin> set is) (t_pending t)\<rparr>))"
  by (simp add: delete_batch_def delete_each_calm transaction_calm calm_simps)

lemma delete_batch_Inr:
  "delete_batch is s = (Inr u, s') \<Longrightarrow>
     db_tables s' = (db_tables s)\<lparr>t_pending := filter (\<lambda>r. row_id r \<notin> set is) (t_pending (db_tables s))\<rparr>"
  using fault_blind_calm [OF fault_blind_delete_batch, of "is" s u s'] by (simp add: delete_batch_calm)

lemma delete_batch_Inl: "delete_batch is s = (Inl e, s') \<Longrightarrow> db_tables s' = db_tables s"
  by (auto simp: delete_batch_def return_def dest: transaction_Inl split: if_splits)

text \<open>The rows a buried batch adds to the dead letter table, and how many of the oldest then go.\<close>

definition bury_rows :: "string \<Rightarrow> string \<Rightarrow> pending_record list \<Rightarrow> dead_row list \<Rightarrow> dead_row list" where
  "bury_rows reason at ps rows =
     fold (\<lambda>p. insert_dead (pending_envelope p) (pending_bytes p) reason at) ps rows"

definition dead_evictions :: "dead_row list \<Rightarrow> nat" where
  "dead_evictions rows =
     evict_count dead_letter_max_rows dead_letter_max_bytes (length rows) (sum_dead_bytes rows)
       (map dead_bytes rows)"

lemma bury_rows_simps [simp]:
  "bury_rows reason at [] rows = rows"
  "bury_rows reason at (p # ps) rows =
     bury_rows reason at ps (insert_dead (pending_envelope p) (pending_bytes p) reason at rows)"
  by (simp_all add: bury_rows_def)

lemma bury_rows_append:
  "\<exists>new. bury_rows reason at ps rows = rows @ new \<and>
         map dead_envelope new = map pending_envelope ps \<and> map dead_bytes new = map pending_bytes ps \<and>
         (\<forall>r \<in> set new. dead_reason r = reason \<and> dead_at r = at)"
proof (induction ps arbitrary: rows)
  case (Cons p ps)
  from Cons.IH [of "insert_dead (pending_envelope p) (pending_bytes p) reason at rows"] show ?case
    by (auto simp: insert_dead_def)
qed simp

lemma ids_ok_bury_rows [wf_intros]:
  "ids_ok (map dead_id rows) \<Longrightarrow> ids_ok (map dead_id (bury_rows reason at ps rows))"
  by (induction ps arbitrary: rows) (auto intro: wf_intros)

lemma bury_each_calm:
  "bury_each reason at ps (calm t) =
     (Inr (), calm (t\<lparr>t_dead_letter := bury_rows reason at ps (t_dead_letter t),
        t_pending := filter (\<lambda>r. row_id r \<notin> pending_id ` set ps) (t_pending t)\<rparr>))"
  by (induction ps arbitrary: t)
    (simp_all add: delete_pending_def calm_simps bind_Inr conj_commute)

lemma evict_dead_letter_calm:
  assumes "ids_ok (map dead_id (t_dead_letter t))"
  shows "evict_dead_letter (calm t) =
     (Inr (), calm (t\<lparr>t_dead_letter := drop (dead_evictions (t_dead_letter t)) (t_dead_letter t)\<rparr>))"
proof -
  define rows where "rows = t_dead_letter t"
  define n where "n = dead_evictions rows"
  let ?cands = "map (\<lambda>r. (dead_id r, dead_bytes r, dead_at r)) rows"
  have cands: "dead_candidates t = ?cands"
    using assms by (simp add: dead_candidates_def ordered_dead_id rows_def)
  have "n = evict_count dead_letter_max_rows dead_letter_max_bytes (length rows) (sum_dead_bytes rows)
      (map candidate_size ?cands)"
    by (simp add: n_def dead_evictions_def candidate_size_def comp_def)
  note plan = plan_loop_None [OF this]
  have n0: "n = 0" if "length rows \<le> dead_letter_max_rows \<and> sum_dead_bytes rows \<le> dead_letter_max_bytes"
    using that by (cases rows) (auto simp: n_def dead_evictions_def)
  have n: "n \<le> length rows"
    using evict_count_le [of _ _ _ _ "map dead_bytes rows"] by (auto simp: n_def dead_evictions_def)
  have keep: "filter (\<lambda>r. \<not> dead_id r \<le> dead_id (rows ! (n - 1))) rows = drop n rows" if "n \<noteq> 0"
    using filter_sorted_le_drop [of dead_id rows "n - 1"] assms that n
    by (simp add: ids_ok_def rows_def)
  have nth: "?cands ! (n - 1) = (dead_id (rows ! (n - 1)), dead_bytes (rows ! (n - 1)), dead_at (rows ! (n - 1)))"
    if "n \<noteq> 0"
    using that n by (auto intro: nth_map)
  show ?thesis
    using n0 keep plan nth
    by (simp add: evict_dead_letter_def totals_dead_def plan_eviction_def calm_simps cands bind_Inr
        flip: rows_def n_def split: option.split)
qed

text \<open>What a committed \<open>dead_letter\<close> leaves behind.\<close>

definition dead_letter_spec :: "string \<Rightarrow> string \<Rightarrow> pending_record list \<Rightarrow> tables \<Rightarrow> tables" where
  "dead_letter_spec reason at ps t =
     (let dead = bury_rows reason at ps (t_dead_letter t)
      in t\<lparr>t_pending := filter (\<lambda>r. row_id r \<notin> pending_id ` set ps) (t_pending t),
           t_dead_letter := drop (dead_evictions dead) dead\<rparr>)"

lemma dead_letter_calm:
  assumes "tables_ok t" "ps \<noteq> []"
  shows "dead_letter env now ps reason (calm t) =
     (Inr (), calm (dead_letter_spec reason (to_rfc3339 (be_utc env) now) ps t))"
  using assms
  by (simp add: dead_letter_def transaction_calm bury_each_calm bind_Inr evict_dead_letter_calm
      tables_ok_def ids_ok_bury_rows calm_simps dead_letter_spec_def Let_def)

lemma dead_letter_Inr:
  assumes "tables_ok (db_tables s)" "ps \<noteq> []" "dead_letter env now ps reason s = (Inr u, s')"
  shows "db_tables s' = dead_letter_spec reason (to_rfc3339 (be_utc env) now) ps (db_tables s)"
  using fault_blind_calm [OF fault_blind_dead_letter assms(3)] assms(1,2) by (simp add: dead_letter_calm)

lemma dead_letter_Inl: "dead_letter env now ps reason s = (Inl e, s') \<Longrightarrow> db_tables s' = db_tables s"
  by (auto simp: dead_letter_def return_def dest: transaction_Inl split: if_splits)

lemma dead_letter_Nil: "dead_letter env now [] reason s = (Inr (), s)"
  by (simp add: dead_letter_def return_def)

definition pending_queue :: "db \<Rightarrow> pending_record list" where
  "pending_queue s = map pending_of (t_pending (db_tables s))"

definition dead_texts :: "db \<Rightarrow> string list" where
  "dead_texts s = map dead_envelope (t_dead_letter (db_tables s))"

definition db_ok :: "db \<Rightarrow> bool" where
  "db_ok s = tables_ok (db_tables s)"

lemma db_ok_command: "db_ok s \<Longrightarrow> serve_command env now later c s = (r, s') \<Longrightarrow> db_ok s'"
  using keepsD [OF keeps_tables_ok_command] by (auto simp: db_ok_def)

lemma keeps_ok_delete_batch: "keeps tables_ok (delete_batch is)"
  by (auto simp: delete_batch_def tables_ok_intros intro!: keeps_intros)

lemma keeps_ok_dead_letter: "keeps tables_ok (dead_letter env now ps reason)"
  by (auto simp: dead_letter_def tables_ok_intros intro!: keeps_intros)

lemma take_batch_frame: "take_batch n s = (r, s') \<Longrightarrow> db_tables s' = db_tables s"
  by (auto simp: take_batch_def query_def exec_def Let_def split: list.splits bool.splits)

lemma take_batch_Inr:
  assumes "db_ok s" "take_batch n s = (Inr b, s')"
  shows "b = take n (pending_queue s)"
  using assms
  by (auto simp: take_batch_def query_def exec_def Let_def pending_queue_def db_ok_def tables_ok_def
      ordered_id take_map split: list.splits bool.splits)

lemma pending_id_of [simp]: "pending_id (pending_of r) = row_id r"
  "pending_envelope (pending_of r) = row_envelope r" "pending_bytes (pending_of r) = row_bytes r"
  by (simp_all add: pending_of_def)

lemma distinct_pending_queue: "db_ok s \<Longrightarrow> distinct (map pending_id (pending_queue s))"
  by (simp add: db_ok_def tables_ok_def pending_queue_def comp_def distinct_ids_ok)

lemma filter_pending_queue:
  "map pending_of (filter (\<lambda>r. row_id r \<notin> A) rows) = filter (\<lambda>p. pending_id p \<notin> A) (map pending_of rows)"
  by (induction rows) auto

lemma dead_texts_bury:
  "\<exists>n. map dead_envelope (t_dead_letter (dead_letter_spec reason at ps t)) =
     drop n (map dead_envelope (t_dead_letter t) @ map pending_envelope ps)"
proof -
  obtain new where "bury_rows reason at ps (t_dead_letter t) = t_dead_letter t @ new"
    "map dead_envelope new = map pending_envelope ps"
    using bury_rows_append by blast
  then show ?thesis
    unfolding dead_letter_spec_def Let_def
    by (metis (no_types, lifting) drop_map map_append tables.select_convs(3) tables.surjective
        tables.update_convs(3))
qed

interpretation buf: outbox db_ok pending_queue dead_texts pending_id pending_envelope take_batch
  delete_batch "dead_letter env"
proof (unfold_locales, goal_cases)
  case (1 s) then show ?case by (rule distinct_pending_queue)
next
  case (2 s n got s') then show ?case
    using take_batch_frame [of n s got s'] by (auto simp: db_ok_def pending_queue_def dead_texts_def)
next
  case (3 s n b s') then show ?case by (rule take_batch_Inr)
next
  case (4 s "is" r s')
  then show ?case
    using keepsD [OF keeps_ok_delete_batch, of "is" s r s']
    by (cases r) (auto simp: db_ok_def dead_texts_def dest: delete_batch_Inl delete_batch_Inr)
next
  case (5 s "is" e s') then show ?case by (auto simp: pending_queue_def dest: delete_batch_Inl)
next
  case (6 s "is" u s')
  then show ?case
    by (auto simp: pending_queue_def filter_pending_queue dest: delete_batch_Inr)
next
  case (7 s now b reason r s')
  then show ?case using keepsD [OF keeps_ok_dead_letter] by (auto simp: db_ok_def)
next
  case (8 s now b reason e s')
  then show ?case by (auto simp: pending_queue_def dead_texts_def dest: dead_letter_Inl)
next
  case (9 s now b reason u s')
  show ?case
  proof (cases "b = []")
    case True
    with 9 show ?thesis by (auto simp: dead_letter_Nil intro: exI [of _ 0])
  next
    case False
    with 9 have t: "db_tables s' = dead_letter_spec reason (to_rfc3339 (be_utc env) now) b (db_tables s)"
      by (auto simp: db_ok_def dest: dead_letter_Inr)
    have "t_pending (db_tables s') = filter (\<lambda>r. row_id r \<notin> pending_id ` set b) (t_pending (db_tables s))"
      by (simp add: t dead_letter_spec_def Let_def)
    with dead_texts_bury show ?thesis
      by (simp add: pending_queue_def filter_pending_queue dead_texts_def t)
  qed
qed

text \<open>A database on which nothing is scheduled to fail.\<close>

definition calm_db :: "db \<Rightarrow> bool" where
  "calm_db s = (db_ok s \<and> db_faults s = [])"

lemma calm_dbE: "calm_db s \<Longrightarrow> (\<And>t. s = calm t \<Longrightarrow> tables_ok t \<Longrightarrow> thesis) \<Longrightarrow> thesis"
  by (cases s) (auto simp: calm_db_def db_ok_def)

lemma calm_db_calm [simp]: "calm_db (calm t) = tables_ok t"
  by (simp add: calm_db_def db_ok_def)

interpretation calm_buf: ready_outbox db_ok pending_queue dead_texts pending_id pending_envelope
  take_batch delete_batch "dead_letter env" calm_db
proof (unfold_locales, goal_cases)
  case (1 s n got s')
  then show ?case by (elim calm_dbE) (auto simp: take_batch_def query_calm)
next
  case (2 s "is" r s')
  then show ?case by (elim calm_dbE) (auto simp: delete_batch_calm tables_ok_intros)
next
  case (3 s now b reason r s')
  then obtain t where s: "s = calm t" "tables_ok t" by (elim calm_dbE)
  show ?case
  proof (cases "b = []")
    case True
    with 3 show ?thesis by (auto simp: dead_letter_Nil)
  next
    case False
    from dead_letter_calm [OF s(2) this] 3 have
      r: "r = Inr ()" "s' = calm (dead_letter_spec reason (to_rfc3339 (be_utc env) now) b t)"
      by (auto simp: s)
    have "db_ok s'" using buf.bury_inv 3 by (auto simp: calm_db_def)
    with r show ?thesis by (auto simp: db_ok_def)
  qed
qed

text \<open>
  C13. The pending table is a first-in-first-out queue to the shipper: a batch is the oldest records,
  in the order they were stored, and deleting the batch leaves exactly the records behind it.
\<close>

theorem batches_fifo:
  assumes "tables_ok (db_tables s)"
    and "take_batch n s = (Inr batch, s1)"
    and "delete_batch (map pending_id batch) s1 = (Inr u, s2)"
  shows "map pending_of (t_pending (db_tables s)) = batch @ map pending_of (t_pending (db_tables s2)) \<and>
         length batch = min n (length (t_pending (db_tables s)))"
  using buf.first_in_first_out [of s n batch s1 u s2] assms by (simp add: db_ok_def pending_queue_def)

definition sample_row :: "int \<Rightarrow> string \<Rightarrow> pending_row" where
  "sample_row i txt = \<lparr>row_id = i, row_envelope = txt, row_bytes = length txt, row_created_at = ''t''\<rparr>"

definition sample_store :: tables where
  "sample_store = empty_tables\<lparr>t_pending := [sample_row 3 ''a'', sample_row 4 ''b'', sample_row 7 ''c'']\<rparr>"

lemma sample_store_ok [simp]: "tables_ok sample_store"
  by (simp add: sample_store_def sample_row_def tables_ok_def empty_tables_def ids_ok_def)

theorem batches_fifo_witness:
  "\<exists>batch s1 s2. take_batch 2 (calm sample_store) = (Inr batch, s1) \<and> length batch = 2 \<and>
     delete_batch (map pending_id batch) s1 = (Inr (), s2) \<and>
     map pending_of (t_pending sample_store) = batch @ map pending_of (t_pending (db_tables s2))"
proof -
  obtain batch where take: "take_batch 2 (calm sample_store) = (Inr batch, calm sample_store)"
    by (simp add: take_batch_def query_calm)
  obtain s2 where del: "delete_batch (map pending_id batch) (calm sample_store) = (Inr (), s2)"
    by (simp add: delete_batch_calm)
  have three: "length (t_pending sample_store) = 3" by (simp add: sample_store_def)
  from batches_fifo [OF _ take del] take del show ?thesis by (simp add: three)
qed

subsection \<open>The dead letter table\<close>

text \<open>
  C14. Burying a batch moves it whole: a committed \<open>dead_letter\<close> removes exactly the batch's records
  from the queue and appends them, with the reason, to the dead letters, of which the least number of
  oldest then go that brings the table under 5,000 rows and 50 MiB; a failed one changes nothing.
\<close>

theorem dead_letter_moves:
  assumes "tables_ok (db_tables s)" and "ps \<noteq> []"
    and "dead_letter env now ps reason s = (r, s')"
  shows "case r of
      Inl e \<Rightarrow> db_tables s' = db_tables s
    | Inr _ \<Rightarrow>
        t_pending (db_tables s') =
          filter (\<lambda>row. row_id row \<notin> pending_id ` set ps) (t_pending (db_tables s)) \<and>
        (\<exists>new n. map dead_envelope new = map pending_envelope ps \<and>
           (\<forall>d \<in> set new. dead_reason d = reason \<and> dead_at d = to_rfc3339 (be_utc env) now) \<and>
           t_dead_letter (db_tables s') = drop n (t_dead_letter (db_tables s) @ new) \<and>
           length (t_dead_letter (db_tables s')) \<le> dead_letter_max_rows \<and>
           sum_dead_bytes (t_dead_letter (db_tables s')) \<le> dead_letter_max_bytes \<and>
           (\<forall>m < n. \<not> (length (t_dead_letter (db_tables s) @ new) - m \<le> dead_letter_max_rows \<and>
              sum_dead_bytes (drop m (t_dead_letter (db_tables s) @ new)) \<le> dead_letter_max_bytes)))"
proof (cases r)
  case (Inl e)
  with assms(3) show ?thesis by (auto dest: dead_letter_Inl)
next
  case (Inr u)
  let ?at = "to_rfc3339 (be_utc env) now"
  obtain new where new: "bury_rows reason ?at ps (t_dead_letter (db_tables s)) = t_dead_letter (db_tables s) @ new"
    "map dead_envelope new = map pending_envelope ps"
    "\<forall>d \<in> set new. dead_reason d = reason \<and> dead_at d = ?at"
    using bury_rows_append by blast
  define rows where "rows = t_dead_letter (db_tables s) @ new"
  have t: "db_tables s' = dead_letter_spec reason ?at ps (db_tables s)"
    using assms Inr by (auto dest: dead_letter_Inr)
  have dead: "t_dead_letter (db_tables s') = drop (dead_evictions rows) rows"
    by (simp add: t dead_letter_spec_def Let_def new(1) rows_def)
  have n: "dead_evictions rows = evict_count dead_letter_max_rows dead_letter_max_bytes (length rows)
      (sum_dead_bytes rows) (map dead_bytes rows)"
    by (simp add: dead_evictions_def)
  have "length (drop (dead_evictions rows) rows) \<le> dead_letter_max_rows"
    "sum_dead_bytes (drop (dead_evictions rows) rows) \<le> dead_letter_max_bytes"
    using evict_count_meets [OF _ _ n] by (simp_all add: sum_dead_bytes_def drop_map)
  moreover have "\<forall>m < dead_evictions rows. \<not> (length rows - m \<le> dead_letter_max_rows \<and>
      sum_dead_bytes (drop m rows) \<le> dead_letter_max_bytes)"
    using evict_count_least [of "map dead_bytes rows" "length rows" "sum_dead_bytes rows"]
    by (auto simp: n sum_dead_bytes_def drop_map)
  moreover have "t_pending (db_tables s') =
      filter (\<lambda>row. row_id row \<notin> pending_id ` set ps) (t_pending (db_tables s))"
    by (simp add: t dead_letter_spec_def Let_def)
  ultimately show ?thesis
    using new(2,3) dead Inr unfolding rows_def by auto
qed

theorem dead_letter_moves_witness:
  "\<exists>s'. dead_letter (sample_env 9) (Timestamp 0) [pending_of (sample_row 4 ''b'')] ''bad''
      (calm sample_store) = (Inr (), s') \<and>
     map row_id (t_pending (db_tables s')) = [3, 7] \<and>
     set (t_dead_letter (db_tables s')) \<subseteq> {d. dead_envelope d = ''b'' \<and> dead_reason d = ''bad''}"
proof -
  let ?p = "pending_of (sample_row 4 ''b'')"
  obtain s' where run: "dead_letter (sample_env 9) (Timestamp 0) [?p] ''bad'' (calm sample_store) = (Inr (), s')"
    using dead_letter_calm [OF sample_store_ok, of "[?p]"] by simp
  have old: "t_dead_letter sample_store = []"
    "t_pending sample_store = [sample_row 3 ''a'', sample_row 4 ''b'', sample_row 7 ''c'']"
    by (simp_all add: sample_store_def empty_tables_def)
  from dead_letter_moves [OF _ _ run] run show ?thesis
    by (auto simp: old sample_row_def drop_Cons split: nat.splits)
qed

end
