(* ===== verification/Ship.thy ===== *)
theory Ship
  imports Outbox
begin

text \<open>
  The shipper, \<open>src/src/runtime/ship.rs\<close>: what a service's answer means (\<open>decide\<close>), one round
  (\<open>ship_once\<close>), a forced round trip through the whole queue (\<open>drain\<close>) and the loop with its backoff
  (\<open>run\<close>). The \<open>BufferHandle\<close> is a record of its three operations, so that the client is written once
  and read off the buffer's own statements in \<open>handle_of\<close>; the HTTP client is the parameter \<open>post\<close> on
  a world \<open>'w\<close>, \<open>serde_json::from_str::<ServiceResponse>\<close> is the parameter \<open>parse\<close>, and the clock
  the buffer reads when it buries a batch is a function of that world.
\<close>

definition max_batch :: nat where "max_batch = 500"
definition min_batch :: nat where "min_batch = 10"
definition backoff_start :: nat where "backoff_start = 1"
definition backoff_ceiling :: nat where "backoff_ceiling = 300"
definition idle_poll :: nat where "idle_poll = 1"

definition records_path :: string where "records_path = ''/api/v1/records''"

record rejection =
  rej_index :: nat
  rej_reason :: string

record service_response =
  sr_accepted :: nat
  sr_duplicates :: nat
  sr_rejected :: "rejection list option"

record http_response =
  hr_status :: nat
  hr_body :: string

datatype disposition =
    DDelete "rejection list"
  | DKeep string
  | DDeadLetter string
  | DShrink

datatype progress =
    Idle
  | Shipped nat
  | Kept string
  | DeadLettered nat
  | Shrunk nat

subsection \<open>What an answer means\<close>

definition decide_accepted :: "(string \<Rightarrow> service_response option) \<Rightarrow> string \<Rightarrow> nat \<Rightarrow> disposition" where
  "decide_accepted parse body batch_len =
     (case parse body of
        None \<Rightarrow> DKeep ''a 200 whose body is not the documented shape is treated as a 5xx''
      | Some response \<Rightarrow>
          let rejections = (case sr_rejected response of None \<Rightarrow> [] | Some rs \<Rightarrow> rs);
              counted = sat_add (sat_add (sr_accepted response) (sr_duplicates response))
                          (length rejections)
          in if counted \<noteq> batch_len
             then DKeep (''a 200 accounting for '' @ dec_nat counted @ '' of '' @ dec_nat batch_len @
                    '' records is treated as a 5xx'')
             else DDelete rejections)"

definition decide ::
  "(string \<Rightarrow> service_response option) \<Rightarrow> nat \<Rightarrow> string \<Rightarrow> nat \<Rightarrow> disposition" where
  "decide parse status body batch_len =
     (if status = 200 then decide_accepted parse body batch_len
      else if status = 401 \<or> status = 403 \<or> status = 404 \<or> status = 405 \<or> status = 407
      then DKeep (dec_nat status @ '' is a configuration failure, not a bad batch'')
      else if status = 408 \<or> status = 425 \<or> status = 429
      then DKeep (dec_nat status @ '' asks for the same batch again later'')
      else if status = 413 then DShrink
      else if 400 \<le> status \<and> status < 500
      then DDeadLetter (dec_nat status @ '' rejects the batch permanently'')
      else DKeep (dec_nat status @ '' is retryable''))"

datatype ship_error =
    Endpoint string string
  | Client string
  | BufferFailed buffer_error

fun trim_end_slashes :: "string \<Rightarrow> string" where
  "trim_end_slashes s = rev (dropWhile (\<lambda>c. c = CHR ''/'') (rev s))"

text \<open>\<open>render\<close> is \<open>Url::as_str\<close> and \<open>parse_url\<close> is \<open>Url::parse\<close>.\<close>

definition endpoint :: "('u \<Rightarrow> string) \<Rightarrow> (string \<Rightarrow> 'u option) \<Rightarrow> 'u \<Rightarrow> (ship_error, 'u) res" where
  "endpoint render parse_url service_url =
     (let base = trim_end_slashes (render service_url)
      in case parse_url (base @ records_path) of
           None \<Rightarrow> Inl (Endpoint base
                     (''appending `'' @ records_path @ ''` does not produce a url''))
         | Some u \<Rightarrow> Inr u)"

text \<open>The loop of \<open>body_for\<close>: a comma before every record but the first.\<close>

fun push_records :: "bool \<Rightarrow> pending_record list \<Rightarrow> string \<Rightarrow> string" where
  "push_records first [] body = body"
| "push_records first (p # ps) body =
     push_records False ps ((if \<not> first then body @ '','' else body) @ pending_envelope p)"

definition body_for :: "pending_record list \<Rightarrow> string" where
  "body_for batch =
     push_records True batch (CHR ''{'' # CHR 0x22 # ''records'' @ CHR 0x22 # '':['') @ '']}''"

subsection \<open>One round\<close>

record 's handle =
  h_take :: "nat \<Rightarrow> 's \<Rightarrow> (buffer_error, pending_record list) res \<times> 's"
  h_delete :: "int list \<Rightarrow> 's \<Rightarrow> (buffer_error, unit) res \<times> 's"
  h_bury :: "timestamp \<Rightarrow> pending_record list \<Rightarrow> string \<Rightarrow> 's \<Rightarrow> (buffer_error, unit) res \<times> 's"

definition handle_of :: "buffer_env \<Rightarrow> db handle" where
  "handle_of env = \<lparr>h_take = take_batch, h_delete = delete_batch, h_bury = dead_letter env\<rparr>"

text \<open>The outcome of a round: what it reports, the batch size it leaves, the buffer.\<close>

type_synonym 's round = "(buffer_error, progress) res \<times> nat \<times> 's"

definition shrink ::
  "'s handle \<Rightarrow> timestamp \<Rightarrow> nat \<Rightarrow> pending_record list \<Rightarrow> 's \<Rightarrow> 's round" where
  "shrink h now bsize batch s =
     (if bsize \<le> min_batch
      then case h_bury h now batch (''413 at the floor of '' @ dec_nat min_batch @ '' records'') s of
             (Inl e, s) \<Rightarrow> (Inl e, bsize, s)
           | (Inr _, s) \<Rightarrow> (Inr (DeadLettered (length batch)), bsize, s)
      else let bsize = max (length batch div 2) min_batch in (Inr (Shrunk bsize), bsize, s))"

definition settle ::
  "'s handle \<Rightarrow> timestamp \<Rightarrow> nat \<Rightarrow> pending_record list \<Rightarrow> disposition \<Rightarrow> 's \<Rightarrow> 's round" where
  "settle h now bsize batch d s =
     (case d of
        DDelete rejections \<Rightarrow>
          (case h_delete h (map pending_id batch) s of
             (Inl e, s) \<Rightarrow> (Inl e, bsize, s)
           | (Inr _, s) \<Rightarrow> (Inr (Shipped (length (map pending_id batch))), bsize, s))
      | DKeep reason \<Rightarrow> (Inr (Kept reason), bsize, s)
      | DDeadLetter reason \<Rightarrow>
          (case h_bury h now batch reason s of
             (Inl e, s) \<Rightarrow> (Inl e, bsize, s)
           | (Inr _, s) \<Rightarrow> (Inr (DeadLettered (length batch)), bsize, s))
      | DShrink \<Rightarrow> shrink h now bsize batch s)"

definition disposition_of ::
  "(string \<Rightarrow> service_response option) \<Rightarrow> nat \<Rightarrow> string + http_response \<Rightarrow> disposition" where
  "disposition_of parse batch_len answer =
     (case answer of
        Inr response \<Rightarrow> decide parse (hr_status response) (hr_body response) batch_len
      | Inl reason \<Rightarrow> DKeep reason)"

record 'w transport =
  tr_post :: "string \<Rightarrow> 'w \<Rightarrow> (string + http_response) \<times> 'w"
  tr_parse :: "string \<Rightarrow> service_response option"
  tr_clock :: "'w \<Rightarrow> timestamp"

definition ship_once ::
  "'s handle \<Rightarrow> 'w transport \<Rightarrow> nat \<Rightarrow> 's \<Rightarrow> 'w \<Rightarrow> 's round \<times> 'w" where
  "ship_once h tr bsize s w =
     (case h_take h bsize s of
        (Inl e, s) \<Rightarrow> ((Inl e, bsize, s), w)
      | (Inr batch, s) \<Rightarrow>
          if batch = [] then ((Inr Idle, bsize, s), w)
          else let (answer, w) = tr_post tr (body_for batch) w
               in (settle h (tr_clock tr w) bsize batch
                     (disposition_of (tr_parse tr) (length batch) answer) s, w))"

subsection \<open>Draining, and the loop\<close>

text \<open>\<open>drain\<close> loops until the queue is empty or a batch is kept; not returning would be \<open>None\<close>.\<close>

partial_function (option) drain ::
  "'s handle \<Rightarrow> 'w transport \<Rightarrow> nat \<Rightarrow> 's \<Rightarrow> 'w \<Rightarrow>
     ((buffer_error, unit) res \<times> nat \<times> 's \<times> 'w) option" where
  "drain h tr bsize s w =
     (case ship_once h tr bsize s w of
        ((r, bsize, s), w) \<Rightarrow>
          (case r of
             Inl e \<Rightarrow> Some (Inl e, bsize, s, w)
           | Inr p \<Rightarrow>
               (case p of
                  Idle \<Rightarrow> Some (Inr (), bsize, s, w)
                | Kept reason \<Rightarrow> Some (Inr (), bsize, s, w)
                | Shipped n \<Rightarrow> drain h tr bsize s w
                | DeadLettered n \<Rightarrow> drain h tr bsize s w
                | Shrunk n \<Rightarrow> drain h tr bsize s w)))"

text \<open>The pause after a round, in seconds, and the next backoff.\<close>

fun pause_after :: "nat \<Rightarrow> progress \<Rightarrow> nat \<times> nat" where
  "pause_after backoff Idle = (idle_poll, backoff)"
| "pause_after backoff (Kept reason) = (backoff, min (backoff * 2) backoff_ceiling)"
| "pause_after backoff (Shipped n) = (0, backoff_start)"
| "pause_after backoff (DeadLettered n) = (0, backoff_start)"
| "pause_after backoff (Shrunk n) = (0, backoff_start)"

text \<open>
  One turn of the loop is described by the shutdown flag it reads and by what ends its pause:
  the pause itself, a change of the flag, or a shipment asked for through \<open>ShipNow\<close> (which is
  answered once the drain returns).
\<close>

datatype wake = Elapsed | ShutdownChanged | Requested

record turn =
  turn_shutdown :: bool
  turn_wake :: wake

datatype 's ran =
    Stopped nat 's          \<comment> \<open>returned on the shutdown flag\<close>
  | LostBuffer buffer_error
  | Draining                \<comment> \<open>a drain that does not return\<close>
  | Running nat nat 's      \<comment> \<open>still looping after the turns given: backoff, batch size\<close>

fun run ::
  "'s handle \<Rightarrow> 'w transport \<Rightarrow> turn list \<Rightarrow> nat \<Rightarrow> nat \<Rightarrow> 's \<Rightarrow> 'w \<Rightarrow> 's ran \<times> nat" where
  "run h tr [] backoff bsize s w = (Running backoff bsize s, 0)"
| "run h tr (t # ts) backoff bsize s w =
     (if turn_shutdown t then (Stopped bsize s, 0)
      else case ship_once h tr bsize s w of
        ((Inl e, bsize, s), w) \<Rightarrow> (LostBuffer e, 0)
      | ((Inr p, bsize, s), w) \<Rightarrow>
          let (pause, backoff) = pause_after backoff p
          in if pause = 0 \<or> turn_wake t \<noteq> Requested then run h tr ts backoff bsize s w
             else case drain h tr bsize s w of
               None \<Rightarrow> (Draining, 0)
             | Some (Inl e, bsize, s, w) \<Rightarrow> (LostBuffer e, 0)
             | Some (Inr _, bsize, s, w) \<Rightarrow>
                 let (out, answered) = run h tr ts backoff bsize s w in (out, answered + 1))"

end
