(* ===== verification/Ship_Props.thy ===== *)
theory Ship_Props
  imports Ship
begin

text \<open>
  What the shipper guarantees: which answers let go of records, that a round conserves them, that a
  drain returns, delivers everything to a service that takes it, and that batch size and backoff stay
  in their bounds. The lemmas on rounds and drains are proved once over the \<open>outbox\<close> interface.
\<close>

subsection \<open>Which answers let go of records\<close>

definition accounted :: "service_response \<Rightarrow> nat" where
  "accounted r = sr_accepted r + sr_duplicates r + length (case sr_rejected r of None \<Rightarrow> [] | Some rs \<Rightarrow> rs)"

lemma sat_add_exact: "n < 2 ^ 64 - 1 \<Longrightarrow> sat_add (sat_add a b) c = n \<longleftrightarrow> a + b + c = n"
  by (auto simp: sat_add_def min_def)

lemma decide_accepted_delete:
  "n \<le> max_batch \<Longrightarrow> decide_accepted parse body n = DDelete rs \<longleftrightarrow>
     (\<exists>r. parse body = Some r \<and> accounted r = n \<and>
        rs = (case sr_rejected r of None \<Rightarrow> [] | Some rs \<Rightarrow> rs))"
  by (auto simp: decide_accepted_def accounted_def Let_def max_batch_def sat_add_exact split: option.splits)

lemma decide_accepted_cases: "decide_accepted parse body n \<noteq> DShrink"
    "decide_accepted parse body n \<noteq> DDeadLetter reason"
  by (auto simp: decide_accepted_def Let_def split: option.splits)

text \<open>
  Records are let go of only on an answer that says so: a batch is deleted exactly on a 200
  whose body reads as a response that accounts for every record of the batch; it is given up exactly
  on a 4xx that is neither a configuration failure nor a request to come back, and made smaller
  exactly on a 413; every other answer keeps it.
\<close>

theorem decide_outcomes:
  assumes "n \<le> max_batch"
  shows "((\<exists>rs. decide parse status body n = DDelete rs) \<longleftrightarrow>
            status = 200 \<and> (\<exists>r. parse body = Some r \<and> accounted r = n)) \<and>
         ((\<exists>reason. decide parse status body n = DDeadLetter reason) \<longleftrightarrow>
            status \<in> {400 ..< 500} - {401, 403, 404, 405, 407, 408, 413, 425, 429}) \<and>
         (decide parse status body n = DShrink \<longleftrightarrow> status = 413)"
  using decide_accepted_delete [OF assms, of parse body] decide_accepted_cases [of parse body n]
  by (auto simp: decide_def)

theorem decide_outcomes_witness:
  "decide (\<lambda>_. Some \<lparr>sr_accepted = 2, sr_duplicates = 1, sr_rejected = None\<rparr>) 200 ''x'' 3 = DDelete [] \<and>
   (\<exists>reason. decide (\<lambda>_. None) 422 ''x'' 3 = DDeadLetter reason)"
  using decide_outcomes [of 3 "\<lambda>_. Some \<lparr>sr_accepted = 2, sr_duplicates = 1, sr_rejected = None\<rparr>" 200 "''x''"]
    decide_outcomes [of 3 "\<lambda>_. None" 422 "''x''"]
  by (auto simp: accounted_def max_batch_def decide_def decide_accepted_def Let_def sat_add_def)

subsection \<open>The body\<close>

lemma push_records_False:
  "push_records False ps body = body @ concat (map (\<lambda>p. '','' @ pending_envelope p) ps)"
  by (induction ps arbitrary: body) simp_all

lemma join_concat: "join sep (x # xs) = x @ concat (map (\<lambda>e. sep @ e) xs)"
  by (induction xs arbitrary: x) (simp_all add: join_Cons)

lemma push_records_join: "push_records True ps body = body @ join '','' (map pending_envelope ps)"
proof (cases ps)
  case (Cons p qs)
  then show ?thesis
    by (simp only: Cons push_records.simps push_records_False list.map join_concat map_map comp_def) simp
qed simp

subsection \<open>Rounds over the interface\<close>

locale shipper = outbox inv queue grave pending_id pending_envelope "h_take h" "h_delete h" "h_bury h"
  for inv :: "'s \<Rightarrow> bool" and queue :: "'s \<Rightarrow> pending_record list" and grave :: "'s \<Rightarrow> string list"
    and h :: "'s handle"
begin

lemma ship_once_effect:
  assumes "inv s" and "ship_once h tr n s w = ((r, n', s'), w')"
  shows "inv s' \<and> (let batch = take n (queue s); same = (queue s' = queue s \<and> grave s' = grave s);
       d = disposition_of (tr_parse tr) (length batch) (fst (tr_post tr (body_for batch) w)) in
     case r of
       Inl e \<Rightarrow> same \<and> n' = n
     | Inr Idle \<Rightarrow> same \<and> n' = n \<and> w' = w \<and> batch = []
     | Inr (Kept reason) \<Rightarrow> same \<and> n' = n \<and> batch \<noteq> [] \<and> d = DKeep reason
     | Inr (Shrunk m) \<Rightarrow> same \<and> n' = m \<and> m = max (length batch div 2) min_batch \<and> min_batch < n \<and> batch \<noteq> [] \<and>
         d = DShrink
     | Inr (Shipped k) \<Rightarrow> queue s' = drop n (queue s) \<and> grave s' = grave s \<and> n' = n \<and>
         k = length batch \<and> batch \<noteq> [] \<and>
         (\<exists>resp rs. fst (tr_post tr (body_for batch) w) = Inr resp \<and>
            decide (tr_parse tr) (hr_status resp) (hr_body resp) k = DDelete rs)
     | Inr (DeadLettered k) \<Rightarrow> queue s' = drop n (queue s) \<and> n' = n \<and> k = length batch \<and> batch \<noteq> [] \<and>
         ((\<exists>reason. d = DDeadLetter reason) \<or> d = DShrink \<and> n \<le> min_batch) \<and>
         (\<exists>j. grave s' = drop j (grave s @ map pending_envelope batch)))"
proof -
  obtain g s1 where t: "h_take h n s = (g, s1)" by fastforce
  have s1: "inv s1" "queue s1 = queue s" "grave s1 = grave s"
    using take_frame [OF assms(1) t] by auto
  show ?thesis
  proof (cases g)
    case (Inl e)
    with t s1 assms(2) show ?thesis by (auto simp: ship_once_def Let_def)
  next
    case (Inr batch)
    then have b: "batch = take n (queue s)" using take_result assms(1) t by auto
    show ?thesis
    proof (cases "batch = []")
      case True
      with t Inr s1 b assms(2) show ?thesis by (auto simp: ship_once_def Let_def)
    next
      case False
      obtain answer w1 where post: "tr_post tr (body_for batch) w = (answer, w1)" by fastforce
      let ?d = "disposition_of (tr_parse tr) (length batch) answer"
      have run: "settle h (tr_clock tr w1) n batch ?d s1 = (r, n', s')"
        using assms(2) t Inr False post by (auto simp: ship_once_def Let_def)
      have del: "inv s2 \<and> grave s2 = grave s \<and>
          queue s2 = (case q of Inl e \<Rightarrow> queue s | Inr u \<Rightarrow> drop n (queue s))"
        if "h_delete h (map pending_id batch) s1 = (q, s2)" for q s2
        using that s1 unfolding b s1(2) [symmetric]
        by (cases q) (auto dest: delete_inv delete_error delete_taken)
      have bur: "inv s2 \<and> (case q of
            Inl e \<Rightarrow> queue s2 = queue s \<and> grave s2 = grave s
          | Inr u \<Rightarrow> queue s2 = drop n (queue s) \<and>
              (\<exists>j. grave s2 = drop j (grave s @ map pending_envelope batch)))"
        if "h_bury h now batch reason s1 = (q, s2)" for q s2 now reason
        using that s1(1) unfolding b s1(2,3) [symmetric]
        by (cases q) (auto simp del: drop_append dest: bury_inv bury_error bury_taken)
      show ?thesis
      proof (cases ?d)
        case (DDelete rs)
        then obtain resp where "answer = Inr resp"
          "decide (tr_parse tr) (hr_status resp) (hr_body resp) (length batch) = DDelete rs"
          by (cases answer) (auto simp: disposition_of_def)
        moreover obtain q s2 where q: "h_delete h (map pending_id batch) s1 = (q, s2)" by fastforce
        ultimately show ?thesis
          using run DDelete del [OF q] post False b by (cases q) (auto simp: settle_def Let_def)
      next
        case (DKeep reason)
        with run s1 False b post show ?thesis by (auto simp: settle_def Let_def)
      next
        case (DDeadLetter reason)
        obtain q s2 where q: "h_bury h (tr_clock tr w1) batch reason s1 = (q, s2)" by fastforce
        with run DDeadLetter bur [OF q] False b post show ?thesis
          by (cases q) (auto simp: settle_def Let_def)
      next
        case DShrink
        obtain q s2 where q: "h_bury h (tr_clock tr w1) batch
            (''413 at the floor of '' @ dec_nat min_batch @ '' records'') s1 = (q, s2)" by fastforce
        with run DShrink bur [OF q] s1 False b post show ?thesis
          by (cases q; cases "n \<le> min_batch") (auto simp: settle_def shrink_def Let_def)
      qed
    qed
  qed
qed

text \<open>Every round that lets the drain go on makes the queue or the batch smaller.\<close>

definition fuel :: "nat \<Rightarrow> 's \<Rightarrow> nat" where
  "fuel n s = length (queue s) + n"

lemma ship_once_decreases:
  assumes "inv s" "ship_once h tr n s w = ((Inr p, n', s'), w')"
    and "\<And>reason. p \<noteq> Kept reason" "p \<noteq> Idle"
  shows "inv s' \<and> fuel n' s' < fuel n s \<and> n' \<le> n"
  using ship_once_effect [OF assms(1,2)] assms(3,4)
  by (cases p) (auto simp: fuel_def Let_def min_batch_def)

lemma drain_returns: "inv s \<Longrightarrow> \<exists>out. drain h tr n s w = Some out"
proof (induction "fuel n s" arbitrary: n s w rule: less_induct)
  case less
  obtain r n' s' w' where o: "ship_once h tr n s w = ((r, n', s'), w')" by (metis surj_pair)
  show ?case
  proof (cases r)
    case (Inl e)
    with o show ?thesis by (simp add: drain.simps)
  next
    case (Inr p)
    show ?thesis
    proof (cases "p = Idle \<or> (\<exists>reason. p = Kept reason)")
      case True
      with o Inr show ?thesis by (auto simp: drain.simps)
    next
      case False
      with ship_once_decreases [OF less.prems o [unfolded Inr]]
      have "inv s'" "fuel n' s' < fuel n s" by auto
      from less.hyps [OF this(2,1), of w'] False o Inr show ?thesis
        by (cases p) (auto simp: drain.simps)
    qed
  qed
qed

text \<open>A drain only ever takes records off the head of the queue, and never enlarges the batch.\<close>

lemma drain_effect:
  assumes "inv s" "drain h tr n s w = Some (r, n', s', w')"
  shows "inv s' \<and> n' \<le> n \<and> (min_batch \<le> n \<longrightarrow> min_batch \<le> n') \<and> (\<exists>k. queue s' = drop k (queue s))"
  using assms
proof (induction "fuel n s" arbitrary: n s w rule: less_induct)
  case less
  obtain q n1 s1 w1 where o: "ship_once h tr n s w = ((q, n1, s1), w1)" by (metis surj_pair)
  note eff = ship_once_effect [OF less.prems(1) o]
  then have one: "inv s1 \<and> n1 \<le> n \<and> (min_batch \<le> n \<longrightarrow> min_batch \<le> n1) \<and> (\<exists>k. queue s1 = drop k (queue s))"
    by (cases q; cases "projr q")
      (auto simp: Let_def min_batch_def intro: exI [of _ 0])
  show ?case
  proof (cases "\<exists>p. q = Inr p \<and> p \<noteq> Idle \<and> (\<forall>reason. p \<noteq> Kept reason)")
    case True
    then obtain p where p: "q = Inr p" "p \<noteq> Idle" "\<And>reason. p \<noteq> Kept reason" by blast
    with less.prems(2) o have "drain h tr n1 s1 w1 = Some (r, n', s', w')"
      by (cases p) (auto simp: drain.simps)
    with less.hyps [of n1 s1 w1] ship_once_decreases [OF less.prems(1), of tr n w p n1 s1 w1] o p one
    have "inv s' \<and> n' \<le> n1 \<and> (min_batch \<le> n1 \<longrightarrow> min_batch \<le> n') \<and> (\<exists>k. queue s' = drop k (queue s1))"
      by blast
    with one show ?thesis by (metis drop_drop le_trans)
  next
    case False
    with less.prems(2) o have "n' = n1" "s' = s1"
      by (cases q; cases "projr q"; auto simp: drain.simps)+
    with one show ?thesis by simp
  qed
qed

end

subsection \<open>Delivery over the interface\<close>

text \<open>A service that takes the batches of a queue, and a world that is the list of bodies it was sent.\<close>

definition takes_all :: "string list transport \<Rightarrow> nat \<Rightarrow> pending_record list \<Rightarrow> bool" where
  "takes_all tr n q \<longleftrightarrow>
     (\<forall>i < length q. \<forall>w. \<exists>resp rs.
        tr_post tr (body_for (take n (drop i q))) w = (Inr resp, w @ [body_for (take n (drop i q))]) \<and>
        decide (tr_parse tr) (hr_status resp) (hr_body resp) (length (take n (drop i q))) = DDelete rs)"

lemma takes_all_head:
  "takes_all tr n q \<Longrightarrow> q \<noteq> [] \<Longrightarrow> \<exists>resp rs. tr_post tr (body_for (take n q)) w = (Inr resp, w @ [body_for (take n q)]) \<and>
     decide (tr_parse tr) (hr_status resp) (hr_body resp) (length (take n q)) = DDelete rs"
  unfolding takes_all_def by (metis drop0 length_greater_0_conv)

lemma takes_all_tail: "takes_all tr n q \<Longrightarrow> takes_all tr n (drop m q)"
  unfolding takes_all_def by (metis add.commute drop_drop length_drop less_diff_conv)

locale ready_shipper =
  ready_outbox inv queue grave pending_id pending_envelope "h_take h" "h_delete h" "h_bury h" ready
  for inv :: "'s \<Rightarrow> bool" and queue :: "'s \<Rightarrow> pending_record list" and grave :: "'s \<Rightarrow> string list"
    and h :: "'s handle" and ready :: "'s \<Rightarrow> bool"

sublocale ready_shipper \<subseteq> shipper inv queue grave h
  by unfold_locales

context ready_shipper
begin

lemma ship_once_ready:
  assumes "inv s" "ready s" "takes_all tr n (queue s)" "0 < n"
  shows "\<exists>s'. inv s' \<and> ready s' \<and>
     (if queue s = [] then ship_once h tr n s w = ((Inr Idle, n, s'), w) \<and> queue s' = []
      else ship_once h tr n s w =
          ((Inr (Shipped (length (take n (queue s)))), n, s'), w @ [body_for (take n (queue s))]) \<and>
        queue s' = drop n (queue s))"
proof -
  obtain g s1 where t: "h_take h n s = (g, s1)" by fastforce
  have s1: "inv s1" "queue s1 = queue s" "ready s1" "g = Inr (take n (queue s))"
    using take_frame [OF assms(1) t] take_ready [OF assms(2) t] take_result [OF assms(1)] t by auto
  show ?thesis
  proof (cases "queue s = []")
    case True
    with t s1 show ?thesis by (auto simp: ship_once_def)
  next
    case False
    let ?b = "take n (queue s)"
    have b: "?b \<noteq> []" using False assms(4) by simp
    obtain q s2 where d: "h_delete h (map pending_id ?b) s1 = (q, s2)" by fastforce
    have s2: "inv s2" "ready s2" "q = Inr ()" "queue s2 = drop n (queue s)"
      using delete_inv [OF s1(1) d] delete_ready [OF s1(3) d] delete_taken [OF s1(1), of n "()" s2] d s1
      by auto
    obtain resp rs where post: "tr_post tr (body_for ?b) w = (Inr resp, w @ [body_for ?b])"
      "decide (tr_parse tr) (hr_status resp) (hr_body resp) (length ?b) = DDelete rs"
      using takes_all_head [OF assms(3) False] by blast
    have "ship_once h tr n s w = ((Inr (Shipped (length ?b)), n, s2), w @ [body_for ?b])"
      using b post d s2 by (simp add: ship_once_def t s1(4) disposition_of_def settle_def)
    with s2 False show ?thesis by auto
  qed
qed

lemma drain_delivers:
  assumes "inv s" "ready s" "takes_all tr n (queue s)" "0 < n"
  shows "\<exists>chunks s'. drain h tr n s w = Some (Inr (), n, s', w @ map body_for chunks) \<and>
     concat chunks = queue s \<and> (\<forall>c \<in> set chunks. 0 < length c \<and> length c \<le> n) \<and>
     queue s' = [] \<and> inv s' \<and> ready s'"
  using assms
proof (induction "length (queue s)" arbitrary: s w rule: less_induct)
  case less
  from ship_once_ready [OF less.prems, of w] obtain s1 where s1: "inv s1" "ready s1" and
    o: "if queue s = [] then ship_once h tr n s w = ((Inr Idle, n, s1), w) \<and> queue s1 = []
      else ship_once h tr n s w =
          ((Inr (Shipped (length (take n (queue s)))), n, s1), w @ [body_for (take n (queue s))]) \<and>
        queue s1 = drop n (queue s)" by blast
  show ?case
  proof (cases "queue s = []")
    case True
    with o s1 show ?thesis by (intro exI [of _ "[]"] exI [of _ s1]) (simp add: drain.simps)
  next
    case False
    let ?b = "take n (queue s)"
    from False o less.prems(4) have shorter: "length (queue s1) < length (queue s)" by simp
    have "takes_all tr n (queue s1)" using False o takes_all_tail [OF less.prems(3)] by simp
    from less.hyps [OF shorter s1 this less.prems(4), of "w @ [body_for ?b]"] obtain chunks s2 where
      "drain h tr n s1 (w @ [body_for ?b]) = Some (Inr (), n, s2, (w @ [body_for ?b]) @ map body_for chunks)"
      "concat chunks = queue s1" "\<forall>c \<in> set chunks. 0 < length c \<and> length c \<le> n"
      "queue s2 = []" "inv s2" "ready s2" by blast
    with False o less.prems(4) show ?thesis
      by (intro exI [of _ "?b # chunks"] exI [of _ s2]) (simp add: drain.simps)
  qed
qed

end

subsection \<open>The shipper on the buffer\<close>

lemma handle_of_sel [simp]:
  "h_take (handle_of env) = take_batch" "h_delete (handle_of env) = delete_batch"
  "h_bury (handle_of env) = dead_letter env"
  by (simp_all add: handle_of_def)

interpretation ship: shipper db_ok pending_queue dead_texts "handle_of env"
  unfolding shipper_def handle_of_sel by unfold_locales

interpretation calm_ship: ready_shipper db_ok pending_queue dead_texts "handle_of env" calm_db
  unfolding ready_shipper_def handle_of_sel by unfold_locales

text \<open>
  An answer, read from its status and body alone: the service acknowledges a batch of \<open>k\<close> records when
  it says 200 and its body counts exactly \<open>k\<close> of them as accepted, duplicate or rejected; it refuses the
  batch for good with a 4xx that is neither about the configuration nor about coming back later; and
  it finds the body too large with a 413.
\<close>

definition acknowledged :: "(string \<Rightarrow> service_response option) \<Rightarrow> string + http_response \<Rightarrow> nat \<Rightarrow> bool" where
  "acknowledged parse answer k \<longleftrightarrow>
     (\<exists>resp r. answer = Inr resp \<and> hr_status resp = 200 \<and> parse (hr_body resp) = Some r \<and>
        sr_accepted r + sr_duplicates r + (case sr_rejected r of None \<Rightarrow> 0 | Some rs \<Rightarrow> length rs) = k)"

definition refused_for_good :: "string + http_response \<Rightarrow> bool" where
  "refused_for_good answer \<longleftrightarrow>
     (\<exists>resp. answer = Inr resp \<and> hr_status resp \<in> {400 ..< 500} - {401, 403, 404, 405, 407, 408, 413, 425, 429})"

definition found_too_large :: "string + http_response \<Rightarrow> bool" where
  "found_too_large answer \<longleftrightarrow> (\<exists>resp. answer = Inr resp \<and> hr_status resp = 413)"

lemma accounted_parts:
  "accounted r = sr_accepted r + sr_duplicates r + (case sr_rejected r of None \<Rightarrow> 0 | Some rs \<Rightarrow> length rs)"
  by (simp add: accounted_def split: option.split)

lemma disposition_of_answer:
  assumes "k \<le> max_batch"
  shows "(\<exists>rs. disposition_of parse k answer = DDelete rs) \<longleftrightarrow> acknowledged parse answer k"
    and "(\<exists>reason. disposition_of parse k answer = DDeadLetter reason) \<longleftrightarrow> refused_for_good answer"
    and "disposition_of parse k answer = DShrink \<longleftrightarrow> found_too_large answer"
  using decide_outcomes [OF assms, of parse]
  by (cases answer; auto simp: disposition_of_def acknowledged_def refused_for_good_def found_too_large_def
      accounted_parts)+

lemma answers_exclude:
  "acknowledged parse answer k \<Longrightarrow> \<not> refused_for_good answer \<and> \<not> found_too_large answer"
  "refused_for_good answer \<Longrightarrow> \<not> found_too_large answer"
  by (auto simp: acknowledged_def refused_for_good_def found_too_large_def)

text \<open>
  C16. A round conserves the records, whatever SQLite fails at. A round that ends in an error leaves
  queue and dead letters as they were. Without one, the queue loses the batch it posted exactly when
  the service said 200 and accounted for every record of it, and then the dead letters stay the same;
  the batch goes to the end of the dead letters exactly when the service refused it for good or found
  a batch of at most ten records too large; after every other answer both are as they were, and the batch
  is kept for later or, after a 413, made smaller.
\<close>

theorem ship_once_conserves:
  assumes "db_ok s" and "n \<le> max_batch"
    and "ship_once (handle_of env) tr n s w = ((r, n', s'), w')"
  shows "let batch = take n (pending_queue s); answer = fst (tr_post tr (body_for batch) w);
      same = (pending_queue s' = pending_queue s \<and> dead_texts s' = dead_texts s) in
     case r of
       Inl e \<Rightarrow> same \<and> n' = n
     | Inr p \<Rightarrow>
         if batch = [] then p = Idle \<and> same \<and> n' = n
         else if acknowledged (tr_parse tr) answer (length batch)
         then p = Shipped (length batch) \<and> n' = n \<and>
           pending_queue s' = drop n (pending_queue s) \<and> dead_texts s' = dead_texts s
         else if refused_for_good answer \<or> found_too_large answer \<and> n \<le> min_batch
         then p = DeadLettered (length batch) \<and> n' = n \<and> pending_queue s' = drop n (pending_queue s) \<and>
           (\<exists>j. dead_texts s' = drop j (dead_texts s @ map pending_envelope batch))
         else if found_too_large answer
         then p = Shrunk n' \<and> same \<and> n' = max (length batch div 2) min_batch
         else (\<exists>reason. p = Kept reason) \<and> same \<and> n' = n"
proof -
  let ?batch = "take n (pending_queue s)"
  let ?answer = "fst (tr_post tr (body_for ?batch) w)"
  have "length ?batch \<le> max_batch" using assms(2) by simp
  note answer = disposition_of_answer [OF this, of "tr_parse tr" ?answer]
  note effect = ship.ship_once_effect [OF assms(1,3)]
  show ?thesis
  proof (cases r)
    case (Inl e)
    with effect show ?thesis by (simp add: Let_def)
  next
    case (Inr p)
    with effect answer show ?thesis
      using answers_exclude(1) [of "tr_parse tr" ?answer "length ?batch"] answers_exclude(2) [of ?answer]
      by (cases p) (auto simp: Let_def disposition_of_def simp del: drop_append length_take take_eq_Nil)
  qed
qed

definition sample_transport :: "string list transport" where
  "sample_transport =
     \<lparr>tr_post = \<lambda>body w. (Inr \<lparr>hr_status = 200, hr_body = body\<rparr>, w @ [body]),
      tr_parse = \<lambda>body. Some \<lparr>sr_accepted = 2, sr_duplicates = 0, sr_rejected = None\<rparr>,
      tr_clock = \<lambda>_. Timestamp 0\<rparr>"

text \<open>The same service, refusing everything with a 422.\<close>

definition refusing_transport :: "string list transport" where
  "refusing_transport = sample_transport
     \<lparr>tr_post := \<lambda>body w. (Inr \<lparr>hr_status = 422, hr_body = body\<rparr>, w @ [body])\<rparr>"

lemma sample_rounds:
  "fst (fst (ship_once (handle_of (sample_env 9)) sample_transport 2 (calm sample_store) [])) = Inr (Shipped 2)"
  "fst (fst (ship_once (handle_of (sample_env 9)) refusing_transport 2 (calm sample_store) [])) = Inr (DeadLettered 2)"
  by code_simp+

theorem ship_once_conserves_witness:
  "(\<exists>n' s' w'. ship_once (handle_of (sample_env 9)) sample_transport 2 (calm sample_store) [] =
       ((Inr (Shipped 2), n', s'), w') \<and>
     map pending_envelope (pending_queue s') = [''c''] \<and> dead_texts s' = dead_texts (calm sample_store)) \<and>
   (\<exists>n' s' w' j. ship_once (handle_of (sample_env 9)) refusing_transport 2 (calm sample_store) [] =
       ((Inr (DeadLettered 2), n', s'), w') \<and>
     map pending_envelope (pending_queue s') = [''c''] \<and>
     dead_texts s' = drop j (dead_texts (calm sample_store) @ [''a'', ''b'']))"
proof -
  have ok: "db_ok (calm sample_store)" by (simp add: db_ok_def)
  have two: "2 \<le> max_batch" by (simp add: max_batch_def)
  have queue: "pending_queue (calm sample_store) =
      [pending_of (sample_row 3 ''a''), pending_of (sample_row 4 ''b''), pending_of (sample_row 7 ''c'')]"
    by (simp add: pending_queue_def sample_store_def)
  obtain n' s' w' where
    o: "ship_once (handle_of (sample_env 9)) sample_transport 2 (calm sample_store) [] = ((Inr (Shipped 2), n', s'), w')"
    using sample_rounds(1) by (metis prod.collapse)
  have "acknowledged (tr_parse sample_transport) (fst (tr_post sample_transport body w)) 2" for body w
    by (simp add: acknowledged_def sample_transport_def)
  with ship_once_conserves [OF ok two o] o have one:
    "\<exists>n' s' w'. ship_once (handle_of (sample_env 9)) sample_transport 2 (calm sample_store) [] =
       ((Inr (Shipped 2), n', s'), w') \<and>
     map pending_envelope (pending_queue s') = [''c''] \<and> dead_texts s' = dead_texts (calm sample_store)"
    by (simp add: queue sample_row_def Let_def flip: numeral_2_eq_2)
  obtain n2 s2 w2 where
    o2: "ship_once (handle_of (sample_env 9)) refusing_transport 2 (calm sample_store) [] = ((Inr (DeadLettered 2), n2, s2), w2)"
    using sample_rounds(2) by (metis prod.collapse)
  have "\<not> acknowledged parse (fst (tr_post refusing_transport body w)) k \<and>
      refused_for_good (fst (tr_post refusing_transport body w))" for parse body w k
    by (simp add: acknowledged_def refused_for_good_def refusing_transport_def)
  with ship_once_conserves [OF ok two o2] o2 have other:
    "\<exists>n' s' w' j. ship_once (handle_of (sample_env 9)) refusing_transport 2 (calm sample_store) [] =
       ((Inr (DeadLettered 2), n', s'), w') \<and>
     map pending_envelope (pending_queue s') = [''c''] \<and>
     dead_texts s' = drop j (dead_texts (calm sample_store) @ [''a'', ''b''])"
    by (simp add: queue sample_row_def Let_def flip: numeral_2_eq_2)
  from one other show ?thesis by (rule conjI)
qed

text \<open>
  C17. A drain returns: whatever the service answers to each batch and whatever SQLite fails at,
  \<open>drain\<close> ends with the queue empty, with a batch kept for later, or with the buffer lost.
\<close>

theorem drain_terminates:
  assumes "db_ok s"
  shows "\<exists>out. drain (handle_of env) tr n s w = Some out"
  using assms by (rule ship.drain_returns)

theorem drain_terminates_witness:
  "\<exists>out. drain (handle_of (sample_env 9)) sample_transport 2
     \<lparr>db_tables = sample_store, db_faults = [False, True]\<rparr> [] = Some out"
  by (rule drain_terminates) (simp add: db_ok_def)

text \<open>
  A drain delivers: with a service that takes every batch and a database that does not fail,
  \<open>drain\<close> empties the queue, and the bodies it posted are the queued records in the order they were
  stored, each record in exactly one body of at most \<open>n\<close> records.
\<close>

theorem drain_delivers_all:
  assumes "tables_ok t" and "0 < n"
    and "takes_all tr n (map pending_of (t_pending t))"
  shows "\<exists>chunks s'. drain (handle_of env) tr n (calm t) w = Some (Inr (), n, s', w @ map body_for chunks) \<and>
     concat chunks = map pending_of (t_pending t) \<and>
     (\<forall>c \<in> set chunks. 0 < length c \<and> length c \<le> n) \<and> t_pending (db_tables s') = []"
  using calm_ship.drain_delivers [of "calm t" tr n env w] assms
  by (auto simp: db_ok_def pending_queue_def)

text \<open>A service that counts the records of a body by its length: each of the sample is one byte long.\<close>

definition counting_transport :: "string list transport" where
  "counting_transport =
     \<lparr>tr_post = \<lambda>body w. (Inr \<lparr>hr_status = 200, hr_body = body\<rparr>, w @ [body]),
      tr_parse = \<lambda>body. Some \<lparr>sr_accepted = (length body - 13) div 2, sr_duplicates = 0, sr_rejected = None\<rparr>,
      tr_clock = \<lambda>_. Timestamp 0\<rparr>"

lemma sample_queue:
  "map pending_of (t_pending sample_store) =
     [pending_of (sample_row 3 ''a''), pending_of (sample_row 4 ''b''), pending_of (sample_row 7 ''c'')]"
  by (simp add: sample_store_def)

lemma sample_taken: "takes_all counting_transport 2 (map pending_of (t_pending sample_store))"
proof -
  have counts: "\<exists>resp rs. tr_post counting_transport (body_for b) w = (Inr resp, w @ [body_for b]) \<and>
      decide (tr_parse counting_transport) (hr_status resp) (hr_body resp) (length b) = DDelete rs"
    if "(length (body_for b) - 13) div 2 = length b" "length b \<le> 2" for b w
    using that by (simp add: counting_transport_def decide_def decide_accepted_def sat_add_def Let_def)
  let ?q = "[pending_of (sample_row 3 ''a''), pending_of (sample_row 4 ''b''), pending_of (sample_row 7 ''c'')]"
  have "(length (body_for (take 2 (drop i ?q))) - 13) div 2 = length (take 2 (drop i ?q))" if "i < 3" for i
  proof -
    from that have "i = 0 \<or> i = 1 \<or> i = 2" by linarith
    then show ?thesis by (elim disjE) (simp_all add: sample_row_def body_for_def)
  qed
  then show ?thesis
    unfolding takes_all_def sample_queue by (intro allI impI counts) auto
qed

theorem drain_delivers_all_witness:
  "\<exists>chunks s'. drain (handle_of (sample_env 9)) counting_transport 2 (calm sample_store) [] =
       Some (Inr (), 2, s', map body_for chunks) \<and>
     map pending_envelope (concat chunks) = [''a'', ''b'', ''c''] \<and> t_pending (db_tables s') = []"
proof -
  from drain_delivers_all [OF sample_store_ok _ sample_taken, of "sample_env 9" "[]"] obtain chunks s' where
    "drain (handle_of (sample_env 9)) counting_transport 2 (calm sample_store) [] =
       Some (Inr (), 2, s', map body_for chunks)"
    "concat chunks = map pending_of (t_pending sample_store)" "t_pending (db_tables s') = []" by auto
  then show ?thesis
    by (intro exI [of _ chunks] exI [of _ s']) (simp add: sample_queue sample_row_def)
qed

subsection \<open>Batch size and backoff\<close>

fun ran_size :: "'s ran \<Rightarrow> nat option" where
  "ran_size (Stopped n s) = Some n"
| "ran_size (Running b n s) = Some n"
| "ran_size _ = None"

lemma ship_once_size:
  assumes "db_ok s" "ship_once (handle_of env) tr n s w = ((Inr p, n', s'), w')" "min_batch \<le> n"
  shows "db_ok s' \<and> min_batch \<le> n' \<and> n' \<le> n"
  using ship.ship_once_effect [OF assms(1,2)] assms(3)
  by (cases p) (auto simp: Let_def min_batch_def)

text \<open>
  The batch size starts at 500, never falls below 10 and, within one run of the loop, never
  grows: a 413 halves it for good.
\<close>

theorem run_batch_size:
  assumes "db_ok s" and "min_batch \<le> n" and "run (handle_of env) tr ts backoff n s w = (out, answered)"
  shows "case ran_size out of None \<Rightarrow> True | Some n' \<Rightarrow> min_batch \<le> n' \<and> n' \<le> n"
  using assms
proof (induction ts arbitrary: backoff n s w out answered)
  case (Cons t ts)
  obtain r n1 s1 w1 where o: "ship_once (handle_of env) tr n s w = ((r, n1, s1), w1)" by (metis surj_pair)
  show ?case
  proof (cases "turn_shutdown t \<or> (\<exists>e. r = Inl e)")
    case True
    with Cons.prems o show ?thesis by (auto split: if_splits)
  next
    case False
    then obtain p where p: "r = Inr p" by (cases r) auto
    obtain pause b where pb: "pause_after backoff p = (pause, b)" by fastforce
    from ship_once_size [OF Cons.prems(1) o [unfolded p] Cons.prems(2)]
    have one: "db_ok s1" "min_batch \<le> n1" "n1 \<le> n" by auto
    show ?thesis
    proof (cases "pause = 0 \<or> turn_wake t \<noteq> Requested")
      case True
      with Cons.prems(3) False o p pb have "run (handle_of env) tr ts b n1 s1 w1 = (out, answered)" by auto
      from Cons.IH [OF one(1,2) this] one(3) show ?thesis by (auto split: option.splits)
    next
      case paused: False
      obtain q n2 s2 w2 where d: "drain (handle_of env) tr n1 s1 w1 = Some (q, n2, s2, w2)"
        using ship.drain_returns [OF one(1), of env tr n1 w1] by (metis surj_pair)
      have two: "db_ok s2" "n2 \<le> n1" "min_batch \<le> n2"
        using ship.drain_effect [OF one(1) d] one(2) by auto
      show ?thesis
      proof (cases q)
        case (Inl e)
        with Cons.prems(3) False paused o p pb d show ?thesis by auto
      next
        case (Inr u)
        with Cons.prems(3) False paused o p pb d obtain k where
          "run (handle_of env) tr ts b n2 s2 w2 = (out, k)" by (auto split: prod.splits)
        from Cons.IH [OF two(1,3) this] two(2) one(3) show ?thesis by (auto split: option.splits)
      qed
    qed
  qed
qed auto

abbreviation sample_turns :: "turn list" where
  "sample_turns \<equiv> [\<lparr>turn_shutdown = False, turn_wake = Requested\<rparr>, \<lparr>turn_shutdown = True, turn_wake = Elapsed\<rparr>]"

theorem run_batch_size_witness:
  "case ran_size (fst (run (handle_of (sample_env 9)) sample_transport sample_turns 1 500 (calm sample_store) [])) of
     None \<Rightarrow> True | Some n' \<Rightarrow> 10 \<le> n' \<and> n' \<le> 500"
proof -
  obtain out k where
    r: "run (handle_of (sample_env 9)) sample_transport sample_turns 1 500 (calm sample_store) [] = (out, k)"
    by (rule prod.exhaust)
  from run_batch_size [OF _ _ r] show ?thesis
    unfolding r fst_conv by (simp add: db_ok_def min_batch_def split: option.splits)
qed

text \<open>The backoff the loop holds after a sequence of rounds, and how many it has kept in a row.\<close>

definition backoff_after :: "progress list \<Rightarrow> nat" where
  "backoff_after ps = foldl (\<lambda>b p. snd (pause_after b p)) backoff_start ps"

fun streak :: "nat \<Rightarrow> progress \<Rightarrow> nat" where
  "streak k (Kept reason) = k + 1"
| "streak k Idle = k"
| "streak k p = 0"

text \<open>
  The pause before a retry doubles from one second with every batch kept since the service last
  let go of one (an idle poll in between does not reset it) and is never more than five minutes.
\<close>

theorem backoff_doubles:
  "fst (pause_after (backoff_after ps) (Kept reason)) = min (2 ^ foldl streak 0 ps) 300"
proof -
  have "backoff_after ps = min (2 ^ foldl streak 0 ps) backoff_ceiling"
  proof (induction ps rule: rev_induct)
    case (snoc p ps)
    then show ?case
      by (cases p) (simp_all add: backoff_after_def backoff_ceiling_def backoff_start_def min_def)
  qed (simp add: backoff_after_def backoff_ceiling_def backoff_start_def)
  then show ?thesis by (simp add: backoff_ceiling_def)
qed

end
