(* ===== verification/Delivery.thy ===== *)
theory Delivery
  imports Ship_Props
begin

text \<open>
  The buffer's owner thread between its two kinds of client: providers enqueue at any time, also
  while a batch the shipper took is on its way to the service. A state is the database, the batch in
  flight and the ledger of the run: the texts stored, the batches taken to be posted, and every record
  a settlement removed from the queue, with the batch settled. The step relation interleaves the
  providers' commands with the two halves of a round (\<open>take_batch\<close>, then \<open>settle\<close>).
\<close>

record system =
  sys_db :: db
  sys_flight :: "pending_record list"
  sys_deleted :: "(pending_record \<times> pending_record list) list"
  sys_posted :: "pending_record list list"
  sys_stored :: "string list"

definition deleted_by :: "db \<Rightarrow> db \<Rightarrow> pending_record list" where
  "deleted_by s s' =
     map pending_of (filter (\<lambda>r. r \<notin> set (t_pending (db_tables s'))) (t_pending (db_tables s)))"

inductive sys_step :: "buffer_env \<Rightarrow> system \<Rightarrow> system \<Rightarrow> bool" for env where
  provide: "c = Enqueue ds cur dev \<or> c = ReadCursor p k \<or> c = FlushNow \<Longrightarrow>
     serve_command env now later c (sys_db s) = (r, db') \<Longrightarrow>
     sys_step env s (s\<lparr>sys_db := db', sys_stored := sys_stored s @ texts_of env (handed r)\<rparr>)"
| take: "sys_flight s = [] \<Longrightarrow> take_batch n (sys_db s) = (Inr batch, db') \<Longrightarrow>
     sys_step env s (s\<lparr>sys_db := db', sys_flight := batch, sys_posted := sys_posted s @ [batch]\<rparr>)"
| settle: "sys_flight s \<noteq> [] \<Longrightarrow>
     settle (handle_of env) now n (sys_flight s) d (sys_db s) = (r, n', db') \<Longrightarrow>
     sys_step env s (s\<lparr>sys_db := db', sys_flight := [],
       sys_deleted := sys_deleted s @ map (\<lambda>p. (p, sys_flight s)) (deleted_by (sys_db s) db')\<rparr>)"

inductive_cases sys_stepE: "sys_step env s s'"

definition sys_start :: "db \<Rightarrow> system" where
  "sys_start s = \<lparr>sys_db = s, sys_flight = [], sys_deleted = [], sys_posted = [], sys_stored = []\<rparr>"

subsection \<open>The newest row survives an enqueue\<close>

text \<open>
  A text leaves room beside the overflow marker when it fits under the byte target of an eviction.
\<close>

definition fits :: "buffer_env \<Rightarrow> nat \<Rightarrow> bool" where
  "fits env bytes \<longleftrightarrow> bytes + overflow_headroom_bytes \<le> max_bytes (be_caps env)"

definition rows_fit :: "buffer_env \<Rightarrow> pending_row list \<Rightarrow> bool" where
  "rows_fit env rows \<longleftrightarrow> (\<forall>r \<in> set rows. fits env (row_bytes r))"

lemma evictions_keep_last:
  assumes "2 \<le> max_rows (be_caps env)" "rows_fit env rows" "rows \<noteq> []"
  shows "evictions (be_caps env) rows < length rows"
proof (rule ccontr)
  assume "\<not> evictions (be_caps env) rows < length rows"
  then have "length rows - 1 < evictions (be_caps env) rows"
    using assms(3) length_greater_0_conv [of rows] by linarith
  from evictions_least [OF this] have
    "\<not> (length rows - (length rows - 1) \<le> max_rows (be_caps env) - 1 \<and>
        sum_bytes (drop (length rows - 1) rows) \<le> max_bytes (be_caps env) - overflow_headroom_bytes)" .
  moreover have "drop (length rows - 1) rows = [last rows]"
    using assms(3) by (metis append_butlast_last_id append_eq_conv_conj length_butlast)
  ultimately show False
    using assms by (auto simp: fits_def rows_fit_def sum_bytes_def dest!: bspec [of _ _ "last rows"])
qed

lemma enqueue_rows:
  assumes ok: "tables_ok (db_tables s)"
    and run: "enqueue env now later ds cur dev s = (Inr ens, s')"
  shows "\<exists>new tail. ids_ok (map row_id (t_pending (db_tables s) @ new)) \<and>
     t_pending (db_tables s') =
       drop (evictions (be_caps env) (t_pending (db_tables s) @ new)) (t_pending (db_tables s) @ new) @ tail \<and>
     (\<forall>r \<in> set (new @ tail). row_envelope r \<in> set (texts_of env ens) \<and>
        row_bytes r = length (row_envelope r))"
proof -
  define device where "device = (case dev of Some d \<Rightarrow> d | None \<Rightarrow> be_device env)"
  define at where "at = to_rfc3339 (be_utc env) now"
  from enqueue_Inr [OF ok run] obtain seq where
    spec: "enqueue_spec env now later ds cur dev seq (db_tables s) = (ens, db_tables s')" by blast
  define rows where "rows = append_sealed env at (sealed env device seq ds) (t_pending (db_tables s))"
  obtain new where new: "rows = t_pending (db_tables s) @ new"
    "map row_envelope new = map (\<lambda>en. the (be_render env en)) (sealed env device seq ds)"
    "map row_bytes new = map (\<lambda>en. length (the (be_render env en))) (sealed env device seq ds)"
    using append_sealed_append unfolding rows_def by blast
  have ids: "ids_ok (map row_id rows)"
    using ok unfolding rows_def tables_ok_def by (auto intro: wf_intros)
  define n where "n = evictions (be_caps env) rows"
  let ?en = "overflow_envelope env later rows n (succ64 (seq_after (length ds) seq))"
  define tail where "tail = (if n = 0 then []
     else [\<lparr>row_id = next_id (map row_id (drop n rows)), row_envelope = the (be_render env ?en),
            row_bytes = length (the (be_render env ?en)), row_created_at = at\<rparr>])"
  have pend: "t_pending (db_tables s') = drop n rows @ tail" and
    ens: "set (sealed env device seq ds) \<subseteq> set ens" "n \<noteq> 0 \<Longrightarrow> ?en \<in> set ens"
    using spec [symmetric] unfolding enqueue_spec_def Let_def device_def [symmetric] at_def [symmetric] rows_def [symmetric] n_def [symmetric]
    by (auto simp: insert_row_def tail_def split: if_splits)
  have "row_envelope r \<in> set (texts_of env ens) \<and> row_bytes r = length (row_envelope r)"
    if "r \<in> set new" for r
  proof -
    from that obtain i where i: "i < length new" "r = new ! i" by (auto simp: in_set_conv_nth)
    have "length new = length ds" using new(2) by (metis length_map length_sealed)
    with i new(2,3) have "row_envelope r = the (be_render env (sealed env device seq ds ! i))"
      "row_bytes r = length (the (be_render env (sealed env device seq ds ! i)))"
      by (metis length_map length_sealed nth_map)+
    moreover have "sealed env device seq ds ! i \<in> set ens"
      using ens(1) i \<open>length new = length ds\<close> by (auto intro: nth_mem)
    ultimately show ?thesis by (auto simp: texts_of_def)
  qed
  moreover have "row_envelope r \<in> set (texts_of env ens) \<and> row_bytes r = length (row_envelope r)"
    if "r \<in> set tail" for r
    using that ens(2) by (auto simp: tail_def texts_of_def split: if_splits)
  ultimately have "\<forall>r \<in> set (new @ tail). row_envelope r \<in> set (texts_of env ens) \<and>
      row_bytes r = length (row_envelope r)" by auto
  with ids pend show ?thesis unfolding n_def new(1) by blast
qed

subsection \<open>The invariant of the batch in flight\<close>

definition in_step :: "buffer_env \<Rightarrow> system \<Rightarrow> bool" where
  "in_step env s \<longleftrightarrow>
     (let rows = t_pending (db_tables (sys_db s)) in
      db_ok (sys_db s) \<and> rows_fit env rows \<and>
      (\<forall>r \<in> set rows. \<forall>p \<in> set (sys_flight s). row_id r = pending_id p \<longrightarrow> pending_of r = p) \<and>
      (sys_flight s \<noteq> [] \<longrightarrow> (\<exists>r \<in> set rows. \<forall>p \<in> set (sys_flight s). pending_id p \<le> row_id r)) \<and>
      (sys_flight s \<noteq> [] \<longrightarrow> sys_flight s \<in> set (sys_posted s)) \<and>
      (\<forall>(p, batch) \<in> set (sys_deleted s). p \<in> set batch \<and> batch \<in> set (sys_posted s)))"

lemma ids_ok_last: "ids_ok (map row_id rows) \<Longrightarrow> r \<in> set rows \<Longrightarrow> row_id r \<le> row_id (last rows)"
proof (induction rows)
  case (Cons a rows)
  then show ?case by (cases rows) (auto simp: ids_ok_def intro: less_imp_le)
qed simp

lemma in_step_same_tables:
  "in_step env s \<Longrightarrow> db_tables db' = db_tables (sys_db s) \<Longrightarrow> in_step env (s\<lparr>sys_db := db', sys_stored := xs\<rparr>)"
  by (simp add: in_step_def db_ok_def)

lemma in_step_enqueue:
  assumes s: "in_step env s" "2 \<le> max_rows (be_caps env)"
    and run: "enqueue env now later ds cur dev (sys_db s) = (Inr ens, db')"
    and texts: "\<forall>txt \<in> set (texts_of env ens). fits env (length txt)"
  shows "in_step env (s\<lparr>sys_db := db', sys_stored := xs\<rparr>)"
proof -
  define old where "old = t_pending (db_tables (sys_db s))"
  have ok: "tables_ok (db_tables (sys_db s))" and fit: "rows_fit env old"
    using s by (auto simp: in_step_def db_ok_def old_def Let_def)
  have ok': "db_ok db'"
    using keepsD [OF keeps_tables_ok_enqueue run ok] by (simp add: db_ok_def)
  obtain new tail where ids: "ids_ok (map row_id (old @ new))" and
    rows: "t_pending (db_tables db') = drop (evictions (be_caps env) (old @ new)) (old @ new) @ tail" and
    good: "\<forall>r \<in> set (new @ tail). row_envelope r \<in> set (texts_of env ens) \<and>
        row_bytes r = length (row_envelope r)"
    using enqueue_rows [OF ok run] unfolding old_def by blast
  let ?n = "evictions (be_caps env) (old @ new)"
  have fit_new: "rows_fit env (new @ tail)"
    unfolding rows_fit_def using good texts by fastforce
  have fit': "rows_fit env (t_pending (db_tables db'))"
    using fit fit_new unfolding rows rows_fit_def by (auto dest: in_set_dropD)
  have in_flight: "(\<forall>r \<in> set (t_pending (db_tables db')). \<forall>p \<in> set (sys_flight s).
        row_id r = pending_id p \<longrightarrow> pending_of r = p) \<and>
      (\<exists>r \<in> set (t_pending (db_tables db')). \<forall>p \<in> set (sys_flight s). pending_id p \<le> row_id r)"
    if fl: "sys_flight s \<noteq> []"
  proof -
    obtain top where top: "top \<in> set old" "\<forall>p \<in> set (sys_flight s). pending_id p \<le> row_id top"
      using s(1) fl unfolding in_step_def old_def Let_def by blast
    have ne: "old @ new \<noteq> []" using top by auto
    have n: "?n < length (old @ new)"
      using evictions_keep_last [OF s(2) _ ne] fit fit_new by (auto simp: rows_fit_def)
    then have last: "last (old @ new) \<in> set (drop ?n (old @ new))"
      by (metis drop_eq_Nil last_drop last_in_set not_le)
    have top_last: "row_id top \<le> row_id (last (old @ new))"
      using ids_ok_last [OF ids] top by simp
    have "pending_of r = p" if r: "r \<in> set (t_pending (db_tables db'))" and p: "p \<in> set (sys_flight s)"
      and same: "row_id r = pending_id p" for r p
    proof -
      have "r \<in> set (drop ?n (old @ new)) \<or> r \<in> set tail" using r rows by auto
      moreover have "r \<notin> set tail"
      proof
        assume "r \<in> set tail"
        with last have "row_id (last (old @ new)) < row_id r"
          using ok' unfolding db_ok_def tables_ok_def ids_ok_def rows
          by (auto simp: sorted_wrt_append simp del: drop_append)
        with top_last top(2) p same show False by fastforce
      qed
      moreover have "r \<notin> set new"
      proof
        assume "r \<in> set new"
        with top(1) ids have "row_id top < row_id r" by (auto simp: ids_ok_def sorted_wrt_append)
        with top(2) p same show False by fastforce
      qed
      ultimately have "r \<in> set old" by (auto dest: in_set_dropD)
      with s(1) p same show ?thesis unfolding in_step_def old_def Let_def by blast
    qed
    moreover have "last (old @ new) \<in> set (t_pending (db_tables db'))" using last rows by auto
    moreover have "\<forall>p \<in> set (sys_flight s). pending_id p \<le> row_id (last (old @ new))"
      using top(2) top_last by (meson order_trans)
    ultimately show ?thesis by blast
  qed
  show ?thesis
    using s(1) ok' fit' in_flight unfolding in_step_def Let_def by (cases "sys_flight s = []") auto
qed

lemma settle_rows:
  assumes "db_ok s" and run: "settle (handle_of env) now n b d s = (r, n', s')"
  shows "db_ok s' \<and> (t_pending (db_tables s') = t_pending (db_tables s) \<or>
     t_pending (db_tables s') = filter (\<lambda>r. row_id r \<notin> pending_id ` set b) (t_pending (db_tables s)))"
proof -
  have del: "db_ok s2 \<and> (t_pending (db_tables s2) = t_pending (db_tables s) \<or>
      t_pending (db_tables s2) = filter (\<lambda>r. row_id r \<notin> pending_id ` set b) (t_pending (db_tables s)))"
    if "delete_batch (map pending_id b) s = (q, s2)" for q s2
    using that keepsD [OF keeps_ok_delete_batch that] assms(1)
    by (cases q) (auto simp: db_ok_def dest: delete_batch_Inl delete_batch_Inr)
  have bur: "db_ok s2 \<and> (t_pending (db_tables s2) = t_pending (db_tables s) \<or>
      t_pending (db_tables s2) = filter (\<lambda>r. row_id r \<notin> pending_id ` set b) (t_pending (db_tables s)))"
    if "dead_letter env now b reason s = (q, s2)" for q s2 reason
  proof (cases "b = []")
    case True
    with that assms(1) show ?thesis by (auto simp: dead_letter_Nil)
  next
    case False
    with that keepsD [OF keeps_ok_dead_letter that] assms(1) show ?thesis
      by (cases q) (auto simp: db_ok_def dead_letter_spec_def Let_def dest: dead_letter_Inl dead_letter_Inr)
  qed
  show ?thesis
  proof (cases d)
    case (DDelete rs)
    obtain q s2 where q: "delete_batch (map pending_id b) s = (q, s2)" by fastforce
    with run DDelete del [OF q] show ?thesis by (cases q) (auto simp: settle_def)
  next
    case (DKeep reason)
    with run assms(1) show ?thesis by (auto simp: settle_def)
  next
    case (DDeadLetter reason)
    obtain q s2 where q: "dead_letter env now b reason s = (q, s2)" by fastforce
    with run DDeadLetter bur [OF q] show ?thesis by (cases q) (auto simp: settle_def)
  next
    case DShrink
    obtain q s2 where q: "dead_letter env now b (''413 at the floor of '' @ dec_nat min_batch @ '' records'') s = (q, s2)"
      by fastforce
    with run DShrink bur [OF q] assms(1) show ?thesis
      by (cases q; cases "n \<le> min_batch") (auto simp: settle_def shrink_def Let_def)
  qed
qed

text \<open>What a settlement removes was in flight, and the answer did not ask to keep it.\<close>

lemma deleted_in_flight:
  assumes s: "in_step env sys" and run: "settle (handle_of env) now n (sys_flight sys) d (sys_db sys) = (r, n', db')"
    and "q \<in> set (deleted_by (sys_db sys) db')"
  shows "q \<in> set (sys_flight sys) \<and>
     ((\<exists>rs. d = DDelete rs) \<or> (\<exists>reason. d = DDeadLetter reason) \<or> d = DShrink \<and> n \<le> min_batch)"
proof
  obtain row where row: "row \<in> set (t_pending (db_tables (sys_db sys)))" "q = pending_of row"
    "row \<notin> set (t_pending (db_tables db'))"
    using assms(3) by (auto simp: deleted_by_def)
  have "db_ok (sys_db sys)" using s by (simp add: in_step_def Let_def)
  from settle_rows [OF this run] row(1,3) obtain p where p: "p \<in> set (sys_flight sys)" "row_id row = pending_id p"
    by auto
  with s row(1) have "pending_of row = p" by (auto simp: in_step_def Let_def)
  with p(1) row(2) show "q \<in> set (sys_flight sys)" by simp
  show "(\<exists>rs. d = DDelete rs) \<or> (\<exists>reason. d = DDeadLetter reason) \<or> d = DShrink \<and> n \<le> min_batch"
    using run row by (cases d) (auto simp: settle_def shrink_def Let_def split: if_splits)
qed

lemma in_step_settle:
  assumes s: "in_step env s" and fl: "sys_flight s \<noteq> []"
    and run: "settle (handle_of env) now n (sys_flight s) d (sys_db s) = (r, n', db')"
  shows "in_step env (s\<lparr>sys_db := db', sys_flight := [],
     sys_deleted := sys_deleted s @ map (\<lambda>p. (p, sys_flight s)) (deleted_by (sys_db s) db')\<rparr>)"
proof -
  have ok: "db_ok (sys_db s)" using s by (simp add: in_step_def Let_def)
  note rows = settle_rows [OF ok run]
  have "\<forall>p \<in> set (deleted_by (sys_db s) db'). p \<in> set (sys_flight s) \<and> sys_flight s \<in> set (sys_posted s)"
    using deleted_in_flight [OF s run] s fl by (auto simp: in_step_def Let_def)
  with s rows show ?thesis by (auto simp: in_step_def Let_def rows_fit_def)
qed

lemma in_step_take:
  assumes s: "in_step env s" and fl: "sys_flight s = []"
    and run: "take_batch n (sys_db s) = (Inr batch, db')"
  shows "in_step env (s\<lparr>sys_db := db', sys_flight := batch,
     sys_posted := sys_posted s @ [batch]\<rparr>)"
proof -
  define rows where "rows = t_pending (db_tables (sys_db s))"
  have ok: "db_ok (sys_db s)" using s by (simp add: in_step_def Let_def)
  have b: "batch = map pending_of (take n rows)"
    using take_batch_Inr [OF ok run] by (simp add: pending_queue_def rows_def take_map)
  have t: "db_tables db' = db_tables (sys_db s)" using take_batch_frame [OF run] .
  have ids: "ids_ok (map row_id rows)" using ok by (simp add: db_ok_def tables_ok_def rows_def)
  then have inj: "inj_on row_id (set rows)" using distinct_ids_ok by (metis distinct_map)
  have "pending_of r = p" if "r \<in> set rows" "p \<in> set batch" "row_id r = pending_id p" for r p
  proof -
    from that(2) obtain q where "q \<in> set rows" "p = pending_of q"
      unfolding b by (auto dest: in_set_takeD)
    with that(1,3) inj show ?thesis by (auto dest: inj_onD)
  qed
  moreover have "\<exists>r \<in> set rows. \<forall>p \<in> set batch. pending_id p \<le> row_id r" if "batch \<noteq> []"
  proof
    show "last rows \<in> set rows" using that b by (cases rows) auto
    show "\<forall>p \<in> set batch. pending_id p \<le> row_id (last rows)"
      using ids_ok_last [OF ids] unfolding b by (auto dest: in_set_takeD)
  qed
  ultimately show ?thesis
    using s fl by (auto simp: in_step_def Let_def t db_ok_def rows_def)
qed

lemma in_step_provide:
  assumes "in_step env s" "2 \<le> max_rows (be_caps env)"
    and c: "c = Enqueue ds cur dev \<or> c = ReadCursor p k \<or> c = FlushNow"
    and run: "serve_command env now later c (sys_db s) = (r, db')"
    and texts: "\<forall>txt \<in> set (texts_of env (handed r)). fits env (length txt)"
  shows "in_step env (s\<lparr>sys_db := db', sys_stored := xs\<rparr>)"
proof (cases "c = Enqueue ds cur dev")
  case True
  obtain q s1 where q: "enqueue env now later ds cur dev (sys_db s) = (q, s1)" by fastforce
  with run True have "db' = s1" "\<And>ens. q = Inr ens \<Longrightarrow> handed r = ens"
    by (auto simp: reply_with_def bind_def return_def split: sum.splits)
  with q assms(1,2) texts show ?thesis
    by (cases q) (auto intro: in_step_enqueue in_step_same_tables dest: enqueue_Inl)
next
  case False
  with c have c: "c = ReadCursor p k \<or> c = FlushNow" by blast
  have "db_tables db' = db_tables (sys_db s)"
    using run c
    by (auto simp: reply_with_def read_cursor_def checkpoint_def bind_def return_def query_def exec_def
        Let_def split: prod.splits sum.splits list.splits bool.splits)
  with assms(1) show ?thesis by (rule in_step_same_tables)
qed

lemma in_step_reachable:
  assumes "(sys_step env)\<^sup>*\<^sup>* s s'" "in_step env s" "2 \<le> max_rows (be_caps env)"
    and "\<forall>txt \<in> set (sys_stored s'). fits env (length txt)"
  shows "in_step env s'"
  using assms(1,2,4)
proof (induction rule: rtranclp_induct)
  case (step s1 s2)
  have "set (sys_stored s1) \<subseteq> set (sys_stored s2)" using step.hyps(2) by (cases rule: sys_step.cases) auto
  with step.IH step.prems have one: "in_step env s1" by blast
  from step.hyps(2) show ?case
  proof (cases rule: sys_step.cases)
    case (provide c ds cur dev p k now later r db')
    with step.prems(2) have "\<forall>txt \<in> set (texts_of env (handed r)). fits env (length txt)" by simp
    from in_step_provide [OF one assms(3) provide(2,3) this] provide(1) show ?thesis by simp
  next
    case (take n batch db')
    from in_step_take [OF one take(2,3)] take(1) show ?thesis by simp
  next
    case (settle now n d r n' db')
    from in_step_settle [OF one settle(2,3)] settle(1) show ?thesis by simp
  qed
qed

lemma in_step_start:
  "tables_ok t \<Longrightarrow> rows_fit env (t_pending t) \<Longrightarrow> in_step env (sys_start \<lparr>db_tables = t, db_faults = fs\<rparr>)"
  by (simp add: in_step_def sys_start_def db_ok_def)

text \<open>
  C21. An acknowledgement deletes nothing it did not cover: however the providers' enqueues and
  evictions interleave with the shipper's rounds, whatever the service answers and whatever SQLite
  fails at, a record that leaves the queue because a batch was settled is, with its id and its text, in
  that batch, and the batch was posted. This is so for every run with at least two rows allowed and in
  which the rows found at the start and the texts stored have at most \<open>max_bytes\<close> less the headroom of the
  overflow marker; the section after this shows that the first condition is needed.
\<close>

theorem nothing_unsent_deleted:
  assumes "2 \<le> max_rows (be_caps env)" and "tables_ok t"
    and "\<forall>r \<in> set (t_pending t). row_bytes r + overflow_headroom_bytes \<le> max_bytes (be_caps env)"
    and "(sys_step env)\<^sup>*\<^sup>* (sys_start \<lparr>db_tables = t, db_faults = fs\<rparr>) s"
    and "\<forall>txt \<in> set (sys_stored s). length txt + overflow_headroom_bytes \<le> max_bytes (be_caps env)"
  shows "\<forall>(p, batch) \<in> set (sys_deleted s). p \<in> set batch \<and> batch \<in> set (sys_posted s)"
proof -
  have "in_step env (sys_start \<lparr>db_tables = t, db_faults = fs\<rparr>)"
    using assms(2,3) by (intro in_step_start) (simp_all add: rows_fit_def fits_def)
  from in_step_reachable [OF assms(4) this assms(1)] assms(5) show ?thesis
    by (simp add: in_step_def Let_def fits_def)
qed

text \<open>
  A run through an enqueue, a round and its acknowledgement, with a second enqueue while the batch is in
  flight: the databases, the batch and the stored texts after each step.
\<close>

definition sample_enqueue :: "buffer_env \<Rightarrow> db \<Rightarrow> (buffer_error, reply) res \<times> db" where
  "sample_enqueue env = serve_command env (Timestamp 0) (Timestamp 0) (Enqueue [sample_draft] None None)"

definition sample_round :: "buffer_env \<Rightarrow> string list \<times> pending_record list \<times> db \<times> db" where
  "sample_round env =
     (let (r1, d1) = sample_enqueue env (calm empty_tables);
          (b, d2) = take_batch 500 d1;
          (r3, d3) = sample_enqueue env d2;
          batch = (case b of Inl e \<Rightarrow> [] | Inr batch \<Rightarrow> batch)
      in (texts_of env (handed r1 @ handed r3), batch, d3,
          snd (snd (settle (handle_of env) (Timestamp 0) 500 batch (DDelete []) d3))))"

lemma sample_round_reached:
  assumes "sample_round env = (texts, batch, d3, d4)" and "batch \<noteq> []"
  shows "\<exists>s. (sys_step env)\<^sup>*\<^sup>* (sys_start (calm empty_tables)) s \<and> sys_stored s = texts \<and>
     sys_posted s = [batch] \<and> sys_deleted s = map (\<lambda>p. (p, batch)) (deleted_by d3 d4)"
proof -
  let ?s0 = "sys_start (calm empty_tables)"
  obtain r1 d1 where e1: "sample_enqueue env (calm empty_tables) = (r1, d1)" by fastforce
  obtain b d2 where t: "take_batch 500 d1 = (b, d2)" by fastforce
  obtain r3 d3' where e3: "sample_enqueue env d2 = (r3, d3')" by fastforce
  have eqs: "batch = (case b of Inl e \<Rightarrow> [] | Inr batch \<Rightarrow> batch)" "d3' = d3" "texts = texts_of env (handed r1 @ handed r3)"
    "d4 = snd (snd (settle (handle_of env) (Timestamp 0) 500 batch (DDelete []) d3))"
    using assms(1) by (auto simp: sample_round_def e1 t e3 Let_def)
  obtain r4 n4 where st: "settle (handle_of env) (Timestamp 0) 500 batch (DDelete []) d3 = (r4, n4, d4)"
    unfolding eqs(4) by (metis prod.collapse)
  have b: "b = Inr batch" using assms(2) eqs(1) by (cases b) auto
  let ?s1 = "?s0\<lparr>sys_db := d1, sys_stored := texts_of env (handed r1)\<rparr>"
  let ?s2 = "?s1\<lparr>sys_db := d2, sys_flight := batch, sys_posted := [batch]\<rparr>"
  let ?s3 = "?s2\<lparr>sys_db := d3, sys_stored := texts\<rparr>"
  let ?s4 = "?s3\<lparr>sys_db := d4, sys_flight := [], sys_deleted := map (\<lambda>p. (p, batch)) (deleted_by d3 d4)\<rparr>"
  have "sys_step env ?s0 ?s1"
    using e1 sys_step.provide [OF disjI1 [OF refl], of env "Timestamp 0" "Timestamp 0"
        "[sample_draft]" None None ?s0 r1 d1]
    by (simp add: sample_enqueue_def sys_start_def)
  moreover have "sys_step env ?s1 ?s2"
    using sys_step.take [of ?s1 500 batch d2 env] t b by (simp add: sys_start_def)
  moreover have "sys_step env ?s2 ?s3"
    using e3 eqs sys_step.provide [OF disjI1 [OF refl], of env "Timestamp 0" "Timestamp 0"
        "[sample_draft]" None None ?s2 r3 d3]
    by (simp add: sample_enqueue_def texts_of_def)
  moreover have "sys_step env ?s3 ?s4"
    using sys_step.settle [of ?s3 env "Timestamp 0" 500 "DDelete []" r4 n4 d4] st assms(2)
    by (simp add: sys_start_def)
  ultimately have "(sys_step env)\<^sup>*\<^sup>* ?s0 ?s4"
    by (meson rtranclp.rtrancl_into_rtrancl rtranclp.rtrancl_refl)
  then show ?thesis by (intro exI [of _ ?s4]) simp
qed

lemma sample_round_rows:
  "case sample_round (sample_env 9) of (texts, batch, d3, d4) \<Rightarrow>
     texts = [''1'', ''2''] \<and> map pending_envelope batch = [''1''] \<and> map pending_envelope (deleted_by d3 d4) = [''1'']"
  by code_simp

theorem nothing_unsent_deleted_witness:
  "\<exists>s p batch. (sys_step (sample_env 9))\<^sup>*\<^sup>* (sys_start (calm empty_tables)) s \<and>
     sys_deleted s = [(p, batch)] \<and> pending_envelope p = ''1'' \<and> p \<in> set batch \<and> batch \<in> set (sys_posted s)"
proof -
  obtain texts batch d3 d4 where run: "sample_round (sample_env 9) = (texts, batch, d3, d4)" by (metis surj_pair)
  from sample_round_rows have rows: "texts = [''1'', ''2'']" "map pending_envelope batch = [''1'']"
    "map pending_envelope (deleted_by d3 d4) = [''1'']" unfolding run by auto
  then have "batch \<noteq> []" by auto
  from sample_round_reached [OF run this] obtain s where
    s: "(sys_step (sample_env 9))\<^sup>*\<^sup>* (sys_start (calm empty_tables)) s" "sys_stored s = texts"
      "sys_deleted s = map (\<lambda>p. (p, batch)) (deleted_by d3 d4)" by blast
  obtain p where p: "deleted_by d3 d4 = [p]" "pending_envelope p = ''1''" using rows(3) by auto
  have "\<forall>(p, batch) \<in> set (sys_deleted s). p \<in> set batch \<and> batch \<in> set (sys_posted s)"
    by (rule nothing_unsent_deleted [OF _ tables_ok_empty _ s(1)])
      (simp_all add: caps_sample empty_tables_def overflow_headroom_bytes_def s(2) rows(1))
  with s(1,3) p show ?thesis by (intro exI [of _ s] exI [of _ p] exI [of _ batch]) simp
qed

subsection \<open>Without the room\<close>

text \<open>
  The smallest accepted cap, one row, shows what the room is for. Row ids are reused once the table
  is empty: an enqueue while a batch is in flight evicts the whole table, its overflow marker gets the
  id of a record in the batch, and the acknowledgement of the batch deletes the marker, which was
  never posted.
\<close>

lemma reuse_rows:
  "case sample_round (sample_env 1) of (texts, batch, d3, d4) \<Rightarrow>
     map pending_envelope batch = [''1''] \<and> map pending_envelope (deleted_by d3 d4) = [''3'']"
  by code_simp

text \<open>
  Without that room an unsent record can be deleted: with the smallest cap, one row, there is a
  run in which the buffer's own overflow marker is deleted on the acknowledgement of a batch it was
  not in, because it was given the row id of a record in flight.
\<close>

theorem marker_deleted_unsent:
  "\<exists>s p batch. (sys_step (sample_env 1))\<^sup>*\<^sup>* (sys_start (calm empty_tables)) s \<and>
     sys_posted s = [batch] \<and> map pending_envelope batch = [''1''] \<and>
     sys_deleted s = [(p, batch)] \<and> pending_envelope p = ''3''"
proof -
  obtain texts batch d3 d4 where run: "sample_round (sample_env 1) = (texts, batch, d3, d4)" by (metis surj_pair)
  from reuse_rows have rows: "map pending_envelope batch = [''1'']"
    "map pending_envelope (deleted_by d3 d4) = [''3'']" unfolding run by auto
  then have "batch \<noteq> []" by auto
  from sample_round_reached [OF run this] rows show ?thesis by auto
qed

end
