(* ===== verification/Text_Scan.thy ===== *)
theory Text_Scan
  imports Prelude
begin

text \<open>
  Scanning text by characters, over its UTF-8 bytes: the standard library's \<open>trim_start\<close>,
  \<open>trim_end_matches\<close> and \<open>split\<close> with a predicate on characters. \<open>ws_len\<close> is the length in bytes
  of the white space character a text begins with (\<open>char::is_whitespace\<close>, the Unicode property
  \<open>White_Space\<close>), 0 when it begins with another.
\<close>

definition byte :: "char \<Rightarrow> nat" where
  "byte c = of_char c"

definition ws1 :: "nat \<Rightarrow> bool" where
  "ws1 x \<longleftrightarrow> 9 \<le> x \<and> x \<le> 13 \<or> x = 32"

definition ws2 :: "nat \<Rightarrow> nat \<Rightarrow> bool" where
  "ws2 x y \<longleftrightarrow> x = 0xC2 \<and> (y = 0x85 \<or> y = 0xA0)"

definition ws3 :: "nat \<Rightarrow> nat \<Rightarrow> nat \<Rightarrow> bool" where
  "ws3 x y z \<longleftrightarrow>
     x = 0xE1 \<and> y = 0x9A \<and> z = 0x80 \<or>
     x = 0xE2 \<and> y = 0x80 \<and> (0x80 \<le> z \<and> z \<le> 0x8A \<or> z = 0xA8 \<or> z = 0xA9 \<or> z = 0xAF) \<or>
     x = 0xE2 \<and> y = 0x81 \<and> z = 0x9F \<or>
     x = 0xE3 \<and> y = 0x80 \<and> z = 0x80"

fun ws_len :: "string \<Rightarrow> nat" where
  "ws_len [] = 0"
| "ws_len (a # s) =
     (if ws1 (byte a) then 1
      else case s of
        [] \<Rightarrow> 0
      | b # s \<Rightarrow>
          if ws2 (byte a) (byte b) then 2
          else case s of
            [] \<Rightarrow> 0
          | c # s \<Rightarrow> if ws3 (byte a) (byte b) (byte c) then 3 else 0)"

lemma ws_len_pos: "0 < ws_len s \<Longrightarrow> length s - ws_len s < length s"
  by (cases s) (simp_all del: ws_len.simps(2))

function trim_start :: "string \<Rightarrow> string" where
  "trim_start s = (if ws_len s = 0 then s else trim_start (drop (ws_len s) s))"
  by pat_completeness auto

termination
  by (relation "measure length") (auto simp: ws_len_pos)

declare trim_start.simps [simp del]

definition trim_end_matches :: "(char \<Rightarrow> bool) \<Rightarrow> string \<Rightarrow> string" where
  "trim_end_matches p s = rev (dropWhile p (rev s))"

text \<open>\<open>trim_end\<close> and \<open>trim\<close>: the white space character a reversed text begins with ends the text.\<close>

fun ws_len_rev :: "string \<Rightarrow> nat" where
  "ws_len_rev [] = 0"
| "ws_len_rev (c # s) =
     (if ws1 (byte c) then 1
      else case s of
        [] \<Rightarrow> 0
      | b # s \<Rightarrow>
          if ws2 (byte b) (byte c) then 2
          else case s of
            [] \<Rightarrow> 0
          | a # s \<Rightarrow> if ws3 (byte a) (byte b) (byte c) then 3 else 0)"

lemma ws_len_rev_pos: "0 < ws_len_rev s \<Longrightarrow> length s - ws_len_rev s < length s"
  by (cases s) (simp_all del: ws_len_rev.simps(2))

function trim_rev :: "string \<Rightarrow> string" where
  "trim_rev s = (if ws_len_rev s = 0 then s else trim_rev (drop (ws_len_rev s) s))"
  by pat_completeness auto

termination
  by (relation "measure length") (auto simp: ws_len_rev_pos)

declare trim_rev.simps [simp del]

definition trim_end :: "string \<Rightarrow> string" where
  "trim_end s = rev (trim_rev (rev s))"

definition trim :: "string \<Rightarrow> string" where
  "trim s = trim_end (trim_start s)"

text \<open>
  \<open>split\<close> at the characters \<open>sep\<close> finds: \<open>sep s\<close> is the length of the separator a text begins with.
\<close>

function split_where :: "(string \<Rightarrow> nat) \<Rightarrow> string \<Rightarrow> string list" where
  "split_where sep [] = [[]]"
| "split_where sep (c # cs) =
     (if 0 < sep (c # cs) then [] # split_where sep (drop (sep (c # cs) - 1) cs)
      else case split_where sep cs of [] \<Rightarrow> [[c]] | f # fs \<Rightarrow> (c # f) # fs)"
  by pat_completeness auto

termination by (relation "measure (\<lambda>(sep, s). length s)") auto

lemma split_where_not_Nil [simp]: "split_where sep s \<noteq> []"
  by (cases s) (auto split: list.splits)

lemma trim_start_suffix: "\<exists>p. s = p @ trim_start s"
proof (induction s rule: trim_start.induct)
  case (1 s)
  show ?case
  proof (cases "ws_len s = 0")
    case True
    then show ?thesis using trim_start.simps [of s] by simp
  next
    case False
    with 1 obtain p where p: "drop (ws_len s) s = p @ trim_start (drop (ws_len s) s)" by blast
    have "trim_start s = trim_start (drop (ws_len s) s)" using False trim_start.simps [of s] by simp
    with p have "s = (take (ws_len s) s @ p) @ trim_start s"
      using append_take_drop_id [of "ws_len s" s] by simp
    then show ?thesis by blast
  qed
qed

lemma ws_len_trim_start [simp]: "ws_len (trim_start s) = 0"
proof (induction s rule: trim_start.induct)
  case (1 s)
  show ?case
  proof (cases "ws_len s = 0")
    case True
    then show ?thesis using trim_start.simps [of s] by simp
  next
    case False
    then show ?thesis using trim_start.simps [of s] 1 by simp
  qed
qed

end
