(* ===== verification/Claude_Lines.thy ===== *)
theory Claude_Lines
  imports Records Text_Scan
begin

text \<open>
  What one line of a Claude Code transcript becomes, \<open>drafts_from_line\<close> and the functions below it in
  \<open>src/src/providers/claude_code.rs\<close>. The line is parsed JSON; \<open>parse_ts\<close> is \<open>chrono\<close>'s RFC 3339
  parser, in milliseconds; the \<open>RepoLookup\<close> trait object of the context is the function
  \<open>lc_repo_of\<close>.
\<close>

subsection \<open>Roles, kinds and tags\<close>

datatype role = User | Assistant

fun role_as_str :: "role \<Rightarrow> string" where
  "role_as_str User = ''user''"
| "role_as_str Assistant = ''assistant''"

datatype message_kind =
    Prompt | Command | CommandOutput | Notification | CompactSummary | Text

fun message_kind_as_str :: "message_kind \<Rightarrow> string" where
  "message_kind_as_str Prompt = ''prompt''"
| "message_kind_as_str Command = ''command''"
| "message_kind_as_str CommandOutput = ''command_output''"
| "message_kind_as_str Notification = ''notification''"
| "message_kind_as_str CompactSummary = ''compact_summary''"
| "message_kind_as_str Text = ''text''"

datatype leading_tag =
    CommandName | CommandMessage | BashInput | LocalCommandStdout | LocalCommandStderr
  | BashStdout | BashStderr | TaskNotification

definition leading_tags :: "(string \<times> leading_tag) list" where
  "leading_tags =
     [(''<command-name>'', CommandName),
      (''<command-message>'', CommandMessage),
      (''<bash-input>'', BashInput),
      (''<local-command-stdout>'', LocalCommandStdout),
      (''<local-command-stderr>'', LocalCommandStderr),
      (''<bash-stdout>'', BashStdout),
      (''<bash-stderr>'', BashStderr),
      (''<task-notification>'', TaskNotification)]"

fun first_tag :: "(string \<times> leading_tag) list \<Rightarrow> string \<Rightarrow> leading_tag option" where
  "first_tag [] txt = None"
| "first_tag ((pre, tag) # tags) txt =
     (if starts_with txt pre then Some tag else first_tag tags txt)"

definition leading_tag_of :: "string \<Rightarrow> leading_tag option" where
  "leading_tag_of txt = first_tag leading_tags (trim_start txt)"

fun tag_message_kind :: "leading_tag \<Rightarrow> message_kind" where
  "tag_message_kind CommandName = Command"
| "tag_message_kind CommandMessage = Command"
| "tag_message_kind BashInput = Command"
| "tag_message_kind LocalCommandStdout = CommandOutput"
| "tag_message_kind LocalCommandStderr = CommandOutput"
| "tag_message_kind BashStdout = CommandOutput"
| "tag_message_kind BashStderr = CommandOutput"
| "tag_message_kind TaskNotification = Notification"

subsection \<open>Reading a line\<close>

datatype touches = Collected | Skipped

record line_context =
  lc_profile :: string
  lc_repo_of :: "string \<Rightarrow> string option"
  lc_touches :: touches
  lc_fallback_session_id :: string
  lc_last_message_ts :: "timestamp option"
  lc_file_modified :: timestamp

record line_outcome =
  lo_drafts :: "record_draft list"
  lo_message_ts :: "timestamp option"

definition no_outcome :: line_outcome where
  "no_outcome = \<lparr>lo_drafts = [], lo_message_ts = None\<rparr>"

definition flag :: "json \<Rightarrow> string \<Rightarrow> bool" where
  "flag line k = (case Option.bind (json_get line k) as_bool of None \<Rightarrow> False | Some b \<Rightarrow> b)"

definition line_timestamp :: "(string \<Rightarrow> int option) \<Rightarrow> json \<Rightarrow> timestamp option" where
  "line_timestamp parse_ts line =
     Option.bind (get_str line ''timestamp'') (\<lambda>s. map_option Timestamp (parse_ts s))"

definition session_id_of :: "json \<Rightarrow> line_context \<Rightarrow> string" where
  "session_id_of line ctx =
     (case get_str line ''sessionId'' of
        None \<Rightarrow> lc_fallback_session_id ctx
      | Some sid \<Rightarrow> if sid = [] then lc_fallback_session_id ctx else sid)"

fun block_texts :: "json list \<Rightarrow> string list" where
  "block_texts [] = []"
| "block_texts (b # bs) =
     (if get_str b ''type'' \<noteq> Some ''text'' then block_texts bs
      else case get_str b ''text'' of None \<Rightarrow> block_texts bs | Some txt \<Rightarrow> txt # block_texts bs)"

fun text_blocks :: "json option \<Rightarrow> string list" where
  "text_blocks (Some (JString txt)) = [txt]"
| "text_blocks (Some (JArray bs)) = block_texts bs"
| "text_blocks _ = []"

definition message_path :: "string list" where
  "message_path = [''message'', ''content'']"

definition block_kind :: "role \<Rightarrow> bool \<Rightarrow> string \<Rightarrow> message_kind" where
  "block_kind rl compact txt =
     (case rl of
        Assistant \<Rightarrow> Text
      | User \<Rightarrow>
          if compact then CompactSummary
          else case leading_tag_of txt of Some tag \<Rightarrow> tag_message_kind tag | None \<Rightarrow> Prompt)"

definition message_payload ::
  "string \<Rightarrow> string \<Rightarrow> nat \<Rightarrow> role \<Rightarrow> message_kind \<Rightarrow> string \<Rightarrow> string \<Rightarrow> string option \<Rightarrow> string \<Rightarrow> obj" where
  "message_payload sid uid blk rl mk txt cwd branch prof =
     [(''session_id'', JString sid), (''uuid'', JString uid), (''block'', JInt (int blk)),
      (''role'', JString (role_as_str rl)), (''message_kind'', JString (message_kind_as_str mk)),
      (''text'', JString txt), (''cwd'', JString cwd)] @
     (case branch of
        None \<Rightarrow> []
      | Some b \<Rightarrow> if b = [] then [] else [(''git_branch'', JString b)]) @
     [(''profile'', JString prof)]"

definition message_draft ::
  "json \<Rightarrow> role \<Rightarrow> line_context \<Rightarrow> bool \<Rightarrow> string \<Rightarrow> timestamp \<Rightarrow> nat \<Rightarrow> string \<Rightarrow> record_draft" where
  "message_draft line rl ctx compact uid ts blk txt =
     \<lparr>dr_provider = ClaudeCode, dr_kind = Message, dr_ts = ts, dr_degraded = False,
      dr_payload = JObject (message_payload (session_id_of line ctx) uid blk rl (block_kind rl compact txt) txt
        (case get_str line ''cwd'' of None \<Rightarrow> [] | Some c \<Rightarrow> c) (get_str line ''gitBranch'') (lc_profile ctx)),
      dr_key = ClaudeMessage (session_id_of line ctx) uid blk\<rparr>"

definition message_drafts ::
  "(string \<Rightarrow> int option) \<Rightarrow> json \<Rightarrow> role \<Rightarrow> line_context \<Rightarrow> line_outcome" where
  "message_drafts parse_ts line rl ctx =
     (if flag line ''isSidechain'' then no_outcome
      else if rl = User \<and> flag line ''isMeta'' then no_outcome
      else let compact = (rl = User \<and> flag line ''isCompactSummary'') in
        case get_str line ''uuid'' of
          None \<Rightarrow> no_outcome
        | Some uid \<Rightarrow>
            (case line_timestamp parse_ts line of
               None \<Rightarrow> no_outcome
             | Some ts \<Rightarrow>
                 let texts = text_blocks (json_path line message_path)
                 in if texts = [] then no_outcome
                    else \<lparr>lo_drafts = map (\<lambda>(blk, txt). message_draft line rl ctx compact uid ts blk txt)
                            (zip [0 ..< length texts] texts),
                          lo_message_ts = Some ts\<rparr>))"

definition session_drafts ::
  "(string \<Rightarrow> int option) \<Rightarrow> json \<Rightarrow> string \<Rightarrow> string \<Rightarrow> line_context \<Rightarrow> line_outcome" where
  "session_drafts parse_ts line field value_key ctx =
     (case get_str line value_key of
        None \<Rightarrow> no_outcome
      | Some val \<Rightarrow>
          if val = [] then no_outcome
          else let ts = (case line_timestamp parse_ts line of
                           Some ts \<Rightarrow> ts
                         | None \<Rightarrow> (case lc_last_message_ts ctx of
                                      Some ts \<Rightarrow> ts
                                    | None \<Rightarrow> lc_file_modified ctx));
                   sid = session_id_of line ctx
               in \<lparr>lo_drafts =
                     [\<lparr>dr_provider = ClaudeCode, dr_kind = Session, dr_ts = ts, dr_degraded = False,
                       dr_payload = JObject [(''session_id'', JString sid), (''field'', JString field),
                         (''value'', JString val)],
                       dr_key = ClaudeSession sid field val\<rparr>],
                   lo_message_ts = None\<rparr>)"

subsection \<open>Touched repositories\<close>

datatype action = Edit | Read | Run

fun action_as_str :: "action \<Rightarrow> string" where
  "action_as_str Edit = ''edit''"
| "action_as_str Read = ''read''"
| "action_as_str Run = ''run''"

text \<open>\<open>COMMAND_SEPARATORS\<close>: double quote, single quote and the shell's own separators.\<close>

definition command_separators :: string where
  "command_separators = CHR 0x22 # CHR 0x27 # CHR 0x60 # '';|&()<>=,''"

definition path_trailers :: "char list" where
  "path_trailers = '':,.''"

definition token_sep :: "string \<Rightarrow> nat" where
  "token_sep s =
     (if 0 < ws_len s then ws_len s
      else case s of [] \<Rightarrow> 0 | c # _ \<Rightarrow> if c \<in> set command_separators then 1 else 0)"

definition looks_like_path :: "string \<Rightarrow> bool" where
  "looks_like_path token \<longleftrightarrow>
     1 < length token \<and>
     (starts_with token ''/'' \<or> starts_with token ''~/'' \<or> starts_with token ''$HOME/'')"

definition command_paths :: "string \<Rightarrow> string list" where
  "command_paths cmd =
     filter looks_like_path
       (map (trim_end_matches (\<lambda>c. c \<in> set path_trailers)) (split_where token_sep cmd))"

definition field_path :: "obj \<Rightarrow> string \<Rightarrow> action \<Rightarrow> (string \<times> action) list" where
  "field_path input field act =
     (case Option.bind (obj_get input field) as_str of None \<Rightarrow> [] | Some path \<Rightarrow> [(path, act)])"

definition tool_paths :: "string \<Rightarrow> obj \<Rightarrow> (string \<times> action) list" where
  "tool_paths name input =
     (if name = ''Edit'' \<or> name = ''Write'' \<or> name = ''MultiEdit'' then field_path input ''file_path'' Edit
      else if name = ''NotebookEdit'' then field_path input ''notebook_path'' Edit
      else if name = ''Read'' then field_path input ''file_path'' Read
      else if name = ''Glob'' \<or> name = ''Grep'' then field_path input ''path'' Read
      else if name = ''Bash'' then
        (case Option.bind (obj_get input ''command'') as_str of
           None \<Rightarrow> []
         | Some cmd \<Rightarrow> map (\<lambda>path. (path, Run)) (command_paths cmd))
      else [])"

definition add_touch ::
  "(string \<Rightarrow> string option) \<Rightarrow> string \<times> action \<Rightarrow> (string \<times> action) list \<Rightarrow> (string \<times> action) list" where
  "add_touch lookup p touched =
     (case lookup (fst p) of
        None \<Rightarrow> touched
      | Some repo \<Rightarrow>
          if (repo, snd p) \<in> set touched then touched else touched @ [(repo, snd p)])"

definition block_touches ::
  "(string \<Rightarrow> string option) \<Rightarrow> json \<Rightarrow> (string \<times> action) list \<Rightarrow> (string \<times> action) list" where
  "block_touches lookup b touched =
     (if get_str b ''type'' \<noteq> Some ''tool_use'' then touched
      else case get_str b ''name'' of
        None \<Rightarrow> touched
      | Some name \<Rightarrow>
          (case Option.bind (json_get b ''input'') as_object of
             None \<Rightarrow> touched
           | Some input \<Rightarrow> fold (add_touch lookup) (tool_paths name input) touched))"

definition touch_draft :: "string \<Rightarrow> string \<Rightarrow> timestamp \<Rightarrow> string \<times> action \<Rightarrow> record_draft" where
  "touch_draft sid uid ts touch =
     \<lparr>dr_provider = ClaudeCode, dr_kind = Touch, dr_ts = ts, dr_degraded = False,
      dr_payload = JObject [(''session_id'', JString sid), (''uuid'', JString uid),
        (''repo'', JString (fst touch)), (''action'', JString (action_as_str (snd touch)))],
      dr_key = ClaudeTouch sid uid (fst touch) (action_as_str (snd touch))\<rparr>"

definition touch_drafts ::
  "(string \<Rightarrow> int option) \<Rightarrow> json \<Rightarrow> line_context \<Rightarrow> record_draft list" where
  "touch_drafts parse_ts line ctx =
     (if flag line ''isSidechain'' then []
      else case get_str line ''uuid'' of
        None \<Rightarrow> []
      | Some uid \<Rightarrow>
          (case line_timestamp parse_ts line of
             None \<Rightarrow> []
           | Some ts \<Rightarrow>
               (case Option.bind (json_path line message_path) as_array of
                  None \<Rightarrow> []
                | Some blocks \<Rightarrow>
                    map (touch_draft (session_id_of line ctx) uid ts)
                      (fold (block_touches (lc_repo_of ctx)) blocks []))))"

definition drafts_from_line ::
  "(string \<Rightarrow> int option) \<Rightarrow> json \<Rightarrow> line_context \<Rightarrow> line_outcome" where
  "drafts_from_line parse_ts line ctx =
     (case get_str line ''type'' of
        None \<Rightarrow> no_outcome
      | Some ty \<Rightarrow>
          if ty = ''user'' then message_drafts parse_ts line User ctx
          else if ty = ''assistant'' then
            let outcome = message_drafts parse_ts line Assistant ctx
            in (case lc_touches ctx of
                  Collected \<Rightarrow> outcome\<lparr>lo_drafts := lo_drafts outcome @ touch_drafts parse_ts line ctx\<rparr>
                | Skipped \<Rightarrow> outcome)
          else if ty = ''custom-title'' then session_drafts parse_ts line ''custom_title'' ''customTitle'' ctx
          else if ty = ''ai-title'' then session_drafts parse_ts line ''ai_title'' ''aiTitle'' ctx
          else if ty = ''pr-link'' then session_drafts parse_ts line ''pr'' ''prUrl'' ctx
          else no_outcome)"

subsection \<open>What a line gives\<close>

lemma distinct_add_touch: "distinct touched \<Longrightarrow> distinct (add_touch lookup p touched)"
  by (auto simp: add_touch_def split: option.split)

lemma distinct_fold_add_touch: "distinct touched \<Longrightarrow> distinct (fold (add_touch lookup) ps touched)"
  by (induction ps arbitrary: touched) (auto simp: distinct_add_touch)

lemma distinct_block_touches: "distinct touched \<Longrightarrow> distinct (block_touches lookup b touched)"
  by (auto simp: block_touches_def distinct_fold_add_touch split: option.split)

lemma distinct_fold_block_touches: "distinct touched \<Longrightarrow> distinct (fold (block_touches lookup) bs touched)"
  by (induction bs arbitrary: touched) (auto simp: distinct_block_touches)

lemma action_as_str_inject [simp]: "action_as_str a = action_as_str b \<longleftrightarrow> a = b"
  by (cases a; cases b) auto

lemma distinct_touch_keys:
  "distinct ts \<Longrightarrow> distinct (map (\<lambda>t. dr_key (touch_draft sid uid at t)) ts)"
  by (auto simp: distinct_map inj_on_def touch_draft_def)

lemma message_keys:
  "map dr_key (map (\<lambda>(blk, txt). message_draft line rl ctx compact uid ts blk txt) (zip [0 ..< length txts] txts)) =
     map (ClaudeMessage (session_id_of line ctx) uid) [0 ..< length txts]"
  by (rule nth_equalityI) (auto simp: message_draft_def)

lemma message_drafts_keys:
  "\<exists>sid uid n. map dr_key (lo_drafts (message_drafts parse_ts line rl ctx)) =
     map (ClaudeMessage sid uid) [0 ..< n]"
proof -
  have none: "\<exists>sid uid n. map dr_key (lo_drafts no_outcome) = map (ClaudeMessage sid uid) [0 ..< n]"
    by (intro exI [of _ "[]"] exI [of _ 0]) (simp add: no_outcome_def)
  show ?thesis
    unfolding message_drafts_def Let_def
    using none message_keys
    by (auto split: option.split)
qed

lemma touch_drafts_keys:
  "\<exists>sid uid ps. distinct ps \<and>
     map dr_key (touch_drafts parse_ts line ctx) = map (\<lambda>(repo, act). ClaudeTouch sid uid repo (action_as_str act)) ps"
proof (cases "touch_drafts parse_ts line ctx = []")
  case True
  then show ?thesis by (intro exI [of _ "[]"]) simp
next
  case False
  then obtain uid ts blocks where "touch_drafts parse_ts line ctx =
      map (touch_draft (session_id_of line ctx) uid ts) (fold (block_touches (lc_repo_of ctx)) blocks [])"
    by (auto simp: touch_drafts_def split: if_splits option.splits)
  moreover have "distinct (fold (block_touches (lc_repo_of ctx)) blocks [])"
    by (rule distinct_fold_block_touches) simp
  ultimately show ?thesis
    by (intro exI [of _ "session_id_of line ctx"] exI [of _ uid]
        exI [of _ "fold (block_touches (lc_repo_of ctx)) blocks []"])
      (auto simp: touch_draft_def)
qed

lemma session_drafts_keys: "distinct (map dr_key (lo_drafts (session_drafts parse_ts line field vk ctx)))"
  by (auto simp: session_drafts_def no_outcome_def Let_def split: option.split)

lemma message_touch_distinct:
  assumes "map dr_key ms = map (ClaudeMessage sid uid) [0 ..< n]"
    and "map dr_key ts = map (\<lambda>(repo, act). ClaudeTouch sid' uid' repo (action_as_str act)) ps" "distinct ps"
  shows "distinct (map dr_key (ms @ ts))"
proof -
  have "distinct (map dr_key ms)" by (simp add: assms(1) distinct_map inj_on_def)
  moreover have "distinct (map dr_key ts)"
    using assms(3) by (auto simp: assms(2) distinct_map inj_on_def)
  moreover have "set (map dr_key ms) \<inter> set (map dr_key ts) = {}"
    unfolding assms(1,2) by auto
  ultimately show ?thesis by simp
qed

text \<open>
  C24. The records of one transcript line have pairwise different key sources: its message blocks are
  numbered and a repository is touched at most once per kind of action, so under one device no record
  of a line can be dropped by the service as a duplicate of another.
\<close>

theorem line_keys_distinct: "distinct (map dr_key (lo_drafts (drafts_from_line parse_ts line ctx)))"
proof -
  have both: "distinct (map dr_key (lo_drafts (message_drafts parse_ts line rl ctx) @ touch_drafts parse_ts line ctx))"
    for rl
    using message_drafts_keys [of parse_ts line rl ctx] touch_drafts_keys [of parse_ts line ctx]
    by (elim exE conjE) (rule message_touch_distinct)
  then have "distinct (map dr_key (lo_drafts (message_drafts parse_ts line rl ctx)))" for rl
    by simp
  with both session_drafts_keys [of parse_ts line _ _ ctx] show ?thesis
    by (auto simp: drafts_from_line_def no_outcome_def Let_def split: option.split touches.split)
qed

subsection \<open>What is kept of a line\<close>

text \<open>
  What a line says, read off its JSON: an identified and dated turn of the main conversation, the
  session it belongs to, and the texts of its content in their order.
\<close>

definition turn_of :: "(string \<Rightarrow> int option) \<Rightarrow> json \<Rightarrow> string \<Rightarrow> string \<Rightarrow> int \<Rightarrow> bool" where
  "turn_of parse_ts line who uid at \<longleftrightarrow>
     json_get line ''type'' = Some (JString who) \<and> json_get line ''isSidechain'' \<noteq> Some (JBool True) \<and>
     json_get line ''uuid'' = Some (JString uid) \<and>
     (\<exists>s. json_get line ''timestamp'' = Some (JString s) \<and> parse_ts s = Some at)"

definition spoken_turn :: "(string \<Rightarrow> int option) \<Rightarrow> json \<Rightarrow> string \<Rightarrow> string \<Rightarrow> int \<Rightarrow> bool" where
  "spoken_turn parse_ts line who uid at \<longleftrightarrow>
     turn_of parse_ts line who uid at \<and>
     (who = ''assistant'' \<or> who = ''user'' \<and> json_get line ''isMeta'' \<noteq> Some (JBool True))"

definition in_session :: "json \<Rightarrow> line_context \<Rightarrow> string \<Rightarrow> bool" where
  "in_session line ctx sid \<longleftrightarrow>
     (if \<exists>s. json_get line ''sessionId'' = Some (JString s) \<and> s \<noteq> []
      then json_get line ''sessionId'' = Some (JString sid) else sid = lc_fallback_session_id ctx)"

definition said :: "json \<Rightarrow> json option" where
  "said line = Option.bind (json_get line ''message'') (\<lambda>m. json_get m ''content'')"

definition block_says :: "json \<Rightarrow> string list" where
  "block_says b =
     (if json_get b ''type'' = Some (JString ''text'')
      then (case json_get b ''text'' of Some (JString txt) \<Rightarrow> [txt] | _ \<Rightarrow> []) else [])"

definition texts_said :: "json option \<Rightarrow> string list" where
  "texts_said content =
     (case content of
        Some (JString txt) \<Rightarrow> [txt]
      | Some (JArray blocks) \<Rightarrow> concat (map block_says blocks)
      | _ \<Rightarrow> [])"

lemma as_str_eq: "as_str v = Some s \<longleftrightarrow> v = JString s"
  by (cases v) auto

lemma get_str_eq: "get_str v k = Some s \<longleftrightarrow> json_get v k = Some (JString s)"
  by (auto simp: get_str_def bind_eq_Some_conv as_str_eq)

lemma flag_eq: "flag v k \<longleftrightarrow> json_get v k = Some (JBool True)"
  by (cases "json_get v k"; cases "the (json_get v k)") (auto simp: flag_def)

lemma line_timestamp_eq:
  "line_timestamp parse_ts line = Some (Timestamp at) \<longleftrightarrow>
     (\<exists>s. json_get line ''timestamp'' = Some (JString s) \<and> parse_ts s = Some at)"
  by (auto simp: line_timestamp_def bind_eq_Some_conv get_str_eq)

lemma session_id_eq: "in_session line ctx sid \<longleftrightarrow> session_id_of line ctx = sid"
  by (cases "get_str line ''sessionId''")
    (auto simp: in_session_def session_id_of_def get_str_eq [symmetric])

lemma block_texts_said: "block_texts bs = concat (map block_says bs)"
proof (induction bs)
  case (Cons b bs)
  show ?case
  proof (cases "get_str b ''type'' = Some ''text''")
    case False
    then have "json_get b ''type'' \<noteq> Some (JString ''text'')" by (simp add: get_str_eq)
    with False Cons show ?thesis by (simp add: block_says_def)
  next
    case True
    then have "json_get b ''type'' = Some (JString ''text'')" by (simp add: get_str_eq)
    with True Cons show ?thesis
      by (auto simp: block_says_def get_str_def split: option.split json.split)
  qed
qed simp

lemma text_blocks_said: "text_blocks (json_path line message_path) = texts_said (said line)"
proof -
  have "json_path line message_path = said line"
    by (auto simp: message_path_def said_def split: bind_splits)
  moreover have "text_blocks c = texts_said c" for c
    by (cases c; cases "the c") (simp_all add: texts_said_def block_texts_said)
  ultimately show ?thesis by simp
qed

text \<open>Who said a message, the text, when, and the key, as the records tell it.\<close>

definition told_message :: "record_draft \<Rightarrow> string option \<times> string option \<times> timestamp \<times> key_source" where
  "told_message d = (get_str (dr_payload d) ''role'', get_str (dr_payload d) ''text'', dr_ts d, dr_key d)"

lemma message_payload_members [simp]:
  "get_str (JObject (message_payload sid uid blk rl mk txt cwd branch prof)) ''text'' = Some txt"
  "get_str (JObject (message_payload sid uid blk rl mk txt cwd branch prof)) ''role'' = Some (role_as_str rl)"
  by (simp_all add: message_payload_def get_str_def)

lemma told_message_drafts:
  assumes "\<not> flag line ''isSidechain''" "\<not> (rl = User \<and> flag line ''isMeta'')"
    and "get_str line ''uuid'' = Some uid" "line_timestamp parse_ts line = Some ts"
  shows "map told_message (lo_drafts (message_drafts parse_ts line rl ctx)) =
     map (\<lambda>(i, txt). (Some (role_as_str rl), Some txt, ts, ClaudeMessage (session_id_of line ctx) uid i))
       (enumerate 0 (texts_said (said line)))"
proof -
  have "map told_message (map (\<lambda>(blk, txt). message_draft line rl ctx compact uid ts blk txt) (zip [0 ..< length txts] txts)) =
      map (\<lambda>(i, txt). (Some (role_as_str rl), Some txt, ts, ClaudeMessage (session_id_of line ctx) uid i)) (enumerate 0 txts)"
    for compact txts
    by (rule nth_equalityI) (auto simp: message_draft_def told_message_def enumerate_eq_zip)
  with assms show ?thesis
    by (auto simp: message_drafts_def no_outcome_def Let_def text_blocks_said)
qed

lemma message_drafts_none:
  assumes "flag line ''isSidechain'' \<or> rl = User \<and> flag line ''isMeta'' \<or>
     get_str line ''uuid'' = None \<or> line_timestamp parse_ts line = None"
  shows "lo_drafts (message_drafts parse_ts line rl ctx) = []"
  using assms by (auto simp: message_drafts_def no_outcome_def Let_def split: option.split)

lemma message_drafts_kind: "d \<in> set (lo_drafts (message_drafts parse_ts line rl ctx)) \<Longrightarrow> dr_kind d = Message"
  by (auto simp: message_drafts_def message_draft_def no_outcome_def Let_def split: if_splits option.splits)

lemma touch_drafts_kind: "d \<in> set (touch_drafts parse_ts line ctx) \<Longrightarrow> dr_kind d = Touch"
  by (auto simp: touch_drafts_def touch_draft_def split: if_splits option.splits)

lemma session_drafts_kind: "d \<in> set (lo_drafts (session_drafts parse_ts line field vk ctx)) \<Longrightarrow> dr_kind d = Session"
  by (auto simp: session_drafts_def no_outcome_def Let_def split: if_splits option.splits)

text \<open>The messages and the touches of a line, by the kind of line it is.\<close>

lemma filter_kind: "(\<And>d. d \<in> set ds \<Longrightarrow> dr_kind d = k') \<Longrightarrow> filter (\<lambda>d. dr_kind d = k) ds = (if k' = k then ds else [])"
  by (auto simp: filter_empty_conv intro: filter_True)

lemma messages_of_line:
  "filter (\<lambda>d. dr_kind d = Message) (lo_drafts (drafts_from_line parse_ts line ctx)) =
     (if json_get line ''type'' = Some (JString ''user'') then lo_drafts (message_drafts parse_ts line User ctx)
      else if json_get line ''type'' = Some (JString ''assistant'')
      then lo_drafts (message_drafts parse_ts line Assistant ctx) else [])"
  unfolding get_str_eq [symmetric] drafts_from_line_def
  by (auto simp: no_outcome_def Let_def filter_kind [OF message_drafts_kind] filter_kind [OF touch_drafts_kind]
      filter_kind [OF session_drafts_kind] split: option.split touches.split)

lemma touches_of_line:
  "filter (\<lambda>d. dr_kind d = Touch) (lo_drafts (drafts_from_line parse_ts line ctx)) =
     (if json_get line ''type'' = Some (JString ''assistant'') \<and> lc_touches ctx = Collected
      then touch_drafts parse_ts line ctx else [])"
  unfolding get_str_eq [symmetric] drafts_from_line_def
  by (auto simp: no_outcome_def Let_def filter_kind [OF message_drafts_kind] filter_kind [OF touch_drafts_kind]
      filter_kind [OF session_drafts_kind] split: option.split touches.split)

text \<open>
  C25. The conversation is kept without loss: when a line is an identified and dated turn of the main
  conversation, a prompt or an answer and no meta information, its message records are its texts (the
  content itself when that is a text, else the texts of the blocks of type \<open>text\<close>), each once, in order,
  with who said it, when, and the session, line and number of the block as the key; any other line gives
  no message record at all.
\<close>

theorem line_texts:
  "(\<forall>who uid at sid. spoken_turn parse_ts line who uid at \<and> in_session line ctx sid \<longrightarrow>
      map told_message (filter (\<lambda>d. dr_kind d = Message) (lo_drafts (drafts_from_line parse_ts line ctx))) =
        map (\<lambda>(i, txt). (Some who, Some txt, Timestamp at, ClaudeMessage sid uid i))
          (enumerate 0 (texts_said (said line)))) \<and>
   ((\<nexists>who uid at. spoken_turn parse_ts line who uid at) \<longrightarrow>
      filter (\<lambda>d. dr_kind d = Message) (lo_drafts (drafts_from_line parse_ts line ctx)) = [])"
proof (intro conjI allI impI)
  fix who uid at sid
  assume turn: "spoken_turn parse_ts line who uid at \<and> in_session line ctx sid"
  define rl where "rl = (if who = ''user'' then User else Assistant)"
  have rl: "role_as_str rl = who"
    and msgs: "filter (\<lambda>d. dr_kind d = Message) (lo_drafts (drafts_from_line parse_ts line ctx)) =
      lo_drafts (message_drafts parse_ts line rl ctx)"
    using turn by (auto simp: rl_def spoken_turn_def turn_of_def messages_of_line)
  show "map told_message (filter (\<lambda>d. dr_kind d = Message) (lo_drafts (drafts_from_line parse_ts line ctx))) =
      map (\<lambda>(i, txt). (Some who, Some txt, Timestamp at, ClaudeMessage sid uid i)) (enumerate 0 (texts_said (said line)))"
    unfolding msgs rl [symmetric]
    using turn told_message_drafts [of line rl uid parse_ts "Timestamp at" ctx]
    by (auto simp: spoken_turn_def turn_of_def session_id_eq flag_eq get_str_eq line_timestamp_eq rl_def)
next
  assume none: "\<nexists>who uid at. spoken_turn parse_ts line who uid at"
  have silent: "lo_drafts (message_drafts parse_ts line rl ctx) = []"
    if "json_get line ''type'' = Some (JString (role_as_str rl))" for rl
  proof (rule message_drafts_none, rule ccontr)
    assume "\<not> (flag line ''isSidechain'' \<or> rl = User \<and> flag line ''isMeta'' \<or>
       get_str line ''uuid'' = None \<or> line_timestamp parse_ts line = None)"
    then obtain uid at where "get_str line ''uuid'' = Some uid" "line_timestamp parse_ts line = Some (Timestamp at)"
      "\<not> flag line ''isSidechain''" "\<not> (rl = User \<and> flag line ''isMeta'')"
      by (metis not_None_eq timestamp.exhaust)
    with that have "spoken_turn parse_ts line (role_as_str rl) uid at"
      by (cases rl) (auto simp: spoken_turn_def turn_of_def flag_eq get_str_eq line_timestamp_eq)
    with none show False by blast
  qed
  show "filter (\<lambda>d. dr_kind d = Message) (lo_drafts (drafts_from_line parse_ts line ctx)) = []"
    unfolding messages_of_line using silent [of User] silent [of Assistant] by simp
qed

definition sample_line :: json where
  "sample_line =
     JObject [(''type'', JString ''assistant''), (''uuid'', JString ''u''), (''timestamp'', JString ''t''),
       (''message'', JObject [(''content'', JArray
          [JObject [(''type'', JString ''text''), (''text'', JString ''first'')],
           JObject [(''type'', JString ''tool_use''), (''name'', JString ''Bash''),
             (''input'', JObject [(''command'', JString ''cat /r/a; ls /x'')])],
           JObject [(''type'', JString ''text''), (''text'', JString ''second'')]])])]"

definition sample_context :: line_context where
  "sample_context =
     \<lparr>lc_profile = ''p'', lc_repo_of = \<lambda>path. (if starts_with path ''/r/'' then Some ''/r'' else None),
      lc_touches = Collected, lc_fallback_session_id = ''s'', lc_last_message_ts = None,
      lc_file_modified = Timestamp 0\<rparr>"

lemma sample_turn: "spoken_turn (\<lambda>_. Some 5) sample_line ''assistant'' ''u'' 5"
  by (simp add: spoken_turn_def turn_of_def sample_line_def)

lemma sample_session: "in_session sample_line sample_context ''s''"
  by (simp add: in_session_def sample_line_def sample_context_def)

theorem line_texts_witness:
  "map told_message (filter (\<lambda>d. dr_kind d = Message)
       (lo_drafts (drafts_from_line (\<lambda>_. Some 5) sample_line sample_context))) =
     [(Some ''assistant'', Some ''first'', Timestamp 5, ClaudeMessage ''s'' ''u'' 0),
      (Some ''assistant'', Some ''second'', Timestamp 5, ClaudeMessage ''s'' ''u'' 1)]"
proof -
  have texts: "texts_said (said sample_line) = [''first'', ''second'']"
    by (simp add: texts_said_def said_def sample_line_def block_says_def)
  have "map told_message (filter (\<lambda>d. dr_kind d = Message)
       (lo_drafts (drafts_from_line (\<lambda>_. Some 5) sample_line sample_context))) =
     map (\<lambda>(i, txt). (Some ''assistant'', Some txt, Timestamp 5, ClaudeMessage ''s'' ''u'' i))
       (enumerate 0 (texts_said (said sample_line)))"
    using line_texts [of "\<lambda>_. Some 5" sample_line sample_context] sample_turn sample_session by blast
  then show ?thesis by (simp add: texts)
qed

subsection \<open>Which repositories are touched\<close>

text \<open>
  The paths a tool call names, and for what: a member of the input of an editing or a reading tool, or a
  word of a shell command that looks like an absolute path or one under the home directory, without the
  punctuation behind it.
\<close>

definition word_break :: "string \<Rightarrow> nat" where
  "word_break s =
     (if 0 < ws_len s then ws_len s
      else if s \<noteq> [] \<and> hd s \<in> {CHR 0x22, CHR 0x27, CHR 0x60, CHR '';'', CHR ''|'', CHR ''&'', CHR ''('', CHR '')'',
          CHR ''<'', CHR ''>'', CHR ''='', CHR '',''} then 1 else 0)"

definition word_names :: "string \<Rightarrow> string \<Rightarrow> bool" where
  "word_names word path \<longleftrightarrow>
     (let punctuation = {CHR '':'', CHR '','', CHR ''.''}
      in \<exists>trail. word = path @ trail \<and> set trail \<subseteq> punctuation \<and> last path \<notin> punctuation \<and> 2 \<le> length path \<and>
         (\<exists>rest. path = ''/'' @ rest \<or> path = ''~/'' @ rest \<or> path = ''$HOME/'' @ rest))"

definition tool_members :: "(string \<times> string \<times> string) list" where
  "tool_members =
     [(''Edit'', ''file_path'', ''edit''), (''Write'', ''file_path'', ''edit''), (''MultiEdit'', ''file_path'', ''edit''),
      (''NotebookEdit'', ''notebook_path'', ''edit''), (''Read'', ''file_path'', ''read''),
      (''Glob'', ''path'', ''read''), (''Grep'', ''path'', ''read'')]"

definition names_path :: "json \<Rightarrow> string \<Rightarrow> string \<Rightarrow> bool" where
  "names_path block path act \<longleftrightarrow>
     json_get block ''type'' = Some (JString ''tool_use'') \<and>
     (\<exists>tool input. json_get block ''name'' = Some (JString tool) \<and> json_get block ''input'' = Some (JObject input) \<and>
        ((\<exists>field. (tool, field, act) \<in> set tool_members \<and> obj_get input field = Some (JString path)) \<or>
         tool = ''Bash'' \<and> act = ''run'' \<and>
           (\<exists>cmd. obj_get input ''command'' = Some (JString cmd) \<and>
              (\<exists>word \<in> set (split_where word_break cmd). word_names word path))))"

lemma token_sep_break: "token_sep s = word_break s"
  by (cases s) (auto simp: token_sep_def word_break_def command_separators_def)

lemma trim_end_matches_eq:
  "path \<noteq> [] \<Longrightarrow> trim_end_matches p word = path \<longleftrightarrow> (\<exists>trail. word = path @ trail \<and> (\<forall>c \<in> set trail. p c) \<and> \<not> p (last path))"
proof
  assume "path \<noteq> []" and "trim_end_matches p word = path"
  then have path: "dropWhile p (rev word) = rev path" by (auto simp: trim_end_matches_def)
  let ?trail = "rev (takeWhile p (rev word))"
  have "rev word = takeWhile p (rev word) @ rev path" by (metis path takeWhile_dropWhile_id)
  then have "word = path @ ?trail" by (metis rev_append rev_rev_ident)
  moreover have "\<forall>c \<in> set ?trail. p c" by (auto dest: set_takeWhileD)
  moreover have "\<not> p (last path)"
    using hd_dropWhile [of p "rev word"] \<open>path \<noteq> []\<close> by (simp add: path hd_rev)
  ultimately show "\<exists>trail. word = path @ trail \<and> (\<forall>c \<in> set trail. p c) \<and> \<not> p (last path)" by blast
next
  assume "path \<noteq> []" and "\<exists>trail. word = path @ trail \<and> (\<forall>c \<in> set trail. p c) \<and> \<not> p (last path)"
  then obtain trail where t: "word = path @ trail" "\<forall>c \<in> set trail. p c" "\<not> p (last path)" by blast
  then have "dropWhile p (rev trail @ rev path) = dropWhile p (rev path)" by (intro dropWhile_append2) auto
  moreover have "dropWhile p (rev path) = rev path"
    using t(3) \<open>path \<noteq> []\<close> by (cases "rev path") (auto simp: hd_rev [symmetric])
  ultimately show "trim_end_matches p word = path" by (simp add: trim_end_matches_def t(1))
qed

lemma word_names_token:
  "word_names word path \<longleftrightarrow>
     path = trim_end_matches (\<lambda>c. c \<in> set path_trailers) word \<and> looks_like_path path"
proof (cases "2 \<le> length path")
  case True
  then have ne: "path \<noteq> []" by auto
  have "set path_trailers = {CHR '':'', CHR '','', CHR ''.''}" by (auto simp: path_trailers_def)
  with True trim_end_matches_eq [OF ne, of "\<lambda>c. c \<in> set path_trailers" word] show ?thesis
    by (auto simp: word_names_def looks_like_path_def starts_with_iff Let_def)
qed (auto simp: word_names_def looks_like_path_def Let_def)

lemma set_command_paths:
  "path \<in> set (command_paths cmd) \<longleftrightarrow> (\<exists>word \<in> set (split_where word_break cmd). word_names word path)"
  unfolding word_names_token token_sep_break [symmetric, abs_def] by (auto simp: command_paths_def)

lemma set_field_path:
  "(path, act) \<in> set (field_path input field a) \<longleftrightarrow> act = a \<and> obj_get input field = Some (JString path)"
  by (cases "Option.bind (obj_get input field) as_str")
    (auto simp: field_path_def bind_eq_Some_conv as_str_eq simp flip: as_str_eq dest: sym)

lemma set_tool_paths:
  "(path, act) \<in> set (tool_paths tool input) \<longleftrightarrow>
     (\<exists>field. (tool, field, action_as_str act) \<in> set tool_members \<and> obj_get input field = Some (JString path)) \<or>
     tool = ''Bash'' \<and> action_as_str act = ''run'' \<and>
       (\<exists>cmd. obj_get input ''command'' = Some (JString cmd) \<and>
          (\<exists>word \<in> set (split_where word_break cmd). word_names word path))"
proof -
  consider "tool = ''Bash''" | "tool \<in> fst ` set tool_members" | "tool \<noteq> ''Bash''" "tool \<notin> fst ` set tool_members"
    by blast
  then show ?thesis
  proof cases
    case 1
    have "Option.bind (obj_get input ''command'') as_str = Some cmd \<longleftrightarrow> obj_get input ''command'' = Some (JString cmd)" for cmd
      by (simp add: bind_eq_Some_conv as_str_eq)
    with 1 show ?thesis unfolding set_command_paths [symmetric]
      by (cases act; cases "Option.bind (obj_get input ''command'') as_str") (auto simp: tool_paths_def tool_members_def)
  next
    case 2
    then have "tool = ''Edit'' \<or> tool = ''Write'' \<or> tool = ''MultiEdit'' \<or> tool = ''NotebookEdit'' \<or>
        tool = ''Read'' \<or> tool = ''Glob'' \<or> tool = ''Grep''"
      by (simp add: tool_members_def)
    then show ?thesis
      by (elim disjE; cases act; simp add: tool_paths_def tool_members_def set_field_path)
  next
    case 3
    then show ?thesis by (force simp: tool_paths_def tool_members_def)
  qed
qed

lemma set_add_touch:
  "set (add_touch lookup p touched) = set touched \<union> {(repo, snd p) | repo. lookup (fst p) = Some repo}"
  by (auto simp: add_touch_def split: option.split)

lemma set_fold_add_touch:
  "set (fold (add_touch lookup) ps touched) =
     set touched \<union> {(repo, act) | repo act. \<exists>path. (path, act) \<in> set ps \<and> lookup path = Some repo}"
  by (induction ps arbitrary: touched) (auto simp: set_add_touch)

lemma as_array_eq: "as_array v = Some bs \<longleftrightarrow> v = JArray bs"
  by (cases v) auto

lemma as_object_Some_iff: "as_object v = Some m \<longleftrightarrow> v = JObject m"
  by (cases v) auto

lemma set_block_touches:
  "set (block_touches lookup b touched) =
     set touched \<union> {(repo, act) | repo act. \<exists>path. names_path b path (action_as_str act) \<and> lookup path = Some repo}"
  by (auto simp: block_touches_def names_path_def set_tool_paths [symmetric] set_fold_add_touch as_object_Some_iff
      get_str_eq [symmetric] bind_eq_Some_conv split: option.splits)

lemma set_fold_block_touches:
  "set (fold (block_touches lookup) bs touched) =
     set touched \<union> {(repo, act) | repo act. \<exists>b \<in> set bs. \<exists>path. names_path b path (action_as_str act) \<and> lookup path = Some repo}"
  by (induction bs arbitrary: touched) (auto simp: set_block_touches)

text \<open>The session, line, repository and action of a touch, and its payload's repository and action.\<close>

definition told_touch :: "record_draft \<Rightarrow> key_source \<times> string option \<times> string option" where
  "told_touch d = (dr_key d, get_str (dr_payload d) ''repo'', get_str (dr_payload d) ''action'')"

lemma names_path_action: "names_path b path act \<Longrightarrow> \<exists>a. act = action_as_str a"
  by (auto simp: names_path_def tool_members_def intro: exI [of _ Edit] exI [of _ Read] exI [of _ Run])

text \<open>
  C26. A line reports a repository as touched by a kind of action exactly when it is an answer of the main
  conversation, touches are collected, and one of its tool calls names a path for that action that lies
  in the repository: for editing the file of \<open>Edit\<close>, \<open>Write\<close>, \<open>MultiEdit\<close> and \<open>NotebookEdit\<close>, for reading
  what \<open>Read\<close>, \<open>Glob\<close> and \<open>Grep\<close> are given, for running the paths among the words of a shell command.
\<close>

theorem line_touches:
  "told_touch ` {d \<in> set (lo_drafts (drafts_from_line parse_ts line ctx)). dr_kind d = Touch} =
     {(ClaudeTouch sid uid repo act, Some repo, Some act) | sid uid repo act.
        lc_touches ctx = Collected \<and> in_session line ctx sid \<and>
        (\<exists>at. turn_of parse_ts line ''assistant'' uid at) \<and>
        (\<exists>blocks block path. said line = Some (JArray blocks) \<and> block \<in> set blocks \<and>
           names_path block path act \<and> lc_repo_of ctx path = Some repo)}"
    (is "?told = ?expected")
proof -
  let ?T = "{d \<in> set (lo_drafts (drafts_from_line parse_ts line ctx)). dr_kind d = Touch}"
  have told: "?told = told_touch ` set (filter (\<lambda>d. dr_kind d = Touch) (lo_drafts (drafts_from_line parse_ts line ctx)))"
    by simp
  have path: "json_path line message_path = said line"
    by (auto simp: message_path_def said_def split: bind_splits)
  have touch: "told_touch (touch_draft sid uid ts t) =
      (ClaudeTouch sid uid (fst t) (action_as_str (snd t)), Some (fst t), Some (action_as_str (snd t)))" for sid uid ts t
    by (simp add: told_touch_def touch_draft_def get_str_def)
  show ?thesis
  proof (cases "lc_touches ctx = Collected \<and> (\<exists>uid at blocks. turn_of parse_ts line ''assistant'' uid at \<and> said line = Some (JArray blocks))")
    case False
    have "touch_drafts parse_ts line ctx = []"
      if "lc_touches ctx = Collected" "json_get line ''type'' = Some (JString ''assistant'')"
    proof (rule ccontr)
      assume "touch_drafts parse_ts line ctx \<noteq> []"
      then obtain uid ts blocks where "\<not> flag line ''isSidechain''" "get_str line ''uuid'' = Some uid"
        "line_timestamp parse_ts line = Some (Timestamp ts)" "said line = Some (JArray blocks)"
        by (auto simp: touch_drafts_def path bind_eq_Some_conv as_array_eq split: if_splits option.splits)
          (metis timestamp.exhaust)
      with that have "turn_of parse_ts line ''assistant'' uid ts"
        by (simp add: turn_of_def flag_eq get_str_eq line_timestamp_eq)
      with False that(1) \<open>said line = Some (JArray blocks)\<close> show False by blast
    qed
    then have "?told = {}" unfolding told touches_of_line by auto
    also have "{} = ?expected" using False by blast
    finally show ?thesis .
  next
    case True
    then obtain uid at blocks where t: "lc_touches ctx = Collected" "turn_of parse_ts line ''assistant'' uid at"
      "said line = Some (JArray blocks)" by blast
    define sid where "sid = session_id_of line ctx"
    define touched where "touched = fold (block_touches (lc_repo_of ctx)) blocks []"
    have "touch_drafts parse_ts line ctx = map (touch_draft sid uid (Timestamp at)) touched"
    proof -
      have "get_str line ''uuid'' = Some uid" "\<not> flag line ''isSidechain''"
        "line_timestamp parse_ts line = Some (Timestamp at)"
        using t(2) by (auto simp: turn_of_def flag_eq get_str_eq line_timestamp_eq)
      with t(3) show ?thesis by (simp add: touch_drafts_def path touched_def sid_def)
    qed
    then have lhs: "?told = (\<lambda>t. (ClaudeTouch sid uid (fst t) (action_as_str (snd t)), Some (fst t), Some (action_as_str (snd t)))) ` set touched"
      unfolding told touches_of_line using t(1,2) by (simp add: turn_of_def image_image touch)
    have sole: "turn_of parse_ts line ''assistant'' uid' at' \<Longrightarrow> uid' = uid" for uid' at'
      using t(2) by (simp add: turn_of_def)
    have touched: "(repo, a) \<in> set touched \<longleftrightarrow>
        (\<exists>b \<in> set blocks. \<exists>path. names_path b path (action_as_str a) \<and> lc_repo_of ctx path = Some repo)" for repo a
      by (auto simp: touched_def set_fold_block_touches)
    show ?thesis
    proof (rule set_eqI, rule iffI)
      fix x assume "x \<in> ?told"
      then obtain repo a where x: "x = (ClaudeTouch sid uid repo (action_as_str a), Some repo, Some (action_as_str a))"
        "(repo, a) \<in> set touched" unfolding lhs by auto
      from x(2) obtain b path where "b \<in> set blocks" "names_path b path (action_as_str a)" "lc_repo_of ctx path = Some repo"
        unfolding touched by blast
      with x(1) t show "x \<in> ?expected"
        by (auto simp: session_id_eq sid_def intro!: exI [of _ b] exI [of _ path])
    next
      fix x assume "x \<in> ?expected"
      then obtain sid' uid' repo act at' b path where x: "x = (ClaudeTouch sid' uid' repo act, Some repo, Some act)"
        "in_session line ctx sid'" "turn_of parse_ts line ''assistant'' uid' at'" "b \<in> set blocks"
        "names_path b path act" "lc_repo_of ctx path = Some repo"
        using t(3) by auto
      from x(5) obtain a where a: "act = action_as_str a" using names_path_action by blast
      with x have "(repo, a) \<in> set touched" unfolding touched by blast
      with x(1,2) sole [OF x(3)] a show "x \<in> ?told" unfolding lhs by (auto simp: session_id_eq sid_def intro: rev_image_eqI)
    qed
  qed
qed

theorem line_touches_witness:
  "\<exists>block path blocks. said sample_line = Some (JArray blocks) \<and> block \<in> set blocks \<and>
     names_path block path ''run'' \<and> lc_repo_of sample_context path = Some ''/r''"
proof -
  have "map told_touch (filter (\<lambda>d. dr_kind d = Touch) (lo_drafts (drafts_from_line (\<lambda>_. Some 5) sample_line sample_context))) =
      [(ClaudeTouch ''s'' ''u'' ''/r'' ''run'', Some ''/r'', Some ''run'')]"
    by code_simp
  from arg_cong [OF this, of set] have "(ClaudeTouch ''s'' ''u'' ''/r'' ''run'', Some ''/r'', Some ''run'') \<in>
      told_touch ` {d \<in> set (lo_drafts (drafts_from_line (\<lambda>_. Some 5) sample_line sample_context)). dr_kind d = Touch}"
    by simp
  then show ?thesis unfolding line_touches by blast
qed

end
