(* ===== verification/Repo_Roots.thy ===== *)
theory Repo_Roots
  imports Prelude
begin

text \<open>
  Which repository a path lies in, \<open>src/src/providers/repo_roots.rs\<close>. A path is its text; two paths
  are the same directory when they have the same components (\<open>same_dir\<close>), which is how \<open>PathBuf\<close>
  compares and hashes. \<open>git dir\<close> is whether \<open>dir.join(".git")\<close> exists. The lookup keeps what it found
  in a cache; \<open>repo_of_reference\<close> is the lookup without one.
\<close>

subsection \<open>Paths\<close>

definition blank_segment :: "string \<Rightarrow> bool" where
  "blank_segment seg = (seg = [] \<or> seg = ''.'')"

definition is_absolute :: "string \<Rightarrow> bool" where
  "is_absolute path = starts_with path ''/''"

definition components :: "string \<Rightarrow> string list" where
  "components path = filter (\<lambda>seg. \<not> blank_segment seg) (split_char CHR ''/'' path)"

text \<open>What \<open>Eq\<close> and \<open>Hash\<close> of a path see.\<close>

definition dir_key :: "string \<Rightarrow> bool \<times> string list" where
  "dir_key path = (is_absolute path, components path)"

definition unsplit :: "bool \<Rightarrow> string list \<Rightarrow> string" where
  "unsplit absolute segs = (if segs = [] then (if absolute then ''/'' else []) else join ''/'' segs)"

lemma length_dropWhile_Cons: "dropWhile P xs = y # ys \<Longrightarrow> length (dropWhile P ys) < length xs"
  using length_dropWhile_le [of P xs] length_dropWhile_le [of P ys] by simp

text \<open>
  \<open>Path::ancestors\<close>: the path itself, then \<open>parent\<close> until there is none. The segments are given
  last first; a parent drops the last component and the separators and \<open>.\<close> segments around it.
\<close>

function up :: "bool \<Rightarrow> string list \<Rightarrow> string list" where
  "up absolute segs =
     (case dropWhile blank_segment segs of
        [] \<Rightarrow> []
      | _ # rest \<Rightarrow>
          let rest = dropWhile blank_segment rest
          in unsplit absolute (rev rest) # up absolute rest)"
  by pat_completeness auto

termination
  by (relation "measure (\<lambda>(a, segs). length segs)") (auto dest: length_dropWhile_Cons)

declare up.simps [simp del]

definition ancestors :: "string \<Rightarrow> string list" where
  "ancestors path = path # up (is_absolute path) (rev (split_char CHR ''/'' path))"

text \<open>\<open>dir.parent().is_none()\<close>: no component is left.\<close>

definition no_parent :: "string \<Rightarrow> bool" where
  "no_parent path = (components path = [])"

text \<open>\<open>Path::join\<close>.\<close>

definition path_join :: "string \<Rightarrow> string \<Rightarrow> string" where
  "path_join base rest =
     (if is_absolute rest then rest
      else if base = [] \<or> last base = CHR ''/'' then base @ rest
      else base @ ''/'' @ rest)"

subsection \<open>The lookup\<close>

definition home_prefixes :: "string list" where
  "home_prefixes = [''~/'', ''$HOME/'']"

definition cache_limit :: nat where
  "cache_limit = 50000"

record git_roots =
  gr_home :: "string option"
  gr_known :: "((bool \<times> string list) \<times> string option) list"

definition git_roots_new :: "string option \<Rightarrow> git_roots" where
  "git_roots_new home = \<lparr>gr_home = home, gr_known = []\<rparr>"

fun expand_prefixes :: "string option \<Rightarrow> string list \<Rightarrow> string \<Rightarrow> string option" where
  "expand_prefixes home [] path = (if is_absolute path then Some path else None)"
| "expand_prefixes home (pre # pres) path =
     (case strip_prefix pre path of
        None \<Rightarrow> expand_prefixes home pres path
      | Some rest \<Rightarrow> (case home of None \<Rightarrow> None | Some home \<Rightarrow> Some (path_join home rest)))"

definition expand :: "string option \<Rightarrow> string \<Rightarrow> string option" where
  "expand home path = expand_prefixes home home_prefixes path"

definition is_boundary :: "string option \<Rightarrow> string \<Rightarrow> bool" where
  "is_boundary home dir =
     (no_parent dir \<or> (case home of None \<Rightarrow> False | Some home \<Rightarrow> dir_key home = dir_key dir))"

text \<open>The walk up: what was found, and the directories visited before.\<close>

fun walk ::
  "(string \<Rightarrow> bool) \<Rightarrow> git_roots \<Rightarrow> string list \<Rightarrow> string list \<Rightarrow> string option \<times> string list" where
  "walk git g [] visited = (None, visited)"
| "walk git g (dir # dirs) visited =
     (case map_of (gr_known g) (dir_key dir) of
        Some known \<Rightarrow> (known, visited)
      | None \<Rightarrow>
          let visited = visited @ [dir]
          in if is_boundary (gr_home g) dir then (None, visited)
             else if git dir then (Some dir, visited)
             else walk git g dirs visited)"

fun remember ::
  "string option \<Rightarrow> string list \<Rightarrow> ((bool \<times> string list) \<times> string option) list \<Rightarrow>
     ((bool \<times> string list) \<times> string option) list" where
  "remember found [] known = known"
| "remember found (dir # dirs) known =
     remember found dirs ((dir_key dir, found) # filter (\<lambda>e. fst e \<noteq> dir_key dir) known)"

definition repo_of :: "(string \<Rightarrow> bool) \<Rightarrow> git_roots \<Rightarrow> string \<Rightarrow> string option \<times> git_roots" where
  "repo_of git g path =
     (case expand (gr_home g) path of
        None \<Rightarrow> (None, g)
      | Some path \<Rightarrow>
          let (found, visited) = walk git g (ancestors path) [];
              known = (if length (gr_known g) > cache_limit then [] else gr_known g)
          in (found, g\<lparr>gr_known := remember found visited known\<rparr>))"

subsection \<open>The lookup without a cache\<close>

fun first_repo :: "(string \<Rightarrow> bool) \<Rightarrow> string option \<Rightarrow> string list \<Rightarrow> string option" where
  "first_repo git home [] = None"
| "first_repo git home (dir # dirs) =
     (if is_boundary home dir then None
      else if git dir then Some dir
      else first_repo git home dirs)"

definition repo_of_reference :: "(string \<Rightarrow> bool) \<Rightarrow> string option \<Rightarrow> string \<Rightarrow> string option" where
  "repo_of_reference git home path =
     (case expand home path of None \<Rightarrow> None | Some path \<Rightarrow> first_repo git home (ancestors path))"

text \<open>Two answers that name the same directory.\<close>

definition same_answer :: "string option \<Rightarrow> string option \<Rightarrow> bool" where
  "same_answer a b = (map_option dir_key a = map_option dir_key b)"

subsection \<open>The directories of the walk\<close>

text \<open>The keys of a path's ancestors: its components, then one less at a time.\<close>

function keys_up :: "bool \<Rightarrow> string list \<Rightarrow> (bool \<times> string list) list" where
  "keys_up ab cs = (ab, cs) # (if cs = [] then [] else keys_up ab (butlast cs))"
  by pat_completeness auto

termination by (relation "measure (\<lambda>(a, cs). length cs)") auto

declare keys_up.simps [simp del]

definition segs_ok :: "bool \<Rightarrow> string list \<Rightarrow> bool" where
  "segs_ok ab segs \<longleftrightarrow> (\<forall>seg \<in> set segs. CHR ''/'' \<notin> set seg) \<and> (segs \<noteq> [] \<longrightarrow> (ab \<longleftrightarrow> last segs = []))"

lemma last_dropWhile: "dropWhile P xs \<noteq> [] \<Longrightarrow> last (dropWhile P xs) = last xs"
  by (induction xs) (auto split: if_splits)

lemma segs_ok_dropWhile: "segs_ok ab segs \<Longrightarrow> segs_ok ab (dropWhile P segs)"
  unfolding segs_ok_def by (auto dest: set_dropWhileD simp: last_dropWhile)

lemma segs_ok_Cons: "segs_ok ab (seg # segs) \<Longrightarrow> segs_ok ab segs"
  by (cases segs) (auto simp: segs_ok_def)

lemma is_absolute_join:
  "segs \<noteq> [] \<Longrightarrow> \<forall>seg \<in> set segs. CHR ''/'' \<notin> set seg \<Longrightarrow>
     is_absolute (join ''/'' segs) \<longleftrightarrow> hd segs = [] \<and> tl segs \<noteq> []"
  by (cases "(''/'', segs)" rule: join.cases)
    (auto simp: is_absolute_def starts_with_iff Cons_eq_append_conv append_eq_Cons_conv)

lemma dir_key_unsplit:
  assumes "segs_ok ab (dropWhile blank_segment segs)"
  shows "dir_key (unsplit ab (rev (dropWhile blank_segment segs))) =
     (ab, filter (\<lambda>seg. \<not> blank_segment seg) (rev segs))"
proof -
  define rest where "rest = dropWhile blank_segment segs"
  have f: "filter (\<lambda>seg. \<not> blank_segment seg) (rev segs) = filter (\<lambda>seg. \<not> blank_segment seg) (rev rest)"
    unfolding rest_def by (induction segs) auto
  show ?thesis
  proof (cases "rest = []")
    case True
    with f have "filter (\<lambda>seg. \<not> blank_segment seg) (rev segs) = []" by simp
    with True show ?thesis
      unfolding rest_def [symmetric]
      by (simp add: dir_key_def components_def unsplit_def is_absolute_def starts_with_def blank_segment_def)
  next
    case False
    then obtain y ys where r: "rest = y # ys" by (cases rest) auto
    then have y: "\<not> blank_segment y" unfolding rest_def by (metis hd_dropWhile list.discI list.sel(1))
    have ok: "segs_ok ab rest" using assms by (simp add: rest_def)
    then have "hd (rev rest) = [] \<and> tl (rev rest) \<noteq> [] \<longleftrightarrow> ab"
      using False y unfolding segs_ok_def r
      by (cases ys rule: rev_cases) (auto simp: blank_segment_def hd_rev)
    moreover have "components (join ''/'' (rev rest)) = filter (\<lambda>seg. \<not> blank_segment seg) (rev rest)"
      using ok False unfolding components_def segs_ok_def by (simp add: split_char_join)
    moreover have "is_absolute (join ''/'' (rev rest)) \<longleftrightarrow> hd (rev rest) = [] \<and> tl (rev rest) \<noteq> []"
      using ok False unfolding segs_ok_def by (intro is_absolute_join) auto
    ultimately show ?thesis
      using False by (simp add: f dir_key_def unsplit_def flip: rest_def)
  qed
qed

lemma map_dir_key_up:
  "segs_ok ab segs \<Longrightarrow>
     map dir_key (up ab segs) =
       (let cs = filter (\<lambda>seg. \<not> blank_segment seg) (rev segs)
        in if cs = [] then [] else keys_up ab (butlast cs))"
proof (induction ab segs rule: up.induct)
  case (1 ab segs)
  show ?case
  proof (cases "dropWhile blank_segment segs")
    case Nil
    then have "\<forall>x \<in> set segs. blank_segment x" by (simp add: dropWhile_eq_Nil_conv)
    then show ?thesis by (subst up.simps) (simp add: Nil filter_empty_conv)
  next
    case (Cons y rest)
    let ?cs = "\<lambda>s. filter (\<lambda>seg. \<not> blank_segment seg) (rev s)"
    have y: "\<not> blank_segment y" using Cons by (metis hd_dropWhile list.discI list.sel(1))
    have drop: "?cs (dropWhile blank_segment xs) = ?cs xs" for xs by (induction xs) auto
    have cs: "?cs segs = ?cs rest @ [y]"
      using drop [of segs] y unfolding Cons by simp
    have rest: "segs_ok ab (dropWhile blank_segment rest)"
      using segs_ok_dropWhile segs_ok_Cons "1.prems" Cons by metis
    from "1.IH" [OF Cons refl rest] have
      "map dir_key (up ab (dropWhile blank_segment rest)) =
        (if ?cs rest = [] then [] else keys_up ab (butlast (?cs rest)))"
      by (simp add: drop)
    then show ?thesis
      by (subst up.simps, subst keys_up.simps) (simp add: Cons cs Let_def dir_key_unsplit rest)
  qed
qed

lemma split_char_no_slash: "seg \<in> set (split_char c s) \<Longrightarrow> c \<notin> set seg"
  by (induction s arbitrary: seg) (auto split: list.splits if_splits)

lemma hd_split_slash: "hd (split_char CHR ''/'' s) = [] \<longleftrightarrow> s = [] \<or> is_absolute s"
  by (cases s) (auto simp: is_absolute_def starts_with_iff split: list.splits)

text \<open>The directories a walk from a path visits are those above its components.\<close>

lemma map_dir_key_ancestors: "map dir_key (ancestors path) = keys_up (is_absolute path) (components path)"
proof (cases "path = []")
  case True
  then show ?thesis
    by (subst keys_up.simps)
      (simp add: ancestors_def dir_key_def components_def is_absolute_def starts_with_def up.simps blank_segment_def)
next
  case False
  then have "segs_ok (is_absolute path) (rev (split_char CHR ''/'' path))"
    using hd_split_slash [of path] by (auto simp: segs_ok_def split_char_no_slash last_rev)
  from map_dir_key_up [OF this] show ?thesis
    by (subst keys_up.simps) (simp add: ancestors_def dir_key_def components_def Let_def)
qed

text \<open>A list of directories each followed by the ancestors of the one before.\<close>

fun chain :: "string list \<Rightarrow> bool" where
  "chain [] = True"
| "chain (d # ds) = (map dir_key (d # ds) = map dir_key (ancestors d) \<and> chain ds)"

lemma chain_keys_up: "map dir_key ds = keys_up ab cs \<Longrightarrow> chain ds"
proof (induction ds arbitrary: cs)
  case (Cons d ds)
  from Cons.prems have d: "dir_key d = (ab, cs)" and
    ds: "map dir_key ds = (if cs = [] then [] else keys_up ab (butlast cs))"
    by (subst (asm) keys_up.simps, simp)+
  from ds have "chain ds" by (cases "cs = []") (auto intro: Cons.IH)
  moreover have "map dir_key (ancestors d) = keys_up ab cs"
    using d by (simp add: map_dir_key_ancestors dir_key_def)
  ultimately show ?case using Cons.prems by simp
qed simp

lemma chain_ancestors: "chain (ancestors path)"
  using map_dir_key_ancestors by (rule chain_keys_up)

subsection \<open>The cache\<close>

definition respects_dirs :: "(string \<Rightarrow> bool) \<Rightarrow> bool" where
  "respects_dirs git \<longleftrightarrow> (\<forall>a b. dir_key a = dir_key b \<longrightarrow> git a = git b)"

lemma same_answer_refl [simp]: "same_answer a a"
  by (simp add: same_answer_def)

lemma same_answer_sym: "same_answer a b \<Longrightarrow> same_answer b a"
  by (simp add: same_answer_def)

lemma same_answer_trans: "same_answer a b \<Longrightarrow> same_answer b c \<Longrightarrow> same_answer a c"
  by (simp add: same_answer_def)

lemma is_boundary_key: "dir_key a = dir_key b \<Longrightarrow> is_boundary home a = is_boundary home b"
  by (auto simp: is_boundary_def no_parent_def dir_key_def split: option.split)

lemma first_repo_keys:
  assumes "respects_dirs git" "map dir_key xs = map dir_key ys"
  shows "same_answer (first_repo git home xs) (first_repo git home ys)"
proof -
  have "length xs = length ys" using assms(2) by (metis length_map)
  then show ?thesis
    using assms(2)
  proof (induction xs ys rule: list_induct2)
    case (Cons x xs y ys)
    then have "dir_key x = dir_key y" by simp
    with assms(1) have "git x = git y" unfolding respects_dirs_def by blast
    moreover have "is_boundary home x = is_boundary home y"
      using Cons.prems by (intro is_boundary_key) simp
    ultimately show ?case using Cons by (simp add: same_answer_def)
  qed simp
qed

definition cache_ok ::
  "(string \<Rightarrow> bool) \<Rightarrow> string option \<Rightarrow> ((bool \<times> string list) \<times> string option) list \<Rightarrow> bool" where
  "cache_ok git home known \<longleftrightarrow>
     (\<forall>(k, v) \<in> set known. \<forall>dir. dir_key dir = k \<longrightarrow> same_answer v (first_repo git home (ancestors dir)))"

lemma walk_reference:
  assumes "respects_dirs git" "cache_ok git (gr_home g) (gr_known g)" "chain dirs"
    and "walk git g dirs visited = (found, visited')"
  shows "same_answer found (first_repo git (gr_home g) dirs) \<and>
     (\<exists>new. visited' = visited @ new \<and>
        (\<forall>dir \<in> set new. same_answer found (first_repo git (gr_home g) (ancestors dir))))"
  using assms(3,4)
proof (induction dirs arbitrary: visited)
  case (Cons dir dirs)
  let ?ref = "first_repo git (gr_home g)"
  have here: "same_answer (?ref (dir # dirs)) (?ref (ancestors dir))"
    using Cons.prems(1) by (intro first_repo_keys [OF assms(1)]) simp
  show ?case
  proof (cases "map_of (gr_known g) (dir_key dir)")
    case (Some known)
    then have "(dir_key dir, known) \<in> set (gr_known g)" by (rule map_of_SomeD)
    with assms(2) have "same_answer known (?ref (ancestors dir))" by (auto simp: cache_ok_def)
    from same_answer_trans [OF this same_answer_sym [OF here]] Cons.prems(2) Some show ?thesis by simp
  next
    case None
    show ?thesis
    proof (cases "is_boundary (gr_home g) dir \<or> git dir")
      case True
      with Cons.prems(2) None here show ?thesis by (auto simp: Let_def split: if_splits)
    next
      case False
      with Cons.prems(2) None have "walk git g dirs (visited @ [dir]) = (found, visited')" by simp
      from Cons.IH [OF _ this] Cons.prems(1) obtain new where
        "same_answer found (?ref dirs)" "visited' = (visited @ [dir]) @ new"
        "\<forall>dir \<in> set new. same_answer found (?ref (ancestors dir))" by auto
      moreover from this(1) False here have "same_answer found (?ref (ancestors dir))"
        by (auto intro: same_answer_trans)
      ultimately show ?thesis using False by (auto intro!: exI [of _ "dir # new"])
    qed
  qed
qed simp

lemma cache_ok_remember:
  assumes "respects_dirs git" "cache_ok git home known"
    and "\<forall>dir \<in> set dirs. same_answer found (first_repo git home (ancestors dir))"
  shows "cache_ok git home (remember found dirs known)"
  using assms(2,3)
proof (induction dirs arbitrary: known)
  case (Cons dir dirs)
  have "same_answer found (first_repo git home (ancestors d))" if "dir_key d = dir_key dir" for d
  proof -
    have "map dir_key (ancestors dir) = map dir_key (ancestors d)"
      using that by (simp add: map_dir_key_ancestors dir_key_def)
    from first_repo_keys [OF assms(1) this] Cons.prems(2) show ?thesis
      by (auto intro: same_answer_trans)
  qed
  with Cons.prems have "cache_ok git home ((dir_key dir, found) # filter (\<lambda>e. fst e \<noteq> dir_key dir) known)"
    by (auto simp: cache_ok_def)
  with Cons show ?case by simp
qed simp

lemma repo_of_step:
  assumes "respects_dirs git" "cache_ok git (gr_home g) (gr_known g)"
    and "repo_of git g path = (found, g')"
  shows "same_answer found (repo_of_reference git (gr_home g) path) \<and> gr_home g' = gr_home g \<and>
     cache_ok git (gr_home g') (gr_known g')"
proof (cases "expand (gr_home g) path")
  case None
  with assms show ?thesis by (auto simp: repo_of_def repo_of_reference_def)
next
  case (Some full)
  obtain f visited where w: "walk git g (ancestors full) [] = (f, visited)" by fastforce
  note ref = walk_reference [OF assms(1,2) chain_ancestors w]
  have "cache_ok git (gr_home g) (if length (gr_known g) > cache_limit then [] else gr_known g)"
    using assms(2) by (simp add: cache_ok_def)
  from cache_ok_remember [OF assms(1) this, of visited f] ref assms(3) Some w show ?thesis
    by (auto simp: repo_of_def repo_of_reference_def Let_def)
qed

fun lookups :: "(string \<Rightarrow> bool) \<Rightarrow> git_roots \<Rightarrow> string list \<Rightarrow> string option list" where
  "lookups git g [] = []"
| "lookups git g (path # paths) =
     (let (found, g) = repo_of git g path in found # lookups git g paths)"

lemma lookups_cached:
  assumes "respects_dirs git" "cache_ok git (gr_home g) (gr_known g)"
  shows "list_all2 same_answer (lookups git g paths) (map (repo_of_reference git (gr_home g)) paths)"
  using assms(2)
proof (induction paths arbitrary: g)
  case (Cons path paths)
  obtain found g' where r: "repo_of git g path = (found, g')" by fastforce
  from repo_of_step [OF assms(1) Cons.prems r]
  have "same_answer found (repo_of_reference git (gr_home g) path)" "gr_home g' = gr_home g"
    "cache_ok git (gr_home g') (gr_known g')" by auto
  with Cons.IH [of g'] show ?case by (simp add: r)
qed simp

text \<open>
  C23. The cache of repository roots changes no answer: over any sequence of lookups on a fixed file
  system, also across the times it is emptied because it has grown past its limit, each answer names
  the directory the walk without a cache would have found.
\<close>

theorem lookups_reference:
  assumes "\<forall>a b. dir_key a = dir_key b \<longrightarrow> git a = git b"
  shows "list_all2 same_answer (lookups git (git_roots_new home) paths)
     (map (repo_of_reference git home) paths)"
proof -
  have "respects_dirs git" unfolding respects_dirs_def by (rule assms)
  from lookups_cached [OF this, of "git_roots_new home" paths] show ?thesis
    by (simp add: git_roots_new_def cache_ok_def)
qed

definition sample_git :: "string \<Rightarrow> bool" where
  "sample_git dir = (components dir = [''home'', ''u'', ''r''])"

lemma sample_reference:
  "repo_of_reference sample_git (Some ''/home/u'') ''~/r/a/b'' = Some ''/home/u/r''"
  "repo_of_reference sample_git (Some ''/home/u'') ''/etc/x'' = None"
  by code_simp+

theorem lookups_reference_witness:
  "list_all2 same_answer
     (lookups sample_git (git_roots_new (Some ''/home/u'')) [''~/r/a/b'', ''/etc/x''])
     [Some ''/home/u/r'', None]"
  using lookups_reference [of sample_git "Some ''/home/u''" "[''~/r/a/b'', ''/etc/x'']"]
  unfolding list.map sample_reference by (simp add: sample_git_def dir_key_def del: lookups.simps)

end
