(* ===== verification/Claude_Files.thy ===== *)
theory Claude_Files
  imports Claude_Lines Repo_Roots
begin

text \<open>
  Reading a transcript file in increments, \<open>src/src/providers/claude_code.rs\<close>: the cursor that says
  how far a file has been read, \<open>read_increment\<close> with its budgets and its two notions of a file's
  identity, and the keys cursors are stored under. A file is its inode, its bytes and its time of
  modification; a failing system call is the \<open>Inl\<close> of an \<open>io\<close> result. \<open>parse_json\<close> is
  \<open>serde_json::from_slice\<close>, \<open>sha\<close> the hash.
\<close>

definition newline :: char where
  "newline = CHR 0x0A"

definition cursor_version :: nat where "cursor_version = 1"
definition head_hex_chars :: nat where "head_hex_chars = 16"
definition max_line_bytes :: nat where "max_line_bytes = 32 * 1024 * 1024"
definition head_hash_bytes :: nat where "head_hash_bytes = 64 * 1024"

type_synonym 'a io = "(string, 'a) res"

record transcript =
  fl_inode :: nat
  fl_bytes :: string
  fl_modified :: "int option"   \<comment> \<open>milliseconds since the epoch, if the time is known and not before it\<close>

record file_cursor =
  fc_inode :: nat
  fc_offset :: nat
  fc_last_message_ts :: "int option"
  fc_version :: nat
  fc_head :: "string option"
  fc_skipping :: bool

record read_budget =
  rb_max_records :: nat
  rb_max_bytes :: nat
  rb_max_scan_bytes :: nat

definition default_budget :: read_budget where
  "default_budget =
     \<lparr>rb_max_records = 500, rb_max_bytes = 4 * 1024 * 1024, rb_max_scan_bytes = 32 * 1024 * 1024\<rparr>"

datatype file_identity = Inode | Head

record source =
  so_profile :: string
  so_repo_of :: "string \<Rightarrow> string option"
  so_identity :: file_identity
  so_touches :: touches
  so_since :: "timestamp option"

record increment =
  in_drafts :: "record_draft list"
  in_cursor :: file_cursor

subsection \<open>Reading bytes\<close>

text \<open>
  The bytes from the reader's position to the next newline, it included, or to the limit: how many
  they are and whether the newline was among them.
\<close>

fun skip_through_newline :: "string \<Rightarrow> nat \<Rightarrow> nat \<times> bool" where
  "skip_through_newline [] limit = (0, False)"
| "skip_through_newline (c # cs) limit =
     (if limit = 0 then (0, False)
      else if c = newline then (1, True)
      else let (n, reached) = skip_through_newline cs (limit - 1) in (n + 1, reached))"

text \<open>\<open>take(cap).read_until(b'\n')\<close>.\<close>

fun read_until_newline :: "nat \<Rightarrow> string \<Rightarrow> string" where
  "read_until_newline cap [] = []"
| "read_until_newline cap (c # cs) =
     (if cap = 0 then []
      else if c = newline then [c]
      else c # read_until_newline (cap - 1) cs)"

definition ends_line :: "string \<Rightarrow> bool" where
  "ends_line line \<longleftrightarrow> line \<noteq> [] \<and> last line = newline"

definition head_digest :: "(string \<Rightarrow> string) \<Rightarrow> transcript \<Rightarrow> string option" where
  "head_digest sha f =
     (let head = read_until_newline head_hash_bytes (fl_bytes f)
      in if \<not> ends_line head \<and> length head < head_hash_bytes then None
         else Some (hex_bytes (take (head_hex_chars div 2) (sha head))))"

definition modified_millis :: "timestamp \<Rightarrow> int option \<Rightarrow> timestamp" where
  "modified_millis now modified =
     (case modified of None \<Rightarrow> now | Some since_epoch \<Rightarrow> Timestamp (wrap64 since_epoch))"

text \<open>\<open>path.file_stem()\<close>: the last component without its extension.\<close>

definition file_name :: "string \<Rightarrow> string option" where
  "file_name path =
     (let cs = components path in if cs = [] \<or> last cs = ''..'' then None else Some (last cs))"

definition file_stem :: "string \<Rightarrow> string option" where
  "file_stem path =
     (case file_name path of
        None \<Rightarrow> None
      | Some name \<Rightarrow>
          (case rev (split_char CHR ''.'' name) of
             ext # before # others \<Rightarrow>
               let stem = join ''.'' (rev (before # others)) in Some (if stem = [] then name else stem)
           | _ \<Rightarrow> Some name))"

subsection \<open>One increment\<close>

definition line_cap :: "file_identity \<Rightarrow> nat" where
  "line_cap i = (case i of Head \<Rightarrow> max_line_bytes | Inode \<Rightarrow> 2 ^ 64 - 1)"

definition fresh_cursor :: "nat \<Rightarrow> string option \<Rightarrow> file_cursor" where
  "fresh_cursor inode digest =
     \<lparr>fc_inode = inode, fc_offset = 0, fc_last_message_ts = None, fc_version = cursor_version,
      fc_head = digest, fc_skipping = False\<rparr>"

text \<open>Where reading starts: nowhere, when the head of an imported file is not complete or it shrank.\<close>

definition resume :: "(string \<Rightarrow> string) \<Rightarrow> file_identity \<Rightarrow> transcript \<Rightarrow> file_cursor option \<Rightarrow> file_cursor option" where
  "resume sha i f cur =
     (case i of
        Inode \<Rightarrow>
          Some (case cur of
                  Some c \<Rightarrow>
                    if fc_inode c = fl_inode f \<and> fc_offset c \<le> length (fl_bytes f) then c
                    else fresh_cursor (fl_inode f) None
                | None \<Rightarrow> fresh_cursor (fl_inode f) None)
      | Head \<Rightarrow>
          (case head_digest sha f of
             None \<Rightarrow> None
           | Some digest \<Rightarrow>
               (case cur of
                  Some c \<Rightarrow>
                    if fc_head c = Some digest then
                      (if fc_offset c > length (fl_bytes f) then None
                       else Some (c\<lparr>fc_inode := fl_inode f\<rparr>))
                    else Some (fresh_cursor (fl_inode f) (Some digest))
                | None \<Rightarrow> Some (fresh_cursor (fl_inode f) (Some digest)))))"

record reading =
  rd_parse_json :: "string \<Rightarrow> json option"
  rd_parse_ts :: "string \<Rightarrow> int option"
  rd_source :: source
  rd_fallback_session_id :: string
  rd_file_modified :: timestamp

definition context_of :: "reading \<Rightarrow> int option \<Rightarrow> line_context" where
  "context_of r last_ts =
     \<lparr>lc_profile = so_profile (rd_source r), lc_repo_of = so_repo_of (rd_source r),
      lc_touches = so_touches (rd_source r), lc_fallback_session_id = rd_fallback_session_id r,
      lc_last_message_ts = map_option Timestamp last_ts, lc_file_modified = rd_file_modified r\<rparr>"

definition text_length :: "record_draft \<Rightarrow> nat" where
  "text_length d = (case get_str (dr_payload d) ''text'' of None \<Rightarrow> 0 | Some txt \<Rightarrow> length txt)"

definition wanted :: "timestamp option \<Rightarrow> record_draft \<Rightarrow> bool" where
  "wanted since d = (case since of None \<Rightarrow> True | Some since \<Rightarrow> \<not> dr_ts d < since)"

text \<open>What a complete line adds: its records, and the time of its message if it has one.\<close>

definition read_line :: "reading \<Rightarrow> int option \<Rightarrow> string \<Rightarrow> record_draft list \<times> int option" where
  "read_line r last_ts line =
     (case rd_parse_json r line of
        None \<Rightarrow> ([], last_ts)
      | Some v \<Rightarrow>
          let outcome = drafts_from_line (rd_parse_ts r) v (context_of r last_ts)
          in (filter (wanted (so_since (rd_source r))) (lo_drafts outcome),
              case lo_message_ts outcome of None \<Rightarrow> last_ts | Some ts \<Rightarrow> Some (millis ts)))"

record scan =
  sc_offset :: nat
  sc_last_ts :: "int option"
  sc_skipping :: bool
  sc_drafts :: "record_draft list"
  sc_text_bytes :: nat

definition within_budget :: "read_budget \<Rightarrow> nat \<Rightarrow> scan \<Rightarrow> bool" where
  "within_budget b start sc \<longleftrightarrow>
     length (sc_drafts sc) < rb_max_records b \<and> sc_text_bytes sc < rb_max_bytes b \<and>
     sc_offset sc - start < rb_max_scan_bytes b"

definition read_cap :: "read_budget \<Rightarrow> nat \<Rightarrow> nat \<Rightarrow> nat" where
  "read_cap b cap scanned = (if scanned = 0 then cap else min cap (rb_max_scan_bytes b - scanned))"

lemma skip_reached: "skip_through_newline rest limit = (n, True) \<Longrightarrow> 0 < n \<and> n \<le> length rest"
  by (induction rest limit arbitrary: n rule: skip_through_newline.induct)
    (auto split: if_splits prod.splits)

lemma length_read_until_le: "length (read_until_newline cap rest) \<le> length rest"
  by (induction cap rest rule: read_until_newline.induct) auto

lemma line_cap_pos: "0 < line_cap i"
  by (cases i) (simp_all add: line_cap_def max_line_bytes_def)

text \<open>The loop of \<open>read_increment\<close>, over the bytes from the offset on.\<close>

function read_loop :: "reading \<Rightarrow> read_budget \<Rightarrow> nat \<Rightarrow> scan \<Rightarrow> string \<Rightarrow> scan" where
  "read_loop r b start sc rest =
     (if \<not> within_budget b start sc then sc
      else if sc_skipping sc then
        let (n, reached) = skip_through_newline rest (rb_max_scan_bytes b - (sc_offset sc - start));
            sc = sc\<lparr>sc_offset := sc_offset sc + n, sc_skipping := \<not> reached\<rparr>
        in if \<not> reached then sc else read_loop r b start sc (drop n rest)
      else
        let cap = line_cap (so_identity (rd_source r));
            limit = read_cap b cap (sc_offset sc - start);
            line = read_until_newline limit rest
        in if \<not> ends_line line then
             (if length line < limit \<or> limit < cap then sc
              else read_loop r b start
                     (sc\<lparr>sc_offset := sc_offset sc + length line, sc_skipping := True\<rparr>)
                     (drop (length line) rest))
           else
             let (drafts, last_ts) = read_line r (sc_last_ts sc) line
             in read_loop r b start
                  (sc\<lparr>sc_offset := sc_offset sc + length line, sc_last_ts := last_ts,
                      sc_drafts := sc_drafts sc @ drafts,
                      sc_text_bytes := sc_text_bytes sc + sum_list (map text_length drafts)\<rparr>)
                  (drop (length line) rest))"
  by pat_completeness auto

termination
proof (relation "measure (\<lambda>(r, b, start, sc, rest). length rest)", goal_cases)
  case (2 r b start sc rest x n reached sc')
  then show ?case by (auto dest!: skip_reached [OF sym])
next
  case (3 r b start sc rest cap limit line)
  from 3 have "\<not> (length line < limit \<or> limit < cap)" "0 < cap" by (simp_all add: line_cap_pos)
  then have "0 < length line" by linarith
  moreover have "length line \<le> length rest" using 3 by (simp add: length_read_until_le)
  ultimately show ?case unfolding in_measure prod.case length_drop by linarith
next
  case (4 r b start sc rest cap limit line x drafts last_ts)
  then have "0 < length line" by (auto simp: ends_line_def)
  moreover have "length line \<le> length rest" using 4 by (simp add: length_read_until_le)
  ultimately show ?case unfolding in_measure prod.case length_drop by linarith
qed simp

declare read_loop.simps [simp del]

record claude_lib =
  cl_parse_json :: "string \<Rightarrow> json option"   \<comment> \<open>\<open>serde_json::from_slice\<close>\<close>
  cl_parse_ts :: "string \<Rightarrow> int option"      \<comment> \<open>\<open>DateTime::parse_from_rfc3339\<close>, in milliseconds\<close>
  cl_sha :: "string \<Rightarrow> string"

definition reading_of :: "claude_lib \<Rightarrow> string \<Rightarrow> source \<Rightarrow> timestamp \<Rightarrow> reading" where
  "reading_of lib path src modified =
     \<lparr>rd_parse_json = cl_parse_json lib, rd_parse_ts = cl_parse_ts lib, rd_source = src,
      rd_fallback_session_id = (case file_stem path of None \<Rightarrow> [] | Some stem \<Rightarrow> stem),
      rd_file_modified = modified\<rparr>"

definition start_scan :: "file_cursor \<Rightarrow> scan" where
  "start_scan c =
     \<lparr>sc_offset = fc_offset c, sc_last_ts = fc_last_message_ts c, sc_skipping = fc_skipping c,
      sc_drafts = [], sc_text_bytes = 0\<rparr>"

definition read_increment ::
  "claude_lib \<Rightarrow> timestamp \<Rightarrow> string \<Rightarrow> source \<Rightarrow> file_cursor option \<Rightarrow> read_budget \<Rightarrow> transcript io \<Rightarrow>
     increment option io" where
  "read_increment lib now path src cur b opened =
     (case opened of
        Inl e \<Rightarrow> Inl e
      | Inr f \<Rightarrow>
          (case resume (cl_sha lib) (so_identity src) f cur of
             None \<Rightarrow> Inr None
           | Some start \<Rightarrow>
               if length (fl_bytes f) = fc_offset start then Inr None
               else let r = reading_of lib path src (modified_millis now (fl_modified f));
                        sc = read_loop r b (fc_offset start) (start_scan start)
                               (drop (fc_offset start) (fl_bytes f))
                    in if sc_offset sc = fc_offset start then Inr None
                       else Inr (Some
                         \<lparr>in_drafts = sc_drafts sc,
                          in_cursor =
                            \<lparr>fc_inode = fl_inode f, fc_offset = sc_offset sc,
                             fc_last_message_ts = sc_last_ts sc, fc_version = cursor_version,
                             fc_head = fc_head start, fc_skipping = sc_skipping sc\<rparr>\<rparr>)))"

subsection \<open>Stored cursors\<close>

text \<open>
  The serialised cursor, as the JSON value \<open>serde\<close> derives: every member is written; reading takes
  the defaults for \<open>version\<close>, \<open>head\<close> and \<open>skipping\<close>, needs \<open>inode\<close> and \<open>offset\<close>, and a number must
  fit its width.
\<close>

definition json_unsigned :: "nat \<Rightarrow> json \<Rightarrow> nat option" where
  "json_unsigned w v =
     (case v of JInt i \<Rightarrow> if 0 \<le> i \<and> i < 2 ^ w then Some (nat i) else None | _ \<Rightarrow> None)"

definition json_signed :: "nat \<Rightarrow> json \<Rightarrow> int option" where
  "json_signed w v =
     (case v of JInt i \<Rightarrow> if - (2 ^ (w - 1)) \<le> i \<and> i < 2 ^ (w - 1) then Some i else None | _ \<Rightarrow> None)"

text \<open>An \<open>Option\<close> field: missing or null is \<open>None\<close>; a value of the wrong type is an error.\<close>

definition optional_field :: "(json \<Rightarrow> 'a option) \<Rightarrow> json option \<Rightarrow> 'a option option" where
  "optional_field read field =
     (case field of
        None \<Rightarrow> Some None
      | Some JNull \<Rightarrow> Some None
      | Some v \<Rightarrow> map_option Some (read v))"

fun encode_cursor :: "file_cursor \<Rightarrow> json" where
  "encode_cursor c =
     JObject
       [(''inode'', JInt (int (fc_inode c))),
        (''offset'', JInt (int (fc_offset c))),
        (''last_message_ts'', case fc_last_message_ts c of None \<Rightarrow> JNull | Some ts \<Rightarrow> JInt ts),
        (''version'', JInt (int (fc_version c))),
        (''head'', case fc_head c of None \<Rightarrow> JNull | Some h \<Rightarrow> JString h),
        (''skipping'', JBool (fc_skipping c))]"

fun parse_cursor :: "json \<Rightarrow> file_cursor option" where
  "parse_cursor (JObject m) =
     Option.bind (Option.bind (obj_get m ''inode'') (json_unsigned 64)) (\<lambda>inode.
     Option.bind (Option.bind (obj_get m ''offset'') (json_unsigned 64)) (\<lambda>off.
     Option.bind (optional_field (json_signed 64) (obj_get m ''last_message_ts'')) (\<lambda>ts.
     Option.bind (default_field 0 (json_unsigned 32) (obj_get m ''version'')) (\<lambda>ver.
     Option.bind (optional_field as_str (obj_get m ''head'')) (\<lambda>digest.
     Option.bind (default_field False as_bool (obj_get m ''skipping'')) (\<lambda>skipping.
       Some \<lparr>fc_inode = inode, fc_offset = off, fc_last_message_ts = ts, fc_version = ver,
             fc_head = digest, fc_skipping = skipping\<rparr>))))))"
| "parse_cursor _ = None"

definition decode_cursor :: "json option \<Rightarrow> file_cursor option" where
  "decode_cursor stored =
     (case Option.bind stored parse_cursor of
        None \<Rightarrow> None
      | Some c \<Rightarrow> if fc_version c < cursor_version then None else Some c)"

definition cursor_key :: "string \<Rightarrow> string option \<Rightarrow> string" where
  "cursor_key path device =
     (case device of
        Some device \<Rightarrow> ''import-file:'' @ dec_nat (length device) @ '':'' @ device @ '':'' @ path
      | None \<Rightarrow> path)"

definition pull_key :: "string \<Rightarrow> string" where
  "pull_key device = ''import-pull:'' @ device"

text \<open>\<open>every\<close> seconds as milliseconds, at the width of \<open>i64\<close>.\<close>

definition every_millis :: "nat \<Rightarrow> int" where
  "every_millis every = min (min (int every) (2 ^ 63 - 1) * 1000) (2 ^ 63 - 1)"

definition pull_due :: "timestamp option \<Rightarrow> timestamp \<Rightarrow> nat \<Rightarrow> bool" where
  "pull_due last_attempt now every =
     (case last_attempt of
        None \<Rightarrow> True
      | Some prev \<Rightarrow>
          if millis now < millis prev then False
          else wrap64 (millis now - millis prev) \<ge> every_millis every)"

text \<open>The stored schedule of a pull: the time of the last attempt.\<close>

definition encode_schedule :: "timestamp \<Rightarrow> json" where
  "encode_schedule last_attempt = JObject [(''last_attempt_at'', JInt (millis last_attempt))]"

definition decode_schedule :: "json option \<Rightarrow> timestamp option" where
  "decode_schedule stored =
     (case stored of
        Some (JObject m) \<Rightarrow>
          map_option Timestamp (Option.bind (obj_get m ''last_attempt_at'') (json_signed 64))
      | _ \<Rightarrow> None)"

end
