(* ===== verification/Config.thy ===== *)
theory Config
  imports Buffer Claude_Files
begin

text \<open>
  The configuration, \<open>src/src/config.rs\<close>: where its file and the state directory are, what the file
  may hold (the members \<open>serde\<close> reads, with their types, defaults and unknown members refused), and
  the checks that turn the file into the configuration the daemon runs with. \<open>toml\<close> is the value the
  TOML parser returns; that parser, \<open>Url::parse\<close> and \<open>DateTime::parse_from_rfc3339\<close> are parameters
  in \<open>config_lib\<close>, each with the text of its error.
\<close>

definition tick_interval_min :: int where "tick_interval_min = 1"
definition tick_interval_max :: int where "tick_interval_max = 3600"
definition history_poll_interval_min :: nat where "history_poll_interval_min = 1"
definition claude_code_poll_interval_min :: nat where "claude_code_poll_interval_min = 1"
definition claude_code_pull_every_min :: nat where "claude_code_pull_every_min = 1"

definition default_config_relative :: string where
  "default_config_relative = ''.config/nikki/config.toml''"

definition default_state_relative :: string where
  "default_state_relative = ''Library/Application Support/nikki''"

datatype config_error =
    NoHome string string
  | ReadFailed string string
  | ParseFailed string string
  | Missing string
  | Invalid string string

text \<open>A value in backticks, as the messages quote it.\<close>

definition quoted :: "string \<Rightarrow> string" where
  "quoted s = CHR 0x60 # s @ [CHR 0x60]"

subsection \<open>Paths\<close>

record paths =
  pa_config :: string
  pa_state_dir :: string
  pa_home :: "string option"

definition resolve_paths :: "string option \<Rightarrow> string option \<Rightarrow> string option \<Rightarrow> (config_error, paths) res" where
  "resolve_paths config state_dir home =
     res_bind
       (case config of
          Some config \<Rightarrow> Inr config
        | None \<Rightarrow>
            (case home of
               None \<Rightarrow> Inl (NoHome ''NIKKI_CONFIG'' ''config file'')
             | Some home \<Rightarrow> Inr (path_join home default_config_relative)))
       (\<lambda>config. res_bind
         (case state_dir of
            Some state_dir \<Rightarrow> Inr state_dir
          | None \<Rightarrow>
              (case home of
                 None \<Rightarrow> Inl (NoHome ''NIKKI_STATE_DIR'' ''state directory'')
               | Some home \<Rightarrow> Inr (path_join home default_state_relative)))
         (\<lambda>state_dir. Inr \<lparr>pa_config = config, pa_state_dir = state_dir, pa_home = home\<rparr>))"

text \<open>An environment variable that is unset, not Unicode or empty counts as unset.\<close>

definition var :: "(string \<Rightarrow> string option) \<Rightarrow> string \<Rightarrow> string option" where
  "var env k =
     (case env k of None \<Rightarrow> None | Some val \<Rightarrow> if val = [] then None else Some val)"

definition paths_from_env :: "(string \<Rightarrow> string option) \<Rightarrow> (config_error, paths) res" where
  "paths_from_env env =
     resolve_paths (var env ''NIKKI_CONFIG'') (var env ''NIKKI_STATE_DIR'') (var env ''HOME'')"

subsection \<open>The configuration\<close>

record claude_root =
  cr_profile :: string
  cr_projects :: string

record pull =
  pl_program :: string
  pl_args :: "string list"
  pl_every :: nat

record claude_import =
  ci_device :: string
  ci_projects :: string
  ci_since :: timestamp
  ci_pull :: "pull option"

record claude_code =
  cc_roots :: "claude_root list"
  cc_imports :: "claude_import list"
  cc_poll_interval :: nat

record config =
  cf_service_url :: url
  cf_device :: string
  cf_tick_interval :: nat
  cf_history_poll_interval :: nat
  cf_revisit_window :: nat
  cf_browser_profile :: string
  cf_buffer :: caps
  cf_redact :: "redact_rule list"
  cf_state_dir :: string
  cf_claude_code :: claude_code

subsection \<open>The file\<close>

datatype toml =
    TString string
  | TInt int
  | TFloat string
  | TBool bool
  | TDatetime string
  | TArray "toml list"
  | TTable "(string \<times> toml) list"

record file_claude_import =
  fi_device :: "string option"
  fi_dir :: "string option"
  fi_since :: "string option"
  fi_command :: "string list option"
  fi_every :: "nat option"

record file_claude_code =
  fk_roots :: "string list"
  fk_import :: "file_claude_import list"
  fk_poll_interval :: nat

record file_config =
  ff_service_url :: "string option"
  ff_device :: "string option"
  ff_tick_interval :: int
  ff_history_poll_interval :: nat
  ff_revisit_window :: nat
  ff_browser_profile :: "string option"
  ff_buffer :: caps
  ff_redact :: "redact_rule list"
  ff_claude_code :: file_claude_code

definition default_tick_interval :: int where "default_tick_interval = 30"
definition default_history_poll_interval :: nat where "default_history_poll_interval = 300"
definition default_revisit_window :: nat where "default_revisit_window = 500"

definition default_claude_code_roots :: "string list" where
  "default_claude_code_roots = [''~/.claude'', ''~/.claude-work'']"

definition default_claude_code_poll_interval :: nat where "default_claude_code_poll_interval = 60"
definition default_max_rows :: nat where "default_max_rows = 200000"
definition default_max_bytes :: nat where "default_max_bytes = 536870912"

definition default_redact :: "redact_rule list" where
  "default_redact =
     [\<lparr>rule_url_host = Some ''*'', rule_keep = Some KeepHost, rule_bundle_id = None, rule_drop = []\<rparr>]"

definition default_file_claude_code :: file_claude_code where
  "default_file_claude_code =
     \<lparr>fk_roots = default_claude_code_roots, fk_import = [],
      fk_poll_interval = default_claude_code_poll_interval\<rparr>"

definition default_buffer :: caps where
  "default_buffer = \<lparr>max_rows = default_max_rows, max_bytes = default_max_bytes\<rparr>"

text \<open>Reading a value at a type.\<close>

fun toml_string :: "toml \<Rightarrow> string option" where
  "toml_string (TString s) = Some s"
| "toml_string _ = None"

definition toml_unsigned :: "nat \<Rightarrow> toml \<Rightarrow> nat option" where
  "toml_unsigned w v = (case v of TInt i \<Rightarrow> if 0 \<le> i \<and> i < 2 ^ w then Some (nat i) else None | _ \<Rightarrow> None)"

definition toml_signed :: "nat \<Rightarrow> toml \<Rightarrow> int option" where
  "toml_signed w v =
     (case v of TInt i \<Rightarrow> if - (2 ^ (w - 1)) \<le> i \<and> i < 2 ^ (w - 1) then Some i else None | _ \<Rightarrow> None)"

definition toml_list :: "(toml \<Rightarrow> 'a option) \<Rightarrow> toml \<Rightarrow> 'a list option" where
  "toml_list read v = (case v of TArray xs \<Rightarrow> those (map read xs) | _ \<Rightarrow> None)"

text \<open>
  A table with no members but the \<open>known\<close> ones: \<open>deny_unknown_fields\<close>. (The derived readers would
  also take an array of the members in order, which no file of the program's is written as.)
\<close>

definition toml_struct :: "string list \<Rightarrow> ((string \<rightharpoonup> toml) \<Rightarrow> 'a option) \<Rightarrow> toml \<Rightarrow> 'a option" where
  "toml_struct known read v =
     (case v of
        TTable m \<Rightarrow> if set (map fst m) \<subseteq> set known then read (map_of m) else None
      | _ \<Rightarrow> None)"

definition toml_optional :: "(toml \<Rightarrow> 'a option) \<Rightarrow> toml option \<Rightarrow> 'a option option" where
  "toml_optional read field = default_field None (\<lambda>v. map_option Some (read v)) field"

definition toml_keep :: "toml \<Rightarrow> keep option" where
  "toml_keep v =
     (if v = TString ''host'' then Some KeepHost
      else if v = TString ''full'' then Some KeepFull else None)"

definition toml_redact_field :: "toml \<Rightarrow> redact_field option" where
  "toml_redact_field v = (if v = TString ''title'' then Some TitleField else None)"

definition toml_redact_rule :: "toml \<Rightarrow> redact_rule option" where
  "toml_redact_rule =
     toml_struct [''url_host'', ''keep'', ''bundle_id'', ''drop'']
       (\<lambda>m. Option.bind (toml_optional toml_string (m ''url_host'')) (\<lambda>host.
            Option.bind (toml_optional toml_keep (m ''keep'')) (\<lambda>kept.
            Option.bind (toml_optional toml_string (m ''bundle_id'')) (\<lambda>bundle.
            Option.bind (default_field [] (toml_list toml_redact_field) (m ''drop'')) (\<lambda>dropped.
              Some \<lparr>rule_url_host = host, rule_keep = kept, rule_bundle_id = bundle,
                    rule_drop = dropped\<rparr>)))))"

definition toml_buffer :: "toml \<Rightarrow> caps option" where
  "toml_buffer =
     toml_struct [''max_rows'', ''max_bytes'']
       (\<lambda>m. Option.bind (default_field default_max_rows (toml_unsigned 64) (m ''max_rows'')) (\<lambda>rows.
            Option.bind (default_field default_max_bytes (toml_unsigned 64) (m ''max_bytes'')) (\<lambda>bytes.
              Some \<lparr>max_rows = rows, max_bytes = bytes\<rparr>)))"

definition toml_claude_import :: "toml \<Rightarrow> file_claude_import option" where
  "toml_claude_import =
     toml_struct [''device'', ''dir'', ''since'', ''command'', ''every'']
       (\<lambda>m. Option.bind (toml_optional toml_string (m ''device'')) (\<lambda>device.
            Option.bind (toml_optional toml_string (m ''dir'')) (\<lambda>dir.
            Option.bind (toml_optional toml_string (m ''since'')) (\<lambda>since.
            Option.bind (toml_optional (toml_list toml_string) (m ''command'')) (\<lambda>cmd.
            Option.bind (toml_optional (toml_unsigned 64) (m ''every'')) (\<lambda>every.
              Some \<lparr>fi_device = device, fi_dir = dir, fi_since = since, fi_command = cmd,
                    fi_every = every\<rparr>))))))"

definition toml_claude_code :: "toml \<Rightarrow> file_claude_code option" where
  "toml_claude_code =
     toml_struct [''roots'', ''import'', ''poll_interval'']
       (\<lambda>m. Option.bind (default_field default_claude_code_roots (toml_list toml_string) (m ''roots'')) (\<lambda>roots.
            Option.bind (default_field [] (toml_list toml_claude_import) (m ''import'')) (\<lambda>imports.
            Option.bind (default_field default_claude_code_poll_interval (toml_unsigned 64)
              (m ''poll_interval'')) (\<lambda>poll.
              Some \<lparr>fk_roots = roots, fk_import = imports, fk_poll_interval = poll\<rparr>))))"

definition toml_browser :: "toml \<Rightarrow> string option option" where
  "toml_browser = toml_struct [''profile''] (\<lambda>m. toml_optional toml_string (m ''profile''))"

definition toml_config :: "toml \<Rightarrow> file_config option" where
  "toml_config =
     toml_struct [''service_url'', ''device'', ''tick_interval'', ''history_poll_interval'',
         ''revisit_window'', ''browser'', ''buffer'', ''redact'', ''claude_code'']
       (\<lambda>m. Option.bind (toml_optional toml_string (m ''service_url'')) (\<lambda>service_url.
            Option.bind (toml_optional toml_string (m ''device'')) (\<lambda>device.
            Option.bind (default_field default_tick_interval (toml_signed 64) (m ''tick_interval'')) (\<lambda>tick.
            Option.bind (default_field default_history_poll_interval (toml_unsigned 64)
              (m ''history_poll_interval'')) (\<lambda>history.
            Option.bind (default_field default_revisit_window (toml_unsigned 32)
              (m ''revisit_window'')) (\<lambda>revisit.
            Option.bind (default_field None toml_browser (m ''browser'')) (\<lambda>profile.
            Option.bind (default_field default_buffer toml_buffer (m ''buffer'')) (\<lambda>buffer.
            Option.bind (default_field default_redact (toml_list toml_redact_rule) (m ''redact'')) (\<lambda>redact.
            Option.bind (default_field default_file_claude_code toml_claude_code (m ''claude_code'')) (\<lambda>claude.
              Some \<lparr>ff_service_url = service_url, ff_device = device, ff_tick_interval = tick,
                    ff_history_poll_interval = history, ff_revisit_window = revisit,
                    ff_browser_profile = profile, ff_buffer = buffer, ff_redact = redact,
                    ff_claude_code = claude\<rparr>))))))))))"

subsection \<open>Checking the file\<close>

record config_lib =
  li_toml :: "string \<Rightarrow> (string, toml) res"        \<comment> \<open>the TOML parser\<close>
  li_url :: "string \<Rightarrow> (string, url) res"          \<comment> \<open>\<open>Url::parse\<close>\<close>
  li_rfc3339 :: "string \<Rightarrow> (string, int) res"      \<comment> \<open>\<open>parse_from_rfc3339\<close>, in milliseconds\<close>

definition blank :: "string \<Rightarrow> bool" where
  "blank s \<longleftrightarrow> trim_start s = []"

definition required :: "string option \<Rightarrow> string \<Rightarrow> (config_error, string) res" where
  "required val field =
     (case val of
        None \<Rightarrow> Inl (Missing field)
      | Some s \<Rightarrow> if blank s then Inl (Invalid field ''must not be empty'') else Inr s)"

definition expand_home :: "string \<Rightarrow> string option \<Rightarrow> string \<Rightarrow> (config_error, string) res" where
  "expand_home val home field =
     res_bind
       (case strip_prefix ''~/'' val of
          Some rest \<Rightarrow>
            (case home of
               None \<Rightarrow> Inl (Invalid field
                 (quoted val @ '' starts with '' @ quoted ''~/'' @ '', and HOME is not set''))
             | Some home \<Rightarrow> Inr (path_join home rest))
        | None \<Rightarrow> Inr val)
       (\<lambda>path. if \<not> is_absolute path
          then Inl (Invalid field
            (quoted val @ '' is neither absolute nor under '' @ quoted ''~/'' @
             '', and a relative path would depend on the directory the daemon was started from''))
          else Inr path)"

definition roots_field :: string where "roots_field = ''claude_code.roots''"

definition profile_of :: "string \<Rightarrow> string" where
  "profile_of name = (case strip_prefix ''.'' name of Some rest \<Rightarrow> rest | None \<Rightarrow> name)"

definition claude_root_from :: "string \<Rightarrow> string option \<Rightarrow> (config_error, claude_root) res" where
  "claude_root_from root home =
     res_bind (expand_home root home roots_field) (\<lambda>path.
       case file_name path of
         None \<Rightarrow> Inl (Invalid roots_field
           (quoted root @ '' has no final directory name to take the profile from''))
       | Some name \<Rightarrow>
           let profile = profile_of name
           in if profile = []
              then Inl (Invalid roots_field (quoted root @ '' yields an empty profile name''))
              else Inr \<lparr>cr_profile = profile, cr_projects = path_join path ''projects''\<rparr>)"

definition service_url_from :: "config_lib \<Rightarrow> string \<Rightarrow> (config_error, url) res" where
  "service_url_from lib val =
     (let invalid = Invalid ''service_url'' in
      case li_url lib val of
        Inl e \<Rightarrow> Inl (invalid (''is not an absolute url: '' @ e @
          ''; the value is not repeated here because it may carry credentials''))
      | Inr u \<Rightarrow>
          if url_scheme u \<noteq> ''http'' \<and> url_scheme u \<noteq> ''https''
          then Inl (invalid (''scheme '' @ quoted (url_scheme u) @ '' is not http or https''))
          else if url_username u \<noteq> [] \<or> url_password u \<noteq> None
          then Inl (invalid ''carries a username or password, and the whole url is logged at startup, so the credentials would be written to the log'')
          else case url_host u of
            None \<Rightarrow> Inl (invalid ''has no host'')
          | Some host \<Rightarrow>
              if host = [] then Inl (invalid ''has an empty host'')
              else if url_query u \<noteq> None \<or> url_fragment u \<noteq> None
              then Inl (invalid ''carries a query or fragment, and the records path is appended to it, which would post to the wrong url; the value is not repeated here because a query may carry a token'')
              else Inr u)"

definition pull_from :: "string list \<Rightarrow> nat \<Rightarrow> string option \<Rightarrow> (config_error, pull) res" where
  "pull_from cmd every home =
     (case cmd of
        [] \<Rightarrow> Inl (Invalid ''claude_code.import.command''
          ''must name a program, and an empty argv runs nothing'')
      | program # args \<Rightarrow>
          if every < claude_code_pull_every_min
          then Inl (Invalid ''claude_code.import.every''
            (dec_nat every @ '' is below '' @ dec_nat claude_code_pull_every_min @
             '' second, and a period of zero would run the command on every poll''))
          else res_bind (expand_home program home ''claude_code.import.command'') (\<lambda>program.
            Inr \<lparr>pl_program = program, pl_args = args, pl_every = every\<rparr>))"

definition import_pull ::
  "string list option \<Rightarrow> nat option \<Rightarrow> string option \<Rightarrow> (config_error, pull option) res" where
  "import_pull cmd every home =
     (case (cmd, every) of
        (None, None) \<Rightarrow> Inr None
      | (Some _, None) \<Rightarrow> Inl (Invalid ''claude_code.import.every''
          (''is required with '' @ quoted ''command'' @
           '', because the period is how often the command runs''))
      | (None, Some _) \<Rightarrow> Inl (Invalid ''claude_code.import.command''
          (''is required with '' @ quoted ''every'' @
           '', because a period without a command runs nothing''))
      | (Some cmd, Some every) \<Rightarrow> res_bind (pull_from cmd every home) (\<lambda>p. Inr (Some p)))"

definition claude_import_from ::
  "config_lib \<Rightarrow> file_claude_import \<Rightarrow> string \<Rightarrow> string option \<Rightarrow> (config_error, claude_import) res" where
  "claude_import_from lib entry daemon_device home =
     res_bind (required (fi_device entry) ''claude_code.import.device'') (\<lambda>device.
     if device = daemon_device
     then Inl (Invalid ''claude_code.import.device''
       (quoted device @
        '' is this daemon's own device, and imported records would be indistinguishable from this machine's''))
     else res_bind (required (fi_dir entry) ''claude_code.import.dir'') (\<lambda>dir.
     res_bind (expand_home dir home ''claude_code.import.dir'') (\<lambda>projects.
     res_bind (required (fi_since entry) ''claude_code.import.since'') (\<lambda>since.
     res_bind
       (case li_rfc3339 lib since of
          Inr at \<Rightarrow> Inr (Timestamp at)
        | Inl e \<Rightarrow> Inl (Invalid ''claude_code.import.since''
            (quoted since @ '' is not an RFC 3339 time with an offset: '' @ e))) (\<lambda>since.
     res_bind (import_pull (fi_command entry) (fi_every entry) home) (\<lambda>p.
       Inr \<lparr>ci_device = device, ci_projects = projects, ci_since = since, ci_pull = p\<rparr>))))))"

fun resolve_roots ::
  "string option \<Rightarrow> string list \<Rightarrow> claude_root list \<Rightarrow> (config_error, claude_root list) res" where
  "resolve_roots home [] resolved = Inr resolved"
| "resolve_roots home (root # roots) resolved =
     res_bind (claude_root_from root home) (\<lambda>r.
       if cr_profile r \<in> set (map cr_profile resolved)
       then Inl (Invalid roots_field
         (''two roots resolve to the profile '' @ quoted (cr_profile r) @
          '', and every record names the profile it was read from, so the two would be indistinguishable''))
       else resolve_roots home roots (resolved @ [r]))"

fun resolve_imports ::
  "config_lib \<Rightarrow> string \<Rightarrow> string option \<Rightarrow> file_claude_import list \<Rightarrow> claude_import list \<Rightarrow>
     (config_error, claude_import list) res" where
  "resolve_imports lib daemon_device home [] resolved = Inr resolved"
| "resolve_imports lib daemon_device home (entry # entries) resolved =
     res_bind (claude_import_from lib entry daemon_device home) (\<lambda>i.
       if ci_device i \<in> set (map ci_device resolved)
       then Inl (Invalid ''claude_code.import.device''
         (''two imports name the device '' @ quoted (ci_device i) @
          '', and their records would be indistinguishable''))
       else resolve_imports lib daemon_device home entries (resolved @ [i]))"

definition claude_code_from ::
  "config_lib \<Rightarrow> file_claude_code \<Rightarrow> string \<Rightarrow> string option \<Rightarrow> (config_error, claude_code) res" where
  "claude_code_from lib sect daemon_device home =
     (if fk_poll_interval sect < claude_code_poll_interval_min
      then Inl (Invalid ''claude_code.poll_interval''
        (dec_nat (fk_poll_interval sect) @ '' is below '' @ dec_nat claude_code_poll_interval_min @
         '' second, and a poll timer of zero panics the claude_code provider on every restart''))
      else res_bind (resolve_roots home (fk_roots sect) []) (\<lambda>roots.
        res_bind (resolve_imports lib daemon_device home (fk_import sect) []) (\<lambda>imports.
          Inr \<lparr>cc_roots = roots, cc_imports = imports,
                cc_poll_interval = fk_poll_interval sect\<rparr>)))"

definition check_config ::
  "config_lib \<Rightarrow> file_config \<Rightarrow> string \<Rightarrow> string option \<Rightarrow> (config_error, config) res" where
  "check_config lib ff state_dir home =
     res_bind (required (ff_service_url ff) ''service_url'') (\<lambda>service_url.
     res_bind (service_url_from lib service_url) (\<lambda>service_url.
     res_bind (required (ff_device ff) ''device'') (\<lambda>device.
     res_bind (required (ff_browser_profile ff) ''browser.profile'') (\<lambda>profile.
     if \<not> (tick_interval_min \<le> ff_tick_interval ff \<and> ff_tick_interval ff \<le> tick_interval_max)
     then Inl (Invalid ''tick_interval''
       (dec_int (ff_tick_interval ff) @ '' is outside ['' @ dec_int tick_interval_min @ '', '' @
        dec_int tick_interval_max @ ''] seconds, and the service rejects such ticks''))
     else if ff_history_poll_interval ff < history_poll_interval_min
     then Inl (Invalid ''history_poll_interval''
       (dec_nat (ff_history_poll_interval ff) @ '' is below '' @ dec_nat history_poll_interval_min @
        '' second, and a poll timer of zero panics the browser history provider on every restart''))
     else if max_rows (ff_buffer ff) < 1
     then Inl (Invalid ''buffer.max_rows''
       ''must be at least 1 row, because a cap of zero evicts every record as it arrives and ships nothing but overflow markers'')
     else if max_bytes (ff_buffer ff) \<le> overflow_headroom_bytes
     then Inl (Invalid ''buffer.max_bytes''
       (''must exceed the '' @ dec_nat overflow_headroom_bytes @
        '' bytes held back for the overflow record, because a smaller cap evicts every record as it arrives''))
     else res_bind (claude_code_from lib (ff_claude_code ff) device home) (\<lambda>claude.
       Inr \<lparr>cf_service_url = service_url, cf_device = device,
            cf_tick_interval = nat (ff_tick_interval ff),
            cf_history_poll_interval = ff_history_poll_interval ff,
            cf_revisit_window = ff_revisit_window ff, cf_browser_profile = profile,
            cf_buffer = ff_buffer ff, cf_redact = ff_redact ff, cf_state_dir = state_dir,
            cf_claude_code = claude\<rparr>)))))"

definition parse_config ::
  "config_lib \<Rightarrow> string \<Rightarrow> string \<Rightarrow> string \<Rightarrow> string option \<Rightarrow> (config_error, config) res" where
  "parse_config lib txt path state_dir home =
     (case li_toml lib txt of
        Inl e \<Rightarrow> Inl (ParseFailed path e)
      | Inr v \<Rightarrow>
          (case toml_config v of
             None \<Rightarrow> Inl (ParseFailed path ''the members do not have their types'')
           | Some ff \<Rightarrow> check_config lib ff state_dir home))"

text \<open>\<open>read\<close> is \<open>fs::read_to_string\<close>.\<close>

definition load_from :: "config_lib \<Rightarrow> (string \<Rightarrow> string io) \<Rightarrow> paths \<Rightarrow> (config_error, config) res" where
  "load_from lib read p =
     (case read (pa_config p) of
        Inl e \<Rightarrow> Inl (ReadFailed (pa_config p) e)
      | Inr txt \<Rightarrow> parse_config lib txt (pa_config p) (pa_state_dir p) (pa_home p))"

end
