(* ===== verification/Config_Props.thy ===== *)
theory Config_Props
  imports Config
begin

text \<open>
  What the checks of the configuration promise. \<open>faulty\<close> says, field by field, what is wrong with a
  file; a file is refused exactly when a field is at fault, and the error names such a field.
  \<open>config_ok\<close> says what the providers may rely on.
\<close>

subsection \<open>Fields at fault\<close>

definition absent :: "string option \<Rightarrow> bool" where
  "absent val = (case val of None \<Rightarrow> True | Some s \<Rightarrow> blank s)"

text \<open>The absolute path a value stands for.\<close>

definition located :: "string option \<Rightarrow> string \<Rightarrow> string option" where
  "located home val =
     (case (case strip_prefix ''~/'' val of
              Some rest \<Rightarrow> map_option (\<lambda>h. path_join h rest) home
            | None \<Rightarrow> Some val) of
        Some path \<Rightarrow> if is_absolute path then Some path else None
      | None \<Rightarrow> None)"

definition url_ok :: "url \<Rightarrow> bool" where
  "url_ok u \<longleftrightarrow>
     (url_scheme u = ''http'' \<or> url_scheme u = ''https'') \<and>
     url_username u = [] \<and> url_password u = None \<and>
     url_host u \<noteq> None \<and> url_host u \<noteq> Some [] \<and>
     url_query u = None \<and> url_fragment u = None"

definition good_url :: "config_lib \<Rightarrow> string \<Rightarrow> bool" where
  "good_url lib s = (case li_url lib s of Inl _ \<Rightarrow> False | Inr u \<Rightarrow> url_ok u)"

text \<open>The profile a root's directory gives its records, if it gives one.\<close>

definition root_profile :: "string option \<Rightarrow> string \<Rightarrow> string option" where
  "root_profile home root =
     (case Option.bind (located home root) file_name of
        None \<Rightarrow> None
      | Some name \<Rightarrow> if profile_of name = [] then None else Some (profile_of name))"

definition roots_faulty :: "string option \<Rightarrow> string list \<Rightarrow> bool" where
  "roots_faulty home roots \<longleftrightarrow>
     None \<in> set (map (root_profile home) roots) \<or> \<not> distinct (map (root_profile home) roots)"

text \<open>
  A pull needs both a command and a period. A period of zero is blamed before the program's path is
  looked at, so a program with no path is blamed when the period is positive.
\<close>

fun pull_faulty :: "string option \<Rightarrow> string list option \<Rightarrow> nat option \<Rightarrow> string \<Rightarrow> bool" where
  "pull_faulty home None None f \<longleftrightarrow> False"
| "pull_faulty home None (Some _) f \<longleftrightarrow> f = ''claude_code.import.command''"
| "pull_faulty home (Some _) None f \<longleftrightarrow> f = ''claude_code.import.every''"
| "pull_faulty home (Some []) (Some _) f \<longleftrightarrow> f = ''claude_code.import.command''"
| "pull_faulty home (Some (program # args)) (Some every) f \<longleftrightarrow>
     f = ''claude_code.import.every'' \<and> every = 0 \<or>
     f = ''claude_code.import.command'' \<and> located home program = None"

definition import_faulty :: "config_lib \<Rightarrow> string \<Rightarrow> string option \<Rightarrow> file_claude_import \<Rightarrow> string \<Rightarrow> bool" where
  "import_faulty lib daemon_device home e f \<longleftrightarrow>
     f = ''claude_code.import.device'' \<and> absent (fi_device e) \<or>
     f = ''claude_code.import.device'' \<and> the (fi_device e) = daemon_device \<or>
     f = ''claude_code.import.dir'' \<and> absent (fi_dir e) \<or>
     f = ''claude_code.import.dir'' \<and> located home (the (fi_dir e)) = None \<or>
     f = ''claude_code.import.since'' \<and> absent (fi_since e) \<or>
     f = ''claude_code.import.since'' \<and> (\<exists>err. li_rfc3339 lib (the (fi_since e)) = Inl err) \<or>
     pull_faulty home (fi_command e) (fi_every e) f"

text \<open>The fields of a section's imports, and of the whole file.\<close>

definition imports_faulty ::
  "config_lib \<Rightarrow> string \<Rightarrow> string option \<Rightarrow> file_claude_import list \<Rightarrow> string \<Rightarrow> bool" where
  "imports_faulty lib daemon_device home entries f \<longleftrightarrow>
     (\<exists>e \<in> set entries. import_faulty lib daemon_device home e f) \<or>
     f = ''claude_code.import.device'' \<and> \<not> distinct (map fi_device entries)"

definition faulty :: "config_lib \<Rightarrow> file_config \<Rightarrow> string option \<Rightarrow> string \<Rightarrow> bool" where
  "faulty lib ff home f \<longleftrightarrow>
     f = ''service_url'' \<and> absent (ff_service_url ff) \<or>
     f = ''service_url'' \<and> \<not> good_url lib (the (ff_service_url ff)) \<or>
     f = ''device'' \<and> absent (ff_device ff) \<or>
     f = ''browser.profile'' \<and> absent (ff_browser_profile ff) \<or>
     f = ''tick_interval'' \<and> \<not> (1 \<le> ff_tick_interval ff \<and> ff_tick_interval ff \<le> 3600) \<or>
     f = ''history_poll_interval'' \<and> ff_history_poll_interval ff = 0 \<or>
     f = ''buffer.max_rows'' \<and> max_rows (ff_buffer ff) = 0 \<or>
     f = ''buffer.max_bytes'' \<and> max_bytes (ff_buffer ff) \<le> 512 \<or>
     f = ''claude_code.poll_interval'' \<and> fk_poll_interval (ff_claude_code ff) = 0 \<or>
     f = ''claude_code.roots'' \<and> roots_faulty home (fk_roots (ff_claude_code ff)) \<or>
     imports_faulty lib (the (ff_device ff)) home (fk_import (ff_claude_code ff)) f"

definition blames :: "config_error \<Rightarrow> string \<Rightarrow> bool" where
  "blames e f \<longleftrightarrow> e = Missing f \<or> (\<exists>reason. e = Invalid f reason)"

text \<open>A check that fails exactly when a field is at fault, and then blames one that is.\<close>

definition refuses :: "(string \<Rightarrow> bool) \<Rightarrow> (config_error, 'a) res \<Rightarrow> bool" where
  "refuses at_fault r =
     (case r of Inr _ \<Rightarrow> \<forall>f. \<not> at_fault f | Inl e \<Rightarrow> \<exists>f. at_fault f \<and> blames e f)"

named_theorems refuses_intros \<open>the checks and the fields they refuse\<close>

lemma refuses_cong: "refuses F r \<Longrightarrow> (\<And>f. F f = G f) \<Longrightarrow> refuses G r"
  by (cases r) (simp_all add: refuses_def)

lemma refuses_bind:
  assumes "refuses F r" "\<And>a. r = Inr a \<Longrightarrow> refuses G (k a)"
  shows "refuses (\<lambda>f. F f \<or> G f) (res_bind r k)"
proof (cases r)
  case (Inl e)
  with assms(1) show ?thesis by (auto simp: refuses_def)
next
  case (Inr a)
  with assms(1) assms(2) [OF Inr] show ?thesis by (auto simp: refuses_def split: sum.splits)
qed

lemma refuses_Inr: "refuses (\<lambda>f. False) (Inr a)"
  by (simp add: refuses_def)

lemma blames_simps [simp]: "blames (Missing f) g \<longleftrightarrow> g = f" "blames (Invalid f reason) g \<longleftrightarrow> g = f"
  by (auto simp: blames_def)

lemma required_Inr: "required val field = Inr s \<longleftrightarrow> val = Some s \<and> \<not> blank s"
  by (auto simp: required_def split: option.split)

lemma refuses_required: "refuses (\<lambda>f. f = field \<and> absent val) (required val field)"
  by (simp add: refuses_def required_def absent_def split: option.split)

lemma expand_home_Inr: "expand_home val home field = Inr path \<longleftrightarrow> located home val = Some path"
  by (auto simp: expand_home_def located_def split: option.split)

lemma refuses_expand_home: "refuses (\<lambda>f. f = field \<and> located home val = None) (expand_home val home field)"
  by (auto simp: refuses_def expand_home_def located_def split: option.split)

lemma service_url_from_Inr: "service_url_from lib val = Inr u \<Longrightarrow> li_url lib val = Inr u \<and> url_ok u"
  by (auto simp: service_url_from_def url_ok_def Let_def split: sum.splits if_splits option.splits)

lemma refuses_service_url: "refuses (\<lambda>f. f = ''service_url'' \<and> \<not> good_url lib val) (service_url_from lib val)"
  by (simp add: refuses_def service_url_from_def good_url_def url_ok_def Let_def split: sum.split option.split)

lemma root_profile_bind:
  "root_profile home root =
     Option.bind (located home root) (\<lambda>path. Option.bind (file_name path) (\<lambda>name.
       if profile_of name = [] then None else Some (profile_of name)))"
  by (simp add: root_profile_def split: option.split bind_split)

lemma claude_root_from_Inr:
  "claude_root_from root home = Inr r \<longleftrightarrow>
     (\<exists>path. located home root = Some path \<and> cr_projects r = path_join path ''projects'') \<and>
     root_profile home root = Some (cr_profile r)"
proof (cases "located home root")
  case None
  then show ?thesis
    by (auto simp: claude_root_from_def res_bind_Inr_conv expand_home_Inr)
next
  case (Some path)
  then have "expand_home root home roots_field = Inr path" by (simp add: expand_home_Inr)
  with Some show ?thesis
    by (cases r) (auto simp: claude_root_from_def root_profile_bind Let_def split: option.split)
qed

lemma refuses_claude_root:
  "refuses (\<lambda>f. f = roots_field \<and> root_profile home root = None) (claude_root_from root home)"
proof (cases "located home root")
  case None
  with refuses_expand_home [of roots_field home root] show ?thesis
    by (auto simp: refuses_def claude_root_from_def root_profile_bind split: sum.splits)
next
  case (Some path)
  then have "expand_home root home roots_field = Inr path" by (simp add: expand_home_Inr)
  with Some show ?thesis
    by (auto simp: refuses_def claude_root_from_def root_profile_bind Let_def split: option.split)
qed

lemma refuses_resolve_roots:
  "None \<notin> set (map Some (map cr_profile resolved)) \<Longrightarrow> distinct (map cr_profile resolved) \<Longrightarrow>
   refuses (\<lambda>f. f = roots_field \<and>
       (None \<in> set (map (root_profile home) roots) \<or>
        \<not> distinct (map Some (map cr_profile resolved) @ map (root_profile home) roots)))
     (resolve_roots home roots resolved)"
proof (induction roots arbitrary: resolved)
  case Nil
  then show ?case by (auto simp: refuses_def distinct_map inj_on_def)
next
  case (Cons root roots)
  show ?case
  proof (cases "claude_root_from root home")
    case (Inl e)
    with refuses_claude_root [of home root] show ?thesis by (auto simp: refuses_def)
  next
    case (Inr r)
    then have prof: "root_profile home root = Some (cr_profile r)" by (simp add: claude_root_from_Inr)
    show ?thesis
    proof (cases "cr_profile r \<in> set (map cr_profile resolved)")
      case True
      with Inr prof show ?thesis by (force simp: refuses_def)
    next
      case False
      with Cons.prems have "distinct (map cr_profile (resolved @ [r]))" by simp
      then have "refuses (\<lambda>f. f = roots_field \<and>
         (None \<in> set (map (root_profile home) roots) \<or>
          \<not> distinct (map Some (map cr_profile (resolved @ [r])) @ map (root_profile home) roots)))
         (resolve_roots home roots (resolved @ [r]))"
        by (intro Cons.IH) auto
      moreover have "resolve_roots home (root # roots) resolved = resolve_roots home roots (resolved @ [r])"
        using Inr False by simp
      ultimately show ?thesis using prof by (auto elim!: refuses_cong)
    qed
  qed
qed


lemma located_cases:
  obtains "located home val = None" "\<And>field. \<exists>reason. expand_home val home field = Inl (Invalid field reason)"
  | path where "located home val = Some path" "\<And>field. expand_home val home field = Inr path"
proof (cases "located home val")
  case None
  have "\<exists>reason. expand_home val home field = Inl (Invalid field reason)" for field
    using None by (auto simp: expand_home_def located_def split: option.splits if_splits)
  with None that(1) show ?thesis by blast
next
  case (Some path)
  with that(2) show ?thesis by (simp add: expand_home_Inr)
qed

text \<open>Checks one after the other: a later one is reached only when the earlier ones passed.\<close>

lemma refuses_if:
  assumes "c = c'" "\<not> c \<Longrightarrow> refuses G r" "blames e f0"
  shows "refuses (\<lambda>f. f = f0 \<and> c' \<or> G f) (if c then Inl e else r)"
  using assms by (auto simp: refuses_def split: sum.splits)

lemma refuses_required_bind:
  assumes "\<And>s. val = Some s \<Longrightarrow> refuses G (k s)"
  shows "refuses (\<lambda>f. f = field \<and> absent val \<or> G f) (res_bind (required val field) k)"
  using assms by (cases val; cases "blank (the val)") (auto simp: refuses_def required_def absent_def)

lemma refuses_expand_bind:
  assumes "val = val'" "\<And>path. located home val = Some path \<Longrightarrow> refuses G (k path)"
  shows "refuses (\<lambda>f. f = field \<and> located home val' = None \<or> G f) (res_bind (expand_home val home field) k)"
proof (cases rule: located_cases [where home = home and val = val])
  case 1
  from 1(2) [of field] 1(1) assms(1) show ?thesis by (auto simp: refuses_def)
next
  case (2 path)
  with assms(2) [OF 2(1)] assms(1) show ?thesis by (auto simp: refuses_def split: sum.splits)
qed

lemma refuses_url_bind:
  assumes "val = val'" "\<And>u. refuses G (k u)"
  shows "refuses (\<lambda>f. f = ''service_url'' \<and> \<not> good_url lib val' \<or> G f)
    (res_bind (service_url_from lib val) k)"
  using refuses_bind [OF refuses_service_url] assms by blast

lemma refuses_since_bind:
  assumes "lookup = lookup'" "\<And>at. refuses G (k (Timestamp at))"
  shows "refuses (\<lambda>f. f = field \<and> (\<exists>e. lookup' = Inl e) \<or> G f)
    (res_bind (case lookup of Inr at \<Rightarrow> Inr (Timestamp at) | Inl e \<Rightarrow> Inl (Invalid field (reason e))) k)"
  using assms(1) assms(2) [of "projr lookup"] by (cases lookup) (auto simp: refuses_def split: sum.splits)

lemma refuses_Inr_bind: "refuses F r \<Longrightarrow> refuses F (res_bind r (\<lambda>a. Inr (g a)))"
  by (cases r) (simp_all add: refuses_def)

lemma refuses_pull_from:
  "refuses (pull_faulty home (Some (program # args)) (Some every)) (pull_from (program # args) every home)"
proof -
  have "refuses (\<lambda>f. f = ''claude_code.import.every'' \<and> every = 0 \<or>
      f = ''claude_code.import.command'' \<and> located home program = None \<or> False)
    (pull_from (program # args) every home)"
    unfolding pull_from_def list.case
    by (intro refuses_if refuses_expand_bind refuses_Inr blames_simps(2) [THEN iffD2] refl)
      (simp add: claude_code_pull_every_min_def)
  then show ?thesis by (rule refuses_cong) simp
qed

lemma refuses_import_pull: "refuses (pull_faulty home cmd every) (import_pull cmd every home)"
proof (cases "(home, cmd, every, ''field'')" rule: pull_faulty.cases [case_names none no_command no_every empty full])
  case (full h program args ev f)
  with refuses_pull_from [of home program args ev] show ?thesis
    by (auto simp: import_pull_def intro: refuses_Inr_bind)
qed (auto simp: refuses_def import_pull_def pull_from_def)

lemma refuses_import: "refuses (import_faulty lib device home e) (claude_import_from lib e device home)"
  unfolding claude_import_from_def import_faulty_def
  by (intro refuses_required_bind refuses_if refuses_expand_bind refuses_since_bind refuses_Inr_bind
      refuses_import_pull blames_simps(2) [THEN iffD2] refl) simp_all

lemma import_pull_Inr:
  "import_pull cmd every home = Inr (Some p) \<Longrightarrow> is_absolute (pl_program p) \<and> 0 < pl_every p"
  by (auto simp: import_pull_def pull_from_def claude_code_pull_every_min_def res_bind_Inr_conv
      expand_home_Inr located_def split: if_splits option.splits list.splits)

lemma claude_import_from_Inr:
  assumes "claude_import_from lib e daemon home = Inr i"
  shows "fi_device e = Some (ci_device i) \<and> \<not> blank (ci_device i) \<and> ci_device i \<noteq> daemon \<and>
     is_absolute (ci_projects i) \<and>
     (case ci_pull i of None \<Rightarrow> True | Some p \<Rightarrow> is_absolute (pl_program p) \<and> 0 < pl_every p)"
proof -
  from assms obtain p dir where "import_pull (fi_command e) (fi_every e) home = Inr p" "ci_pull i = p"
      "fi_device e = Some (ci_device i)" "\<not> blank (ci_device i)" "ci_device i \<noteq> daemon"
      "located home dir = Some (ci_projects i)"
    by (auto simp: claude_import_from_def res_bind_Inr_conv required_Inr expand_home_Inr
        split: if_split_asm)
  then show ?thesis
    by (auto simp: located_def dest: import_pull_Inr split: option.splits if_splits)
qed

lemma refuses_resolve_imports:
  "distinct (map Some (map ci_device resolved)) \<Longrightarrow>
   refuses (\<lambda>f. (\<exists>e \<in> set entries. import_faulty lib daemon home e f) \<or>
       f = ''claude_code.import.device'' \<and>
         \<not> distinct (map Some (map ci_device resolved) @ map fi_device entries))
     (resolve_imports lib daemon home entries resolved)"
proof (induction entries arbitrary: resolved)
  case Nil
  then show ?case by (simp add: refuses_def)
next
  case (Cons entry entries)
  show ?case
  proof (cases "claude_import_from lib entry daemon home")
    case (Inl e)
    with refuses_import [of lib daemon home entry] show ?thesis by (auto simp: refuses_def)
  next
    case (Inr i)
    then have dev: "fi_device entry = Some (ci_device i)"
      and no: "\<not> import_faulty lib daemon home entry f" for f
      using claude_import_from_Inr [of lib entry daemon home i] refuses_import [of lib daemon home entry]
      by (auto simp: refuses_def)
    show ?thesis
    proof (cases "ci_device i \<in> set (map ci_device resolved)")
      case True
      then have "\<not> distinct (map Some (map ci_device resolved) @ map fi_device (entry # entries))"
        using dev by auto
      with Inr True show ?thesis by (auto simp: refuses_def simp del: distinct_append)
    next
      case False
      with Cons.prems have "distinct (map Some (map ci_device (resolved @ [i])))" by auto
      from Cons.IH [OF this] have "refuses (\<lambda>f. (\<exists>e \<in> set entries. import_faulty lib daemon home e f) \<or>
         f = ''claude_code.import.device'' \<and>
           \<not> distinct (map Some (map ci_device resolved) @ map fi_device (entry # entries)))
         (resolve_imports lib daemon home entries (resolved @ [i]))"
        using dev by simp
      then have "refuses (\<lambda>f. (\<exists>e \<in> set (entry # entries). import_faulty lib daemon home e f) \<or>
         f = ''claude_code.import.device'' \<and>
           \<not> distinct (map Some (map ci_device resolved) @ map fi_device (entry # entries)))
         (resolve_imports lib daemon home entries (resolved @ [i]))"
        by (rule refuses_cong) (simp add: no)
      with Inr False show ?thesis by simp
    qed
  qed
qed

lemma refuses_imports:
  "refuses (imports_faulty lib daemon home entries) (resolve_imports lib daemon home entries [])"
proof (rule refuses_cong)
  show "refuses (\<lambda>f. (\<exists>e \<in> set entries. import_faulty lib daemon home e f) \<or>
       f = ''claude_code.import.device'' \<and> \<not> distinct (map Some (map ci_device ([] :: claude_import list)) @ map fi_device entries))
     (resolve_imports lib daemon home entries [])"
    by (rule refuses_resolve_imports) simp
qed (simp add: imports_faulty_def)

lemma refuses_roots:
  "refuses (\<lambda>f. f = ''claude_code.roots'' \<and> roots_faulty home roots) (resolve_roots home roots [])"
proof (rule refuses_cong)
  show "refuses (\<lambda>f. f = roots_field \<and>
       (None \<in> set (map (root_profile home) roots) \<or>
        \<not> distinct (map Some (map cr_profile ([] :: claude_root list)) @ map (root_profile home) roots)))
     (resolve_roots home roots [])"
    by (rule refuses_resolve_roots) simp_all
qed (simp add: roots_faulty_def roots_field_def)

text \<open>
  C28. A configuration file is accepted exactly when no field of it is at fault, and the error of one
  that is refused names a field that is: a missing or blank required field, a URL that is not http(s)
  or carries credentials, a query or a fragment, an interval or a cap out of its range, a root or an
  import with no absolute path, two that could not be told apart, a pull command without its period
  or the reverse.
\<close>

theorem config_refused:
  "case check_config lib ff state_dir home of
     Inr cfg \<Rightarrow> \<forall>f. \<not> faulty lib ff home f
   | Inl e \<Rightarrow> \<exists>f. faulty lib ff home f \<and> blames e f"
proof -
  have "refuses (faulty lib ff home) (check_config lib ff state_dir home)"
    unfolding check_config_def faulty_def claude_code_from_def
    by (intro refuses_required_bind refuses_url_bind refuses_if refuses_Inr_bind refuses_bind
          refuses_roots refuses_imports blames_simps(2) [THEN iffD2] refl)
      (auto simp: tick_interval_min_def tick_interval_max_def history_poll_interval_min_def
        overflow_headroom_bytes_def claude_code_poll_interval_min_def refuses_imports)
  then show ?thesis by (simp add: refuses_def)
qed

subsection \<open>What the providers may rely on\<close>

definition import_ok :: "string \<Rightarrow> claude_import \<Rightarrow> bool" where
  "import_ok device i \<longleftrightarrow>
     \<not> blank (ci_device i) \<and> ci_device i \<noteq> device \<and> is_absolute (ci_projects i) \<and>
     (case ci_pull i of None \<Rightarrow> True | Some p \<Rightarrow> is_absolute (pl_program p) \<and> 0 < pl_every p)"

definition claude_code_ok :: "string \<Rightarrow> claude_code \<Rightarrow> bool" where
  "claude_code_ok device cc \<longleftrightarrow>
     0 < cc_poll_interval cc \<and>
     distinct (map cr_profile (cc_roots cc)) \<and>
     list_all (\<lambda>r. cr_profile r \<noteq> [] \<and> is_absolute (cr_projects r)) (cc_roots cc) \<and>
     distinct (map ci_device (cc_imports cc)) \<and>
     list_all (import_ok device) (cc_imports cc)"

definition config_ok :: "config \<Rightarrow> bool" where
  "config_ok cfg \<longleftrightarrow>
     url_ok (cf_service_url cfg) \<and> \<not> blank (cf_device cfg) \<and> \<not> blank (cf_browser_profile cfg) \<and>
     1 \<le> cf_tick_interval cfg \<and> cf_tick_interval cfg \<le> 3600 \<and>
     0 < cf_history_poll_interval cfg \<and> cf_history_poll_interval cfg < 2 ^ 64 \<and>
     cf_revisit_window cfg < 2 ^ 32 \<and>
     0 < max_rows (cf_buffer cfg) \<and> max_rows (cf_buffer cfg) < 2 ^ 64 \<and>
     overflow_headroom_bytes < max_bytes (cf_buffer cfg) \<and> max_bytes (cf_buffer cfg) < 2 ^ 64 \<and>
     claude_code_ok (cf_device cfg) (cf_claude_code cfg)"

lemma is_absolute_path_join [simp]: "is_absolute base \<Longrightarrow> is_absolute (path_join base rest)"
  by (cases base) (auto simp: path_join_def is_absolute_def starts_with_iff)

lemma resolve_roots_ok:
  "resolve_roots home roots resolved = Inr rs \<Longrightarrow>
     distinct (map cr_profile resolved) \<Longrightarrow>
     list_all (\<lambda>r. cr_profile r \<noteq> [] \<and> is_absolute (cr_projects r)) resolved \<Longrightarrow>
     distinct (map cr_profile rs) \<and> list_all (\<lambda>r. cr_profile r \<noteq> [] \<and> is_absolute (cr_projects r)) rs"
proof (induction home roots resolved rule: resolve_roots.induct)
  case (2 home root roots resolved)
  from "2.prems"(1) obtain r where r: "claude_root_from root home = Inr r"
      "cr_profile r \<notin> set (map cr_profile resolved)" "resolve_roots home roots (resolved @ [r]) = Inr rs"
    by (auto simp: res_bind_Inr_conv split: if_splits)
  then have "cr_profile r \<noteq> []" "is_absolute (cr_projects r)"
    by (auto simp: claude_root_from_Inr located_def root_profile_def split: option.splits if_splits)
  with "2.IH" [OF r(2,3)] "2.prems"(2,3) r(2) show ?case by simp
qed simp

lemma resolve_imports_ok:
  "resolve_imports lib daemon home entries resolved = Inr is \<Longrightarrow>
     distinct (map ci_device resolved) \<Longrightarrow> list_all (import_ok daemon) resolved \<Longrightarrow>
     distinct (map ci_device is) \<and> list_all (import_ok daemon) is"
proof (induction lib daemon home entries resolved rule: resolve_imports.induct)
  case (2 lib daemon home entry entries resolved)
  from "2.prems"(1) obtain i where i: "claude_import_from lib entry daemon home = Inr i"
      "ci_device i \<notin> set (map ci_device resolved)"
      "resolve_imports lib daemon home entries (resolved @ [i]) = Inr is"
    by (auto simp: res_bind_Inr_conv split: if_splits)
  then have "import_ok daemon i" using claude_import_from_Inr by (simp add: import_ok_def)
  with "2.IH" [OF i(2,3)] "2.prems"(2,3) i(2) show ?case by simp
qed simp

lemma claude_code_from_ok:
  "claude_code_from lib sect device home = Inr cc \<Longrightarrow> claude_code_ok device cc"
  using resolve_roots_ok [of home _ "[]"] resolve_imports_ok [of lib device home _ "[]"]
  by (auto simp: claude_code_from_def claude_code_ok_def res_bind_Inr_conv claude_code_poll_interval_min_def
      split: if_splits)

text \<open>The widths the file's members are read at.\<close>

lemma toml_unsigned_bound: "toml_unsigned w v = Some n \<Longrightarrow> n < 2 ^ w"
  by (auto simp: toml_unsigned_def nat_less_iff split: toml.splits if_splits)

lemma default_field_cases:
  "default_field d read field = Some x \<Longrightarrow> x = d \<or> (\<exists>v. read v = Some x)"
  by (auto simp: default_field_def split: option.splits)

lemma toml_buffer_bounds:
  "toml_buffer v = Some b \<Longrightarrow> max_rows b < 2 ^ 64 \<and> max_bytes b < 2 ^ 64"
  by (auto simp: toml_buffer_def toml_struct_def bind_eq_Some_conv default_max_rows_def default_max_bytes_def
      dest!: default_field_cases dest: toml_unsigned_bound split: toml.splits if_splits)

lemma toml_config_bounds:
  "toml_config v = Some ff \<Longrightarrow>
     max_rows (ff_buffer ff) < 2 ^ 64 \<and> max_bytes (ff_buffer ff) < 2 ^ 64 \<and>
     ff_history_poll_interval ff < 2 ^ 64 \<and> ff_revisit_window ff < 2 ^ 32"
proof -
  assume "toml_config v = Some ff"
  then obtain m :: "string \<rightharpoonup> toml" where
    "default_field default_history_poll_interval (toml_unsigned 64) (m ''history_poll_interval'') =
       Some (ff_history_poll_interval ff)"
    "default_field default_revisit_window (toml_unsigned 32) (m ''revisit_window'') =
       Some (ff_revisit_window ff)"
    "default_field default_buffer toml_buffer (m ''buffer'') = Some (ff_buffer ff)"
    by (auto simp: toml_config_def toml_struct_def bind_eq_Some_conv split: toml.splits if_splits)
  then show ?thesis
    by (auto dest!: default_field_cases dest: toml_unsigned_bound toml_buffer_bounds
        simp: default_history_poll_interval_def default_revisit_window_def default_buffer_def
          default_max_rows_def default_max_bytes_def)
qed

text \<open>
  C29. Every configuration the daemon runs with is well-formed: the service URL is http(s) with a
  host and nothing secret in it, the device and the profile are not blank, no interval is zero (a
  timer of zero panics), the caps are above what an overflow marker takes, every value has the width
  of its type, the profiles of the roots differ, the devices of the imports differ from each other
  and from the daemon's, and every directory and program is an absolute path.
\<close>

theorem parsed_config_ok:
  assumes "parse_config lib txt path state_dir home = Inr cfg"
  shows "config_ok cfg"
proof -
  from assms obtain v ff where "toml_config v = Some ff" and chk: "check_config lib ff state_dir home = Inr cfg"
    by (auto simp: parse_config_def split: sum.splits option.splits)
  from toml_config_bounds [OF this(1)] chk show ?thesis
    by (auto simp: check_config_def config_ok_def res_bind_Inr_conv required_Inr tick_interval_min_def
        tick_interval_max_def history_poll_interval_min_def nat_le_iff le_nat_iff
        dest: service_url_from_Inr claude_code_from_ok split: if_splits)
qed

definition sample_file :: toml where
  "sample_file =
     TTable
       [(''service_url'', TString ''https://records.example''), (''device'', TString ''mbp''),
        (''browser'', TTable [(''profile'', TString ''Default'')]),
        (''claude_code'', TTable
          [(''import'', TArray
            [TTable [(''device'', TString ''homelab''), (''dir'', TString ''~/mirror''),
               (''since'', TString ''2026-01-01T00:00:00Z''),
               (''command'', TArray [TString ''/usr/bin/rsync'', TString ''-a'']), (''every'', TInt 900)]])])]"

definition sample_import :: file_claude_import where
  "sample_import =
     \<lparr>fi_device = Some ''homelab'', fi_dir = Some ''~/mirror'', fi_since = Some ''2026-01-01T00:00:00Z'',
      fi_command = Some [''/usr/bin/rsync'', ''-a''], fi_every = Some 900\<rparr>"

definition sample_file_config :: file_config where
  "sample_file_config =
     \<lparr>ff_service_url = Some ''https://records.example'', ff_device = Some ''mbp'', ff_tick_interval = 30,
      ff_history_poll_interval = 300, ff_revisit_window = 500, ff_browser_profile = Some ''Default'',
      ff_buffer = default_buffer, ff_redact = default_redact,
      ff_claude_code = \<lparr>fk_roots = default_claude_code_roots, fk_import = [sample_import],
        fk_poll_interval = 60\<rparr>\<rparr>"

lemma sample_file_reads: "toml_config sample_file = Some sample_file_config"
  by code_simp

definition sample_url :: url where
  "sample_url =
     \<lparr>url_scheme = ''https'', url_username = [], url_password = None,
      url_host = Some ''records.example'', url_port = None, url_query = None, url_fragment = None,
      url_opaque = False\<rparr>"

definition sample_config_lib :: config_lib where
  "sample_config_lib =
     \<lparr>li_toml = \<lambda>_. Inr sample_file, li_url = \<lambda>s. Inr sample_url, li_rfc3339 = \<lambda>_. Inr 1767225600000\<rparr>"

definition sample_parse :: "(config_error, config) res" where
  "sample_parse = parse_config sample_config_lib ''text'' ''/c.toml'' ''/state'' (Some ''/Users/me'')"

lemma sample_present:
  "list_all (\<lambda>s. \<not> blank s)
     [''https://records.example'', ''mbp'', ''Default'', ''homelab'', ''~/mirror'', ''2026-01-01T00:00:00Z'']"
  by code_simp

lemma sample_paths:
  "expand_home ''~/mirror'' (Some ''/Users/me'') f = Inr ''/Users/me/mirror''"
  "expand_home ''/usr/bin/rsync'' (Some ''/Users/me'') f = Inr ''/usr/bin/rsync''"
  unfolding expand_home_Inr by code_simp+

lemma sample_roots:
  "map_option (map cr_profile) (case resolve_roots (Some ''/Users/me'') default_claude_code_roots [] of
       Inl _ \<Rightarrow> None | Inr rs \<Rightarrow> Some rs) =
     Some [''claude'', ''claude-work'']"
  by code_simp

lemma sample_parse_fields:
  "\<exists>cfg. sample_parse = Inr cfg \<and> map cr_profile (cc_roots (cf_claude_code cfg)) = [''claude'', ''claude-work'']"
proof -
  from sample_roots obtain rs where rs: "resolve_roots (Some ''/Users/me'') default_claude_code_roots [] = Inr rs"
    "map cr_profile rs = [''claude'', ''claude-work'']"
    by (auto split: sum.splits)
  have req: "required (Some s) f = Inr s" if "\<not> blank s" for s f
    using that by (simp add: required_def)
  have "\<exists>imps. resolve_imports sample_config_lib ''mbp'' (Some ''/Users/me'') [sample_import] [] = Inr imps"
    using sample_present sample_paths
    by (simp add: claude_import_from_def sample_import_def req sample_config_lib_def import_pull_def
        pull_from_def claude_code_pull_every_min_def)
  then obtain imps where
    imps: "resolve_imports sample_config_lib ''mbp'' (Some ''/Users/me'') [sample_import] [] = Inr imps"
    by blast
  have claude: "claude_code_from sample_config_lib (ff_claude_code sample_file_config) ''mbp'' (Some ''/Users/me'') =
      Inr \<lparr>cc_roots = rs, cc_imports = imps, cc_poll_interval = 60\<rparr>"
    using rs(1) imps
    by (simp add: claude_code_from_def sample_file_config_def claude_code_poll_interval_min_def)
  have url: "service_url_from sample_config_lib s = Inr sample_url" for s
    by (simp add: service_url_from_def sample_config_lib_def sample_url_def)
  have present: "required (ff_service_url sample_file_config) f = Inr ''https://records.example''"
      "required (ff_device sample_file_config) f = Inr ''mbp''"
      "required (ff_browser_profile sample_file_config) f = Inr ''Default''" for f
    using sample_present by (simp_all add: sample_file_config_def req)
  have nums: "ff_tick_interval sample_file_config = 30" "ff_history_poll_interval sample_file_config = 300"
      "max_rows (ff_buffer sample_file_config) = 200000" "max_bytes (ff_buffer sample_file_config) = 536870912"
    by (simp_all add: sample_file_config_def default_buffer_def default_max_rows_def default_max_bytes_def)
  have "\<exists>cfg. check_config sample_config_lib sample_file_config ''/state'' (Some ''/Users/me'') = Inr cfg \<and>
      cf_claude_code cfg = \<lparr>cc_roots = rs, cc_imports = imps, cc_poll_interval = 60\<rparr>"
    unfolding check_config_def present url res_bind_simps nums claude
    by (simp add: overflow_headroom_bytes_def history_poll_interval_min_def tick_interval_min_def
        tick_interval_max_def)
  then obtain cfg where "check_config sample_config_lib sample_file_config ''/state'' (Some ''/Users/me'') = Inr cfg"
      "cf_claude_code cfg = \<lparr>cc_roots = rs, cc_imports = imps, cc_poll_interval = 60\<rparr>"
    by blast
  moreover have "li_toml sample_config_lib t = Inr sample_file" for t
    by (simp add: sample_config_lib_def)
  ultimately show ?thesis
    using rs(2) by (simp add: sample_parse_def parse_config_def sample_file_reads)
qed

theorem parsed_config_ok_witness:
  "\<exists>cfg. sample_parse = Inr cfg \<and>
     map cr_profile (cc_roots (cf_claude_code cfg)) = [''claude'', ''claude-work''] \<and> config_ok cfg"
  using sample_parse_fields
proof (elim exE conjE, intro exI conjI)
  fix cfg
  assume "sample_parse = Inr cfg"
  then show "config_ok cfg" unfolding sample_parse_def by (rule parsed_config_ok)
qed

end
