(* ===== verification/Pipeline.thy ===== *)
theory Pipeline
  imports Buffer_Serve Ship
begin

text \<open>
  From the providers into the buffer: emissions and the supervision of providers,
  \<open>src/src/providers/mod.rs\<close>, and \<open>absorb\<close> with \<open>store\<close>, \<open>src/src/runtime/mod.rs\<close>. Emissions are
  stored one at a time, in the order of the queue; while one waits for a shipment, the buffer serves
  the commands of the other handles, which are given with the arrival (\<open>ar_meanwhile\<close>).
\<close>

subsection \<open>Emissions\<close>

record emission =
  em_records :: "record_draft list"
  em_cursor :: "cursor option"
  em_committed :: bool              \<comment> \<open>a receipt is asked for\<close>
  em_ships_before_commit :: bool
  em_device :: "string option"

definition emission_new :: "record_draft list \<Rightarrow> emission" where
  "emission_new records =
     \<lparr>em_records = records, em_cursor = None, em_committed = False, em_ships_before_commit = False,
      em_device = None\<rparr>"

definition awaiting_commit :: "record_draft list \<Rightarrow> cursor option \<Rightarrow> emission" where
  "awaiting_commit records cur =
     \<lparr>em_records = records, em_cursor = cur, em_committed = True, em_ships_before_commit = True,
      em_device = None\<rparr>"

definition awaiting_buffer :: "record_draft list \<Rightarrow> cursor option \<Rightarrow> emission" where
  "awaiting_buffer records cur =
     \<lparr>em_records = records, em_cursor = cur, em_committed = True, em_ships_before_commit = False,
      em_device = None\<rparr>"

definition for_device :: "string \<Rightarrow> emission \<Rightarrow> emission" where
  "for_device device em = em\<lparr>em_device := Some device\<rparr>"

subsection \<open>Storing\<close>

text \<open>
  \<open>ShipNow::within\<close>: the request is queued if there is room, and until it is answered or the budget
  is over the buffer serves what the shipper sends.
\<close>

definition within :: "buffer_env \<Rightarrow> bool \<Rightarrow> (timestamp \<times> timestamp \<times> command) list \<Rightarrow> db \<Rightarrow> db" where
  "within env room meanwhile s = (if \<not> room then s else snd (serve env meanwhile s))"

datatype receipt = Unasked | Acknowledged | Dropped

record arrival =
  ar_emission :: "emission option"   \<comment> \<open>\<open>None\<close>: the shutdown flag changed\<close>
  ar_now :: timestamp
  ar_later :: timestamp
  ar_room :: bool
  ar_meanwhile :: "(timestamp \<times> timestamp \<times> command) list"

type_synonym stored = "(buffer_error, envelope list) res \<times> receipt"

definition store :: "buffer_env \<Rightarrow> arrival \<Rightarrow> emission \<Rightarrow> db \<Rightarrow> stored \<times> db" where
  "store env a em s =
     (case enqueue env (ar_now a) (ar_later a) (em_records em) (em_cursor em) (em_device em) s of
        (Inl e, s) \<Rightarrow> ((Inl e, if em_committed em then Dropped else Unasked), s)
      | (Inr envelopes, s) \<Rightarrow>
          if \<not> em_committed em then ((Inr envelopes, Unasked), s)
          else if \<not> em_ships_before_commit em then ((Inr envelopes, Acknowledged), s)
          else let (flushed, s) = checkpoint s
               in ((Inr envelopes, Acknowledged), within env (ar_room a) (ar_meanwhile a) s))"

text \<open>
  \<open>absorb\<close>: emissions as they arrive until the shutdown flag changes or every sender is gone; after
  the flag the queue is closed and what is left in it is stored.
\<close>

fun drain_queue :: "buffer_env \<Rightarrow> arrival list \<Rightarrow> db \<Rightarrow> stored list \<times> db" where
  "drain_queue env [] s = ([], s)"
| "drain_queue env (a # as) s =
     (case ar_emission a of
        None \<Rightarrow> drain_queue env as s
      | Some em \<Rightarrow>
          let (r, s) = store env a em s; (rs, s) = drain_queue env as s in (r # rs, s))"

fun absorb :: "buffer_env \<Rightarrow> arrival list \<Rightarrow> db \<Rightarrow> stored list \<times> db" where
  "absorb env [] s = ([], s)"
| "absorb env (a # as) s =
     (case ar_emission a of
        None \<Rightarrow> drain_queue env as s
      | Some em \<Rightarrow>
          let (r, s) = store env a em s; (rs, s) = absorb env as s in (r # rs, s))"

subsection \<open>Supervision\<close>

definition restart_backoff_start :: nat where "restart_backoff_start = 1"
definition restart_backoff_ceiling :: nat where "restart_backoff_ceiling = 300"

record backoff =
  bo_start :: nat
  bo_ceiling :: nat

definition default_backoff :: backoff where
  "default_backoff = \<lparr>bo_start = restart_backoff_start, bo_ceiling = restart_backoff_ceiling\<rparr>"

text \<open>How one run of a provider ends, and what supervision has come to.\<close>

datatype attempt = Finished | Failed string | Panicked | Cancelled

datatype supervised = Done | Supervising nat   \<comment> \<open>the pause before the next restart\<close>

text \<open>The pauses between the attempts, in seconds.\<close>

fun supervise_from :: "nat \<Rightarrow> nat \<Rightarrow> attempt list \<Rightarrow> nat list \<times> supervised" where
  "supervise_from ceiling pause [] = ([], Supervising pause)"
| "supervise_from ceiling pause (a # as) =
     (case a of
        Finished \<Rightarrow> ([], Done)
      | Cancelled \<Rightarrow> ([], Done)
      | _ \<Rightarrow>
          let (pauses, out) = supervise_from ceiling (min (pause * 2) ceiling) as
          in (pause # pauses, out))"

definition supervise :: "backoff \<Rightarrow> attempt list \<Rightarrow> nat list \<times> supervised" where
  "supervise b attempts = supervise_from (bo_ceiling b) (bo_start b) attempts"

lemma min_double: "min (min (p * 2) c * 2 ^ m) c = min (p * 2 ^ Suc m) (c :: nat)"
proof (cases "p * 2 \<le> c")
  case True
  then show ?thesis by (simp add: mult.assoc)
next
  case False
  then have "c \<le> p * 2 * 2 ^ m" by (metis le_trans mult_le_mono2 mult_1_right nat_le_linear one_le_numeral one_le_power)
  then have "min (p * 2 ^ Suc m) c = c" by (simp add: mult.assoc min_absorb2)
  moreover have "min (c * 2 ^ m) c = c" using mult_le_mono2 [of 1 "2 ^ m" c] by (simp add: min_absorb2)
  ultimately show ?thesis using False by (simp add: min_absorb2)
qed

text \<open>The pauses double up to the ceiling, one per restart.\<close>

lemma supervise_pauses:
  "n < length (fst (supervise_from ceiling pause as)) \<Longrightarrow> pause \<le> ceiling \<Longrightarrow>
     fst (supervise_from ceiling pause as) ! n = min (pause * 2 ^ n) ceiling"
proof (induction ceiling pause as arbitrary: n rule: supervise_from.induct)
  case (2 ceiling pause a as)
  obtain pauses out where r: "supervise_from ceiling (min (pause * 2) ceiling) as = (pauses, out)"
    by fastforce
  from "2.prems"(1) have a: "a \<noteq> Finished" "a \<noteq> Cancelled" by auto
  then have step: "supervise_from ceiling pause (a # as) = (pause # pauses, out)"
    using r by (cases a) auto
  show ?case
  proof (cases n)
    case 0
    with step "2.prems" show ?thesis by simp
  next
    case (Suc m)
    have "pauses ! m = min (min (pause * 2) ceiling * 2 ^ m) ceiling"
      using "2.IH" "2.prems" a r step Suc by (cases a) auto
    with min_double [of pause ceiling m] Suc step show ?thesis by simp
  qed
qed simp

subsection \<open>What an acknowledgement says\<close>

text \<open>The cursors after a list of arrivals of which some were stored.\<close>

fun cursors_after ::
  "(emission \<times> stored) list \<Rightarrow> (string \<times> string \<rightharpoonup> string) \<Rightarrow> (string \<times> string \<rightharpoonup> string)" where
  "cursors_after [] m = m"
| "cursors_after ((em, r, _) # rest) m =
     cursors_after rest (case r of Inl _ \<Rightarrow> m | Inr _ \<Rightarrow> with_cursor (em_cursor em) m)"

definition emissions_of :: "arrival list \<Rightarrow> emission list" where
  "emissions_of arrivals = List.map_filter ar_emission arrivals"

text \<open>What the shipper may send meanwhile: anything but an enqueue.\<close>

definition no_enqueue :: "arrival \<Rightarrow> bool" where
  "no_enqueue a \<longleftrightarrow>
     list_all (\<lambda>(_, _, c). case c of Enqueue ds cur dev \<Rightarrow> False | _ \<Rightarrow> True) (ar_meanwhile a)"

lemma emissions_of_simps [simp]:
  "emissions_of [] = []"
  "emissions_of (a # as) = (case ar_emission a of None \<Rightarrow> emissions_of as | Some em \<Rightarrow> em # emissions_of as)"
  by (simp_all add: emissions_of_def List.map_filter_simps split: option.split)

lemma serve_no_enqueue:
  assumes "\<And>now later c. (case c of Enqueue ds cur dev \<Rightarrow> False | _ \<Rightarrow> True) \<Longrightarrow> keeps P (serve_command env now later c)"
    and "list_all (\<lambda>(_, _, c). case c of Enqueue ds cur dev \<Rightarrow> False | _ \<Rightarrow> True) cs"
    and "P (db_tables s)"
  shows "P (db_tables (snd (serve env cs s)))"
  using assms(2,3)
proof (induction cs arbitrary: s)
  case (Cons c cs)
  obtain now later cmd where c: "c = (now, later, cmd)" by (cases c)
  with Cons.prems assms(1) have "P (db_tables (snd (serve_command env now later cmd s)))"
    by (auto simp: keeps_def)
  with Cons.IH Cons.prems(1) show ?case
    by (auto simp: c Let_def split: prod.split) (metis snd_conv)+
qed simp

lemma within_keeps:
  assumes "no_enqueue a"
  shows "t_cursors (db_tables (within env room (ar_meanwhile a) s)) = t_cursors (db_tables s)"
    and "tables_ok (db_tables s) \<Longrightarrow> tables_ok (db_tables (within env room (ar_meanwhile a) s))"
proof -
  have "t_cursors (db_tables (snd (serve env (ar_meanwhile a) s))) = t_cursors (db_tables s)"
    by (rule serve_no_enqueue [where P = "\<lambda>t. t_cursors t = t_cursors (db_tables s)"])
      (use assms in \<open>auto simp: no_enqueue_def intro!: keeps_command\<close>)
  then show "t_cursors (db_tables (within env room (ar_meanwhile a) s)) = t_cursors (db_tables s)"
    by (simp add: within_def)
  show "tables_ok (db_tables (within env room (ar_meanwhile a) s))" if "tables_ok (db_tables s)"
    using that by (simp add: within_def keeps_serve keeps_tables_ok_command)
qed

text \<open>What a caller learns: nothing it did not ask for, an acknowledgement exactly for what is stored.\<close>

definition receipt_for :: "emission \<Rightarrow> (buffer_error, envelope list) res \<Rightarrow> receipt" where
  "receipt_for em r =
     (if \<not> em_committed em then Unasked else case r of Inl _ \<Rightarrow> Dropped | Inr _ \<Rightarrow> Acknowledged)"

lemma enqueue_cursors:
  assumes "tables_ok (db_tables s)" "enqueue env now later ds cur dev s = (Inr ens, s')"
  shows "t_cursors (db_tables s') = with_cursor cur (t_cursors (db_tables s))"
proof -
  have "t_cursors (snd (enqueue_spec env now later ds cur dev seq t)) = with_cursor cur (t_cursors t)" for seq t
    by (simp add: enqueue_spec_def Let_def)
  with enqueue_Inr [OF assms] show ?thesis by (metis snd_conv)
qed

lemma store_effect:
  assumes ok: "tables_ok (db_tables s)" and quiet: "no_enqueue a"
    and run: "store env a em s = ((r, receipt), s')"
  shows "receipt = receipt_for em r \<and> tables_ok (db_tables s') \<and>
     t_cursors (db_tables s') =
       (case r of Inl _ \<Rightarrow> t_cursors (db_tables s) | Inr _ \<Rightarrow> with_cursor (em_cursor em) (t_cursors (db_tables s)))"
proof -
  obtain res s1 where enq: "enqueue env (ar_now a) (ar_later a) (em_records em) (em_cursor em) (em_device em) s = (res, s1)"
    by fastforce
  have ok1: "tables_ok (db_tables s1)" using keepsD [OF keeps_tables_ok_enqueue enq ok] .
  show ?thesis
  proof (cases res)
    case (Inl e)
    with run enq enqueue_Inl [OF enq [unfolded Inl]] ok1 show ?thesis
      by (auto simp: store_def receipt_for_def)
  next
    case (Inr ens)
    with enqueue_cursors [OF ok] enq
    have cur: "t_cursors (db_tables s1) = with_cursor (em_cursor em) (t_cursors (db_tables s))" by simp
    obtain fl s2 where fl: "checkpoint s1 = (fl, s2)" by fastforce
    have "keeps (\<lambda>t. t = db_tables s1) checkpoint"
      by (auto simp: checkpoint_def intro!: keeps_intros)
    from keepsD [OF this fl] have "db_tables s2 = db_tables s1" by simp
    with run enq Inr cur ok1 fl within_keeps [OF quiet, where env = env and room = "ar_room a" and s = s2] show ?thesis
      by (auto simp: store_def receipt_for_def split: if_splits)
  qed
qed

lemma drain_queue_effect:
  assumes "drain_queue env as s = (rs, s')" "tables_ok (db_tables s)" "list_all no_enqueue as"
  shows "tables_ok (db_tables s') \<and>
     list_all2 (\<lambda>em r. snd r = receipt_for em (fst r)) (emissions_of as) rs \<and>
     t_cursors (db_tables s') = cursors_after (zip (emissions_of as) rs) (t_cursors (db_tables s))"
  using assms
proof (induction env as s arbitrary: rs rule: drain_queue.induct)
  case (2 env a as s)
  show ?case
  proof (cases "ar_emission a")
    case None
    with 2 show ?thesis by simp
  next
    case (Some em)
    obtain r receipt s1 where st: "store env a em s = ((r, receipt), s1)" by (metis prod.collapse)
    obtain rs1 s2 where rest: "drain_queue env as s1 = (rs1, s2)" by fastforce
    from store_effect [OF "2.prems"(2) _ st] "2.prems"(3)
    have eff: "receipt = receipt_for em r" "tables_ok (db_tables s1)"
      "t_cursors (db_tables s1) =
        (case r of Inl _ \<Rightarrow> t_cursors (db_tables s) | Inr _ \<Rightarrow> with_cursor (em_cursor em) (t_cursors (db_tables s)))"
      by auto
    from "2.IH"(2) [OF Some st [symmetric]] rest eff "2.prems" Some st
    show ?thesis by auto
  qed
qed simp

text \<open>After the shutdown flag the queue is drained as it was before it.\<close>

lemma absorb_drain: "absorb env as s = drain_queue env as s"
proof (induction env as s rule: absorb.induct)
  case (2 env a as s)
  then show ?case by (cases "ar_emission a") (auto split: prod.split)
qed simp

text \<open>
  C32. Absorbing loses no emission and tells the truth about each: every emission of the queue, also
  those still in it at shutdown, gets one attempt in order; a provider that asked is acknowledged
  exactly when its records and its cursor were committed together, and its sender is dropped when
  they were not; and the stored cursors afterwards are those of the committed emissions, in order,
  and no others, whatever the shipper does to the queue meanwhile and whatever SQLite fails at.
\<close>

theorem absorb_accounts:
  assumes "tables_ok (db_tables s)" "list_all no_enqueue arrivals"
    and "absorb env arrivals s = (rs, s')"
  shows "list_all2 (\<lambda>em r. snd r = receipt_for em (fst r)) (emissions_of arrivals) rs \<and>
         tables_ok (db_tables s') \<and>
         t_cursors (db_tables s') = cursors_after (zip (emissions_of arrivals) rs) (t_cursors (db_tables s))"
  using drain_queue_effect [OF _ assms(1,2), of env rs s'] assms by (simp add: absorb_drain)

definition sample_arrivals :: "arrival list" where
  "sample_arrivals =
     (let cur = (\<lambda>v. Some \<lparr>cur_provider = ClaudeCode, cur_key = ''k'', cur_value = v\<rparr>);
          at = (\<lambda>em. \<lparr>ar_emission = em, ar_now = Timestamp 0, ar_later = Timestamp 0, ar_room = True,
                     ar_meanwhile = [(Timestamp 0, Timestamp 0, TakeBatch 5), (Timestamp 0, Timestamp 0, DeleteBatch [1])]\<rparr>)
      in [at (Some (awaiting_commit [sample_draft] (cur ''a''))), at None,
          at (Some (awaiting_buffer [sample_draft] (cur ''b'')))])"

definition sample_db :: db where
  "sample_db = \<lparr>db_tables = empty_tables, db_faults = replicate 14 False @ [True]\<rparr>"

definition sample_absorbed :: "stored list \<times> db" where
  "sample_absorbed = absorb (sample_env 9) sample_arrivals sample_db"

lemma sample_absorb:
  "map snd (fst sample_absorbed) = [Acknowledged, Dropped] \<and>
   t_cursors (db_tables (snd sample_absorbed)) (''claude_code'', ''k'') = Some ''a''"
  by code_simp

theorem absorb_accounts_witness:
  "map snd (fst sample_absorbed) = [Acknowledged, Dropped] \<and>
   cursors_after (zip (emissions_of sample_arrivals) (fst sample_absorbed)) (t_cursors (db_tables sample_db))
     (''claude_code'', ''k'') = Some ''a''"
proof -
  have "tables_ok (db_tables sample_db)" by (simp add: sample_db_def tables_ok_empty)
  moreover have "list_all no_enqueue sample_arrivals"
    by (simp add: sample_arrivals_def no_enqueue_def)
  ultimately have "t_cursors (db_tables (snd sample_absorbed)) =
      cursors_after (zip (emissions_of sample_arrivals) (fst sample_absorbed)) (t_cursors (db_tables sample_db))"
    using absorb_accounts [of sample_db sample_arrivals "sample_env 9" "fst sample_absorbed" "snd sample_absorbed"]
    by (simp add: sample_absorbed_def)
  with sample_absorb show ?thesis by simp
qed

end
