(* ===== verification/Claude_Reading.thy ===== *)
theory Claude_Reading
  imports Claude_Files
begin

text \<open>
  What reading in increments amounts to. \<open>remaining\<close> is a plain reader without budgets: the records
  of every complete line from a position on, lines longer than the cap left out. An increment gives a
  first part of it and a cursor from which the rest is still to come, also when the file has grown
  since; so increments lose nothing and repeat nothing, wherever the budgets cut.
\<close>

subsection \<open>Lines\<close>

lemma skip_append_none:
  "newline \<notin> set xs \<Longrightarrow>
     skip_through_newline (xs @ ys) (length xs + m) =
       (let (n, reached) = skip_through_newline ys m in (n + length xs, reached))"
  by (induction xs) (auto split: prod.split)

lemma skip_not_reached:
  "skip_through_newline rest limit = (n, False) \<Longrightarrow> n = min limit (length rest) \<and> newline \<notin> set (take n rest)"
  by (induction rest limit arbitrary: n rule: skip_through_newline.induct)
    (auto split: if_splits prod.splits)

lemma skip_reached_append:
  "skip_through_newline rest limit = (n, True) \<Longrightarrow> limit \<le> limit' \<or> length rest \<le> limit' \<Longrightarrow>
     skip_through_newline (rest @ grown) limit' = (n, True)"
proof (induction rest limit arbitrary: n limit' rule: skip_through_newline.induct)
  case (2 c cs limit)
  show ?case
  proof (cases "c = newline")
    case True
    with 2 show ?thesis by (auto split: if_splits)
  next
    case False
    with "2.prems"(1) obtain m where m: "limit \<noteq> 0" "skip_through_newline cs (limit - 1) = (m, True)" "n = m + 1"
      by (auto split: if_splits prod.splits)
    with "2.prems"(2) have "0 < limit'" "limit - 1 \<le> limit' - 1 \<or> length cs \<le> limit' - 1" by auto
    with "2.IH" [OF m(1) False m(2), of "limit' - 1"] False m show ?thesis by simp
  qed
qed simp

lemma length_read_until_cap: "length (read_until_newline cap rest) \<le> cap"
  by (induction cap rest rule: read_until_newline.induct) auto

lemma read_until_ends:
  "ends_line (read_until_newline cap rest) \<Longrightarrow> cap \<le> cap' \<Longrightarrow>
     read_until_newline cap' (rest @ grown) = read_until_newline cap rest"
proof (induction cap rest arbitrary: cap' rule: read_until_newline.induct)
  case (2 cap c cs)
  then show ?case by (auto simp: ends_line_def split: if_splits)
qed (simp add: ends_line_def)

lemma read_until_full:
  "length (read_until_newline cap rest) = cap \<Longrightarrow>
     read_until_newline cap (rest @ grown) = read_until_newline cap rest"
proof (induction cap rest rule: read_until_newline.induct)
  case (1 cap)
  then show ?case by (cases grown) auto
next
  case (2 cap c cs)
  then show ?case by (auto split: if_splits)
qed

lemma read_until_prefix: "\<exists>grown. rest = read_until_newline cap rest @ grown"
  by (induction cap rest rule: read_until_newline.induct) auto

lemma drop_read_until:
  "drop (length (read_until_newline cap rest)) (rest @ grown) =
     drop (length (read_until_newline cap rest)) rest @ grown"
  by (simp add: length_read_until_le)

subsection \<open>The reader without budgets\<close>

function remaining :: "reading \<Rightarrow> int option \<Rightarrow> bool \<Rightarrow> string \<Rightarrow> record_draft list" where
  "remaining r last_ts skipping rest =
     (if skipping then
        (case skip_through_newline rest (length rest) of
           (n, reached) \<Rightarrow> if reached then remaining r last_ts False (drop n rest) else [])
      else
        let cap = line_cap (so_identity (rd_source r)); line = read_until_newline cap rest
        in if \<not> ends_line line then
             (if length line < cap then [] else remaining r last_ts True (drop (length line) rest))
           else case read_line r last_ts line of
             (drafts, last_ts) \<Rightarrow> drafts @ remaining r last_ts False (drop (length line) rest))"
  by pat_completeness auto

termination
proof (relation "measure (\<lambda>(r, last_ts, skipping, rest). length rest)", goal_cases)
  case (2 r last_ts skipping rest n reached)
  then show ?case by (auto dest!: skip_reached [OF sym])
next
  case (3 r last_ts skipping rest cap line)
  then have "0 < length line" using line_cap_pos [of "so_identity (rd_source r)"] by auto
  moreover have "length line \<le> length rest" using 3 by (simp add: length_read_until_le)
  ultimately show ?case unfolding in_measure prod.case length_drop by linarith
next
  case (4 r last_ts skipping rest cap line drafts ts)
  then have "0 < length line" by (auto simp: ends_line_def)
  moreover have "length line \<le> length rest" using 4 by (simp add: length_read_until_le)
  ultimately show ?case unfolding in_measure prod.case length_drop by linarith
qed simp

declare remaining.simps [simp del]

lemma remaining_skip:
  "remaining r ts True rest =
     (case skip_through_newline rest (length rest) of
        (n, reached) \<Rightarrow> if reached then remaining r ts False (drop n rest) else [])"
  by (subst remaining.simps) simp

lemma remaining_skip_none: "newline \<notin> set xs \<Longrightarrow> remaining r ts True (xs @ ys) = remaining r ts True ys"
  using skip_append_none [of xs ys "length ys"]
  by (simp add: remaining_skip split: prod.split)

lemma remaining_skip_reached:
  assumes "skip_through_newline rest limit = (n, True)"
  shows "remaining r ts True (rest @ grown) = remaining r ts False (drop n rest @ grown)"
proof -
  have "n \<le> length rest" using skip_reached [OF assms] by simp
  with skip_reached_append [OF assms, of "length (rest @ grown)" grown] show ?thesis
    by (simp add: remaining_skip)
qed

lemma remaining_line:
  assumes "ends_line (read_until_newline limit rest)" "limit \<le> line_cap (so_identity (rd_source r))"
    and "read_line r ts (read_until_newline limit rest) = (drafts, ts')"
  shows "remaining r ts False (rest @ grown) =
     drafts @ remaining r ts' False (drop (length (read_until_newline limit rest)) rest @ grown)"
  using assms read_until_ends [OF assms(1,2), of grown]
  by (subst remaining.simps) (simp add: Let_def length_read_until_le)

lemma remaining_long_line:
  assumes "\<not> ends_line (read_until_newline cap rest)" "cap \<le> length (read_until_newline cap rest)"
    and "cap = line_cap (so_identity (rd_source r))"
  shows "remaining r ts False (rest @ grown) = remaining r ts True (drop cap rest @ grown)"
proof -
  have full: "length (read_until_newline cap rest) = cap"
    using assms(2) length_read_until_cap by (simp add: le_antisym)
  moreover have "cap \<le> length rest" using full length_read_until_le by metis
  ultimately show ?thesis
    using assms read_until_full [OF full, of grown] by (subst remaining.simps) (simp add: Let_def)
qed

subsection \<open>The loop reads a first part\<close>

text \<open>\<open>advances r sc rest sc' rest'\<close>: from one position to the other, what is read is what was remaining.\<close>

definition advances :: "reading \<Rightarrow> scan \<Rightarrow> string \<Rightarrow> scan \<Rightarrow> bool" where
  "advances r sc rest sc' \<longleftrightarrow>
     (\<exists>k new. sc_offset sc' = sc_offset sc + k \<and> k \<le> length rest \<and> sc_drafts sc' = sc_drafts sc @ new \<and>
        (\<forall>grown. remaining r (sc_last_ts sc) (sc_skipping sc) (rest @ grown) =
           new @ remaining r (sc_last_ts sc') (sc_skipping sc') (drop k rest @ grown)))"

lemma advances_refl: "advances r sc rest sc"
  unfolding advances_def by (intro exI [of _ 0] exI [of _ "[]"]) simp

lemma advances_trans:
  assumes "sc_offset sc1 = sc_offset sc + n" "n \<le> length rest" "sc_drafts sc1 = sc_drafts sc @ new"
    and "\<And>grown. remaining r (sc_last_ts sc) (sc_skipping sc) (rest @ grown) =
           new @ remaining r (sc_last_ts sc1) (sc_skipping sc1) (drop n rest @ grown)"
    and "advances r sc1 (drop n rest) sc2"
  shows "advances r sc rest sc2"
proof -
  from assms(5) obtain k new2 where "sc_offset sc2 = sc_offset sc1 + k" "k \<le> length (drop n rest)"
    "sc_drafts sc2 = sc_drafts sc1 @ new2"
    "\<forall>grown. remaining r (sc_last_ts sc1) (sc_skipping sc1) (drop n rest @ grown) =
       new2 @ remaining r (sc_last_ts sc2) (sc_skipping sc2) (drop k (drop n rest) @ grown)"
    unfolding advances_def by blast
  with assms(1-4) show ?thesis
    unfolding advances_def
    by (intro exI [of _ "n + k"] exI [of _ "new @ new2"]) (simp add: add.commute)
qed

lemma read_loop_advances: "advances r sc rest (read_loop r b start sc rest)"
proof (induction r b start sc rest rule: read_loop.induct)
  case (1 r b start sc rest)
  show ?case
  proof (cases "within_budget b start sc")
    case False
    then show ?thesis by (subst read_loop.simps) (simp add: advances_refl)
  next
    case within: True
    show ?thesis
    proof (cases "sc_skipping sc")
      case True
      obtain n reached where
        sk: "skip_through_newline rest (rb_max_scan_bytes b - (sc_offset sc - start)) = (n, reached)"
        by fastforce
      let ?sc = "sc\<lparr>sc_offset := sc_offset sc + n, sc_skipping := \<not> reached\<rparr>"
      show ?thesis
      proof (cases reached)
        case r: True
        have n: "n \<le> length rest" using sk r skip_reached by auto
        have "advances r ?sc (drop n rest) (read_loop r b start ?sc (drop n rest))"
          by (rule "1.IH"(1) [OF _ True sk [symmetric] _ refl]) (use within r in simp_all)
        from advances_trans [OF _ n _ _ this, of sc "[]"] remaining_skip_reached sk r True
        have "advances r sc rest (read_loop r b start ?sc (drop n rest))" by simp
        with within True sk r show ?thesis by (subst read_loop.simps) simp
      next
        case r: False
        with sk have n: "n = min (rb_max_scan_bytes b - (sc_offset sc - start)) (length rest)"
            "newline \<notin> set (take n rest)"
          using skip_not_reached by auto
        have "remaining r (sc_last_ts sc) True (rest @ grown) = remaining r (sc_last_ts sc) True (drop n rest @ grown)"
          for grown
          using remaining_skip_none [OF n(2), of r "sc_last_ts sc" "drop n rest @ grown"]
          by (metis append.assoc append_take_drop_id)
        then have "advances r sc rest ?sc"
          using True r n(1) unfolding advances_def by (intro exI [of _ n] exI [of _ "[]"]) simp
        with within True sk r show ?thesis by (subst read_loop.simps) simp
      qed
    next
      case skip: False
      define cap where "cap = line_cap (so_identity (rd_source r))"
      define limit where "limit = read_cap b cap (sc_offset sc - start)"
      define line where "line = read_until_newline limit rest"
      have len: "length line \<le> length rest" by (simp add: line_def length_read_until_le)
      have limit: "limit \<le> cap" by (simp add: limit_def read_cap_def)
      show ?thesis
      proof (cases "ends_line line")
        case True
        obtain drafts ts where rl: "read_line r (sc_last_ts sc) line = (drafts, ts)" by fastforce
        let ?sc = "sc\<lparr>sc_offset := sc_offset sc + length line, sc_last_ts := ts,
                      sc_drafts := sc_drafts sc @ drafts,
                      sc_text_bytes := sc_text_bytes sc + sum_list (map text_length drafts)\<rparr>"
        have "advances r ?sc (drop (length line) rest) (read_loop r b start ?sc (drop (length line) rest))"
          by (rule "1.IH"(3) [OF _ skip cap_def limit_def line_def _ rl [symmetric] refl]) (use within True in simp_all)
        from advances_trans [OF _ len _ _ this, of sc drafts]
          remaining_line [of limit rest r "sc_last_ts sc" drafts ts] True limit rl skip
        have "advances r sc rest (read_loop r b start ?sc (drop (length line) rest))"
          by (simp add: line_def cap_def)
        with within skip True rl show ?thesis
          by (subst read_loop.simps) (simp add: Let_def flip: cap_def limit_def line_def)
      next
        case False
        show ?thesis
        proof (cases "length line < limit \<or> limit < cap")
          case True
          with within skip False show ?thesis
            by (subst read_loop.simps) (simp add: advances_refl Let_def flip: cap_def limit_def line_def)
        next
          case long: False
          then have "limit = cap" using limit by simp
          let ?sc = "sc\<lparr>sc_offset := sc_offset sc + length line, sc_skipping := True\<rparr>"
          have full: "length line = cap"
            using long \<open>limit = cap\<close> length_read_until_cap [of limit rest] by (simp add: line_def)
          have "advances r ?sc (drop (length line) rest) (read_loop r b start ?sc (drop (length line) rest))"
            by (rule "1.IH"(2) [OF _ skip cap_def limit_def line_def]) (use within False long in simp_all)
          moreover have "remaining r (sc_last_ts sc) False (rest @ grown) =
              remaining r (sc_last_ts sc) True (drop cap rest @ grown)" for grown
            using remaining_long_line [of cap rest r] False full \<open>limit = cap\<close> by (simp add: line_def cap_def)
          ultimately have "advances r sc rest (read_loop r b start ?sc (drop (length line) rest))"
            using advances_trans [of ?sc sc "length line" rest "[]"] len skip full by simp
          with within skip False long show ?thesis
            by (subst read_loop.simps) (simp add: Let_def flip: cap_def limit_def line_def)
        qed
      qed
    qed
  qed
qed

subsection \<open>Increments\<close>

text \<open>What is still to be read of a file from a cursor, by the reader without budgets.\<close>

definition still_to_read :: "reading \<Rightarrow> file_cursor \<Rightarrow> string \<Rightarrow> record_draft list" where
  "still_to_read r c bytes =
     remaining r (fc_last_message_ts c) (fc_skipping c) (drop (fc_offset c) bytes)"

lemma resume_offset: "resume sha i f cur = Some c \<Longrightarrow> fc_offset c \<le> length (fl_bytes f)"
  by (auto simp: resume_def fresh_cursor_def split: file_identity.splits option.splits if_splits)

lemma read_increment_Some:
  assumes "read_increment lib now path src cur b (Inr f) = Inr (Some inc)"
    and r: "r = reading_of lib path src (modified_millis now (fl_modified f))"
  shows "\<exists>start. resume (cl_sha lib) (so_identity src) f cur = Some start \<and>
     fc_offset start < fc_offset (in_cursor inc) \<and> fc_offset (in_cursor inc) \<le> length (fl_bytes f) \<and>
     fc_inode (in_cursor inc) = fl_inode f \<and> fc_head (in_cursor inc) = fc_head start \<and>
     (\<forall>grown. still_to_read r start (fl_bytes f @ grown) =
        in_drafts inc @ still_to_read r (in_cursor inc) (fl_bytes f @ grown))"
proof -
  from assms(1) obtain start where start: "resume (cl_sha lib) (so_identity src) f cur = Some start"
    by (auto simp: read_increment_def split: option.splits)
  define rest where "rest = drop (fc_offset start) (fl_bytes f)"
  define sc where "sc = read_loop r b (fc_offset start) (start_scan start) rest"
  from assms(1) start have
    moved: "sc_offset sc \<noteq> fc_offset start" and
    inc: "in_drafts inc = sc_drafts sc" "fc_offset (in_cursor inc) = sc_offset sc"
      "fc_last_message_ts (in_cursor inc) = sc_last_ts sc" "fc_skipping (in_cursor inc) = sc_skipping sc"
      "fc_inode (in_cursor inc) = fl_inode f" "fc_head (in_cursor inc) = fc_head start"
    by (auto simp: read_increment_def Let_def sc_def rest_def r split: if_splits)
  from read_loop_advances [of r "start_scan start" rest b "fc_offset start"] obtain k new where
    k: "sc_offset sc = fc_offset start + k" "k \<le> length rest" "sc_drafts sc = new" and
    rem: "\<And>grown. remaining r (fc_last_message_ts start) (fc_skipping start) (rest @ grown) =
       new @ remaining r (sc_last_ts sc) (sc_skipping sc) (drop k rest @ grown)"
    unfolding advances_def sc_def [symmetric] by (auto simp: start_scan_def)
  have off: "fc_offset start \<le> length (fl_bytes f)" using resume_offset [OF start] .
  have "still_to_read r start (fl_bytes f @ grown) =
        in_drafts inc @ still_to_read r (in_cursor inc) (fl_bytes f @ grown)" for grown
    using rem [of grown] k off by (simp add: still_to_read_def inc rest_def add.commute)
  with start moved k off inc show ?thesis by (simp add: rest_def)
qed

text \<open>
  C27. Reading in increments loses nothing and repeats nothing: an increment's records followed by
  what is still to be read from its cursor are what was to be read from where it started, wherever
  the budgets cut, also in the middle of a line that is too long, and also when more has been
  appended to the file in the meantime; and the cursor moves forward, within the file.
\<close>

theorem increment_splits:
  assumes "read_increment lib now path src cur b (Inr f) = Inr (Some inc)"
    and "resume (cl_sha lib) (so_identity src) f cur = Some start"
    and "r = reading_of lib path src (modified_millis now (fl_modified f))"
  shows "still_to_read r start (fl_bytes f @ grown) =
           in_drafts inc @ still_to_read r (in_cursor inc) (fl_bytes f @ grown) \<and>
         fc_offset start < fc_offset (in_cursor inc) \<and>
         fc_offset (in_cursor inc) \<le> length (fl_bytes f)"
  using read_increment_Some [OF assms(1,3)] assms(2) by auto

definition sample_lib :: claude_lib where
  "sample_lib =
     \<lparr>cl_parse_json = \<lambda>line. Some (JObject [(''type'', JString ''ai-title''), (''aiTitle'', JString (butlast line))]),
      cl_parse_ts = \<lambda>_. None, cl_sha = \<lambda>s. s\<rparr>"

definition sample_source :: source where
  "sample_source =
     \<lparr>so_profile = ''p'', so_repo_of = \<lambda>_. None, so_identity = Inode, so_touches = Skipped, so_since = None\<rparr>"

definition sample_transcript :: transcript where
  "sample_transcript =
     \<lparr>fl_inode = 7, fl_bytes = ''ab'' @ [newline] @ ''cd'' @ [newline] @ ''e'', fl_modified = Some 9\<rparr>"

definition sample_increment :: "nat \<Rightarrow> increment option io" where
  "sample_increment records =
     read_increment sample_lib (Timestamp 0) ''/x/s.jsonl'' sample_source None
       \<lparr>rb_max_records = records, rb_max_bytes = 100, rb_max_scan_bytes = 100\<rparr> (Inr sample_transcript)"

lemma sample_increment_keys:
  "case sample_increment 1 of Inr (Some inc) \<Rightarrow>
     map dr_key (in_drafts inc) = [ClaudeSession ''s'' ''ai_title'' ''ab''] \<and> fc_offset (in_cursor inc) = 3
   | _ \<Rightarrow> False"
  by code_simp

theorem increment_splits_witness:
  "\<exists>inc. sample_increment 1 = Inr (Some inc) \<and> map dr_key (in_drafts inc) = [ClaudeSession ''s'' ''ai_title'' ''ab''] \<and>
     still_to_read (reading_of sample_lib ''/x/s.jsonl'' sample_source (Timestamp 9)) (fresh_cursor 7 None)
       (fl_bytes sample_transcript @ ''more'') =
     in_drafts inc @ still_to_read (reading_of sample_lib ''/x/s.jsonl'' sample_source (Timestamp 9)) (in_cursor inc)
       (fl_bytes sample_transcript @ ''more'')"
proof -
  from sample_increment_keys obtain inc where inc: "sample_increment 1 = Inr (Some inc)"
    "map dr_key (in_drafts inc) = [ClaudeSession ''s'' ''ai_title'' ''ab'']"
    by (auto split: sum.splits option.splits)
  from increment_splits [OF inc(1) [unfolded sample_increment_def], of "fresh_cursor 7 None"
      "reading_of sample_lib ''/x/s.jsonl'' sample_source (Timestamp 9)" "''more''"] inc
  show ?thesis
    by (simp add: resume_def sample_source_def sample_transcript_def modified_millis_def wrap64_def)
qed

end
