(* ===== verification/Claude_Cursors.thy ===== *)
theory Claude_Cursors
  imports Claude_Reading Config
begin

text \<open>
  Stored cursors: what is written for a file is what is read back for it. The keys of own transcripts,
  imported transcripts and pulls never meet, and every cursor \<open>read_increment\<close> returns fits the
  widths it is stored at, so that decoding gives back the cursor that was encoded.
\<close>

subsection \<open>Keys\<close>

datatype cursor_use =
    OwnFile string
  | ImportFile string string   \<comment> \<open>device, path\<close>
  | PullOf string

fun key_of_use :: "cursor_use \<Rightarrow> string" where
  "key_of_use (OwnFile path) = cursor_key path None"
| "key_of_use (ImportFile device path) = cursor_key path (Some device)"
| "key_of_use (PullOf device) = pull_key device"

fun use_ok :: "cursor_use \<Rightarrow> bool" where
  "use_ok (OwnFile path) \<longleftrightarrow> is_absolute path"
| "use_ok _ \<longleftrightarrow> True"

lemma cursor_key_None: "cursor_key path None = path"
  by (simp add: cursor_key_def)

lemma pull_key_inject: "pull_key device = pull_key device' \<longleftrightarrow> device = device'"
  by (simp add: pull_key_def)

lemma own_not_stored:
  assumes "is_absolute path"
  shows "path \<noteq> cursor_key path' (Some device)" "path \<noteq> pull_key device"
  using assms by (auto simp: is_absolute_def starts_with_iff cursor_key_def pull_key_def)

lemma import_not_pull: "cursor_key path (Some device) \<noteq> pull_key device'"
  by (simp add: cursor_key_def pull_key_def)

lemma import_keys_inject:
  assumes "cursor_key path (Some device) = cursor_key path' (Some device')"
  shows "device = device' \<and> path = path'"
proof -
  have "CHR '':'' \<notin> set (dec_nat n)" for n by (rule dec_nat_no_char) simp
  moreover have "dec_nat (length device) @ CHR '':'' # (device @ '':'' @ path) =
      dec_nat (length device') @ CHR '':'' # (device' @ '':'' @ path')"
    using assms by (simp add: cursor_key_def)
  ultimately have "length device = length device'" "device @ '':'' @ path = device' @ '':'' @ path'"
    using sep_prefix_eq [of "CHR '':''" "dec_nat (length device)" "dec_nat (length device')"
      "device @ '':'' @ path" "device' @ '':'' @ path'"] by simp_all
  then show ?thesis by simp
qed

lemma own_key_use:
  assumes "is_absolute path" "use_ok v" "path = key_of_use v"
  shows "v = OwnFile path"
  using assms own_not_stored [OF assms(1)] by (cases v) (simp_all add: cursor_key_None)

lemma import_key_use:
  assumes "use_ok v" "cursor_key path (Some device) = key_of_use v"
  shows "v = ImportFile device path"
proof (cases v)
  case (OwnFile path')
  with assms own_not_stored(1) [of path' path device] show ?thesis by (simp add: cursor_key_None)
next
  case (ImportFile device' path')
  with assms import_keys_inject [of path device path' device'] show ?thesis by simp
next
  case (PullOf device')
  with assms import_not_pull [of path device device'] show ?thesis by simp
qed

lemma pull_key_use:
  assumes "use_ok v" "pull_key device = key_of_use v"
  shows "v = PullOf device"
proof (cases v)
  case (OwnFile path')
  with assms own_not_stored(2) [of path' device] show ?thesis by (simp add: cursor_key_None)
next
  case (ImportFile device' path')
  with assms import_not_pull [of path' device' device] show ?thesis by simp
next
  case (PullOf device')
  with assms show ?thesis by (simp add: pull_key_inject)
qed

text \<open>
  No two things the provider keeps a cursor for share a stored key: an own transcript is stored
  under its absolute path, an imported one under the length and name of its device and its path, a
  pull under its device, and no choice of names makes two of them coincide, device names with colons
  included.
\<close>

theorem cursor_keys_distinct:
  assumes "use_ok u" "use_ok v"
  shows "key_of_use u = key_of_use v \<longleftrightarrow> u = v"
proof (cases u)
  case (OwnFile path)
  with assms own_key_use [of path v] show ?thesis by (auto simp: cursor_key_None)
next
  case (ImportFile device path)
  with assms import_key_use [of v path device] show ?thesis by auto
next
  case (PullOf device)
  with assms pull_key_use [of v device] show ?thesis by auto
qed

theorem cursor_keys_distinct_witness:
  "key_of_use (ImportFile ''a:1'' ''/x'') \<noteq> key_of_use (ImportFile ''a'' ''1:/x'')"
  using cursor_keys_distinct [of "ImportFile ''a:1'' ''/x''" "ImportFile ''a'' ''1:/x''"] by simp

subsection \<open>Values\<close>

definition in_i64 :: "int \<Rightarrow> bool" where
  "in_i64 i \<longleftrightarrow> - (2 ^ 63) \<le> i \<and> i < 2 ^ 63"

definition cursor_fits :: "file_cursor \<Rightarrow> bool" where
  "cursor_fits c \<longleftrightarrow>
     fc_inode c < 2 ^ 64 \<and> fc_offset c < 2 ^ 64 \<and> fc_version c < 2 ^ 32 \<and>
     pred_option in_i64 (fc_last_message_ts c)"

lemma json_unsigned_JInt [simp]: "n < 2 ^ w \<Longrightarrow> json_unsigned w (JInt (int n)) = Some n"
  by (simp add: json_unsigned_def)

lemma json_signed_JInt [simp]: "in_i64 i \<Longrightarrow> json_signed 64 (JInt i) = Some i"
  by (simp add: json_signed_def in_i64_def)

lemma parse_encode_cursor: "cursor_fits c \<Longrightarrow> parse_cursor (encode_cursor c) = Some c"
  by (cases "fc_last_message_ts c"; cases "fc_head c")
    (simp_all add: cursor_fits_def optional_field_def default_field_def)

lemma decode_encode_cursor:
  "cursor_fits c \<Longrightarrow> decode_cursor (Some (encode_cursor c)) = (if fc_version c < cursor_version then None else Some c)"
  by (simp add: decode_cursor_def parse_encode_cursor del: encode_cursor.simps)

lemma json_unsigned_bound: "json_unsigned w v = Some n \<Longrightarrow> n < 2 ^ w"
  by (auto simp: json_unsigned_def nat_less_iff split: json.splits if_splits)

lemma json_signed_bound: "json_signed 64 v = Some i \<Longrightarrow> in_i64 i"
  by (auto simp: json_signed_def in_i64_def split: json.splits if_splits)

lemma optional_field_Some: "optional_field read field = Some (Some x) \<Longrightarrow> \<exists>v. read v = Some x"
  by (auto simp: optional_field_def split: option.splits json.splits)

lemma default_field_Some: "default_field d read field = Some x \<Longrightarrow> x = d \<or> (\<exists>v. read v = Some x)"
  by (auto simp: default_field_def split: option.splits)

lemma parse_cursor_fits: "parse_cursor v = Some c \<Longrightarrow> cursor_fits c"
proof -
  assume "parse_cursor v = Some c"
  then obtain fields v1 v2 v3 where
    "json_unsigned 64 v1 = Some (fc_inode c)" "json_unsigned 64 v2 = Some (fc_offset c)"
    "default_field 0 (json_unsigned 32) v3 = Some (fc_version c)"
    "optional_field (json_signed 64) fields = Some (fc_last_message_ts c)"
    by (cases v) (auto simp: bind_eq_Some_conv)
  then show ?thesis
    by (cases "fc_last_message_ts c")
      (auto simp: cursor_fits_def dest: json_unsigned_bound json_signed_bound
        dest!: optional_field_Some default_field_Some)
qed

lemma decode_cursor_fits: "decode_cursor v = Some c \<Longrightarrow> cursor_fits c"
  by (auto simp: decode_cursor_def bind_eq_Some_conv dest: parse_cursor_fits split: option.splits if_splits)

definition transcript_fits :: "transcript \<Rightarrow> bool" where
  "transcript_fits f \<longleftrightarrow> fl_inode f < 2 ^ 64 \<and> length (fl_bytes f) < 2 ^ 64"

text \<open>A line's time is one the library parsed.\<close>

definition parsed_in_i64 :: "(string \<Rightarrow> int option) \<Rightarrow> bool" where
  "parsed_in_i64 parse_ts \<longleftrightarrow> (\<forall>s. pred_option in_i64 (parse_ts s))"

lemma line_timestamp_fits:
  "parsed_in_i64 parse_ts \<Longrightarrow> line_timestamp parse_ts line = Some ts \<Longrightarrow> in_i64 (millis ts)"
  by (auto simp: line_timestamp_def parsed_in_i64_def bind_eq_Some_conv option.pred_set)

lemma message_drafts_fits:
  "parsed_in_i64 parse_ts \<Longrightarrow> lo_message_ts (message_drafts parse_ts line rl ctx) = Some ts \<Longrightarrow> in_i64 (millis ts)"
  by (auto simp: message_drafts_def no_outcome_def Let_def dest: line_timestamp_fits
      split: if_splits option.splits)

lemma session_drafts_ts: "lo_message_ts (session_drafts parse_ts line field k ctx) = None"
  by (simp add: session_drafts_def no_outcome_def Let_def split: option.split)

lemma drafts_from_line_fits:
  "parsed_in_i64 parse_ts \<Longrightarrow> lo_message_ts (drafts_from_line parse_ts line ctx) = Some ts \<Longrightarrow> in_i64 (millis ts)"
  unfolding drafts_from_line_def Let_def
  by (simp add: no_outcome_def session_drafts_ts split: if_split_asm option.split_asm touches.split_asm)
    (erule message_drafts_fits, assumption)+

lemma read_line_fits:
  assumes "parsed_in_i64 (rd_parse_ts r)" "pred_option in_i64 ts" "read_line r ts line = (drafts, ts')"
  shows "pred_option in_i64 ts'"
  using assms by (auto simp: read_line_def Let_def dest: drafts_from_line_fits split: option.splits)

lemma read_loop_fits:
  assumes "parsed_in_i64 (rd_parse_ts r)" "pred_option in_i64 (sc_last_ts sc)"
  shows "pred_option in_i64 (sc_last_ts (read_loop r b start sc rest))"
  using assms
proof (induction r b start sc rest rule: read_loop.induct)
  case (1 r b start sc rest)
  define cap where "cap = line_cap (so_identity (rd_source r))"
  define limit where "limit = read_cap b cap (sc_offset sc - start)"
  define line where "line = read_until_newline limit rest"
  obtain n reached where
    sk: "skip_through_newline rest (rb_max_scan_bytes b - (sc_offset sc - start)) = (n, reached)" by fastforce
  obtain drafts ts where rl: "read_line r (sc_last_ts sc) line = (drafts, ts)" by fastforce
  from read_line_fits [OF "1.prems" rl] have ts: "pred_option in_i64 ts" .
  consider "\<not> within_budget b start sc" | (skip) "within_budget b start sc" "sc_skipping sc"
    | (partial) "within_budget b start sc" "\<not> sc_skipping sc" "\<not> ends_line line"
    | (full) "within_budget b start sc" "\<not> sc_skipping sc" "ends_line line" by blast
  then show ?case
  proof cases
    case 1
    then show ?thesis by (subst read_loop.simps) (simp add: "1.prems"(2))
  next
    case skip
    from skip "1.IH"(1) [OF _ skip(2) sk [symmetric] refl refl] "1.prems" show ?thesis
      by (subst read_loop.simps) (simp add: sk Let_def)
  next
    case partial
    from partial "1.IH"(2) [OF _ partial(2) cap_def limit_def line_def partial(3)] "1.prems" show ?thesis
      by (subst read_loop.simps) (simp add: Let_def flip: cap_def limit_def line_def)
  next
    case full
    from full "1.IH"(3) [OF _ full(2) cap_def limit_def line_def _ rl [symmetric] refl] "1.prems" ts show ?thesis
      by (subst read_loop.simps) (simp add: Let_def rl flip: cap_def limit_def line_def)
  qed
qed

lemma resume_fits:
  assumes "resume sha i f cur = Some c" "pred_option cursor_fits cur" "transcript_fits f"
  shows "cursor_fits c"
  using assms
  by (auto simp: resume_def fresh_cursor_def cursor_fits_def transcript_fits_def cursor_version_def
      split: file_identity.splits option.splits if_splits)

lemma increment_fits:
  assumes "read_increment lib now path src cur b (Inr f) = Inr (Some inc)"
    and "parsed_in_i64 (cl_parse_ts lib)" "transcript_fits f" "pred_option cursor_fits cur"
  shows "cursor_fits (in_cursor inc) \<and> fc_version (in_cursor inc) = cursor_version"
proof -
  from assms(1) obtain start where start: "resume (cl_sha lib) (so_identity src) f cur = Some start"
    by (auto simp: read_increment_def split: option.splits)
  from resume_fits [OF this assms(4,3)] have "pred_option in_i64 (fc_last_message_ts start)"
    by (simp add: cursor_fits_def)
  with assms(2) have "pred_option in_i64 (sc_last_ts (read_loop (reading_of lib path src m) b n (start_scan start) rest))"
    for m n rest by (intro read_loop_fits) (simp_all add: reading_of_def start_scan_def)
  with assms(1,3) start read_increment_Some [OF assms(1) refl]
  show ?thesis
    by (auto simp: read_increment_def Let_def cursor_fits_def transcript_fits_def cursor_version_def
        split: if_splits)
qed

text \<open>
  C31. A stored cursor is read back as it was written: whatever \<open>read_increment\<close> returns from a
  decoded cursor, encoding and decoding its cursor gives the same cursor again, so that a restarted
  daemon continues where the last committed increment ended; and so does the schedule of a pull.
\<close>

theorem cursor_roundtrip:
  assumes "read_increment lib now path src (decode_cursor stored) b (Inr f) = Inr (Some inc)"
    and "parsed_in_i64 (cl_parse_ts lib)" "transcript_fits f"
  shows "decode_cursor (Some (encode_cursor (in_cursor inc))) = Some (in_cursor inc) \<and>
         (in_i64 (millis at) \<longrightarrow> decode_schedule (Some (encode_schedule at)) = Some at)"
proof -
  have "pred_option cursor_fits (decode_cursor stored)"
    using decode_cursor_fits by (cases "decode_cursor stored") auto
  from increment_fits [OF assms(1,2,3) this] show ?thesis
    by (auto simp: decode_encode_cursor decode_schedule_def encode_schedule_def simp del: encode_cursor.simps)
qed

theorem cursor_roundtrip_witness:
  "\<exists>inc. sample_increment 1 = Inr (Some inc) \<and> fc_offset (in_cursor inc) = 3 \<and>
     decode_cursor (Some (encode_cursor (in_cursor inc))) = Some (in_cursor inc)"
proof -
  from sample_increment_keys obtain inc where inc: "sample_increment 1 = Inr (Some inc)" "fc_offset (in_cursor inc) = 3"
    by (auto split: sum.splits option.splits)
  have none: "decode_cursor None = None" by (simp add: decode_cursor_def)
  have "parsed_in_i64 (cl_parse_ts sample_lib)" "transcript_fits sample_transcript"
    by (simp_all add: parsed_in_i64_def sample_lib_def transcript_fits_def sample_transcript_def)
  from cursor_roundtrip [OF inc(1) [unfolded sample_increment_def none [symmetric]] this] inc
  show ?thesis by blast
qed

end
