(* ===== verification/Claude_Provider.thy ===== *)
theory Claude_Provider
  imports Pipeline Claude_Cursors Config "HOL-Library.List_Lexorder" "HOL-Library.Char_ord"
begin

text \<open>
  The Claude Code provider, \<open>src/src/providers/claude_code.rs\<close>: its state, the files it finds, reading
  and emitting one file until nothing is left of it, the pull commands of imports and one tick over
  roots and imports. Everything outside the provider is an \<open>outside\<close>: functions on a world \<open>'w\<close> that
  is read (the file system, the clock) or moved on (a cursor asked of the buffer, an emission sent and
  its receipt awaited, a command run).
\<close>

definition transcript_extension :: string where "transcript_extension = ''jsonl''"
definition import_profile :: string where "import_profile = ''claude''"
definition stderr_tail_bytes :: nat where "stderr_tail_bytes = 512"
definition pull_deadline :: nat where "pull_deadline = 10 * 60"

subsection \<open>The outside\<close>

text \<open>How sending and awaiting a receipt ends: the queue is closed, committed, or dropped.\<close>

datatype delivery = Gone | Committed | NotCommitted

text \<open>
  A pull command as seen from outside: it cannot start, it outlives the deadline, its status cannot
  be read, or it exits; with the chunks of its standard error.
\<close>

datatype child =
    CannotStart
  | TimesOut "string list"
  | WaitFails "string list"
  | Exits bool "string list"

record 'w outside =
  ow_lib :: claude_lib
  ow_render :: "json \<Rightarrow> string"                          \<comment> \<open>\<open>serde_json::to_string\<close>\<close>
  ow_repo_of :: "string \<Rightarrow> string option"
  ow_lossy :: "string \<Rightarrow> string"                         \<comment> \<open>\<open>from_utf8_lossy\<close>\<close>
  ow_now :: "'w \<Rightarrow> timestamp"
  ow_open :: "string \<Rightarrow> 'w \<Rightarrow> transcript io"
  ow_list :: "string \<Rightarrow> 'w \<Rightarrow> string io list io"         \<comment> \<open>the paths of a directory's entries\<close>
  ow_is_dir :: "string \<Rightarrow> 'w \<Rightarrow> bool"
  ow_is_file :: "string \<Rightarrow> 'w \<Rightarrow> bool"
  ow_cursor :: "string \<Rightarrow> 'w \<Rightarrow> string option io \<times> 'w"   \<comment> \<open>the stored cursor of a key\<close>
  ow_send :: "emission \<Rightarrow> 'w \<Rightarrow> delivery \<times> 'w"
  ow_spawn :: "string \<Rightarrow> string list \<Rightarrow> 'w \<Rightarrow> child \<times> 'w"
  ow_wait :: "nat \<Rightarrow> 'w \<Rightarrow> 'w"                          \<comment> \<open>until the next tick of the interval\<close>

datatype flow = Continue | RuntimeGone

record claude_state =
  cs_known :: "string \<rightharpoonup> file_cursor option"
  cs_unreadable :: "(bool \<times> string list) set"

definition claude_new :: claude_state where
  "claude_new = \<lparr>cs_known = Map.empty, cs_unreadable = {}\<rparr>"

definition mark_unreadable :: "string \<Rightarrow> claude_state \<Rightarrow> claude_state" where
  "mark_unreadable path st = st\<lparr>cs_unreadable := insert (dir_key path) (cs_unreadable st)\<rparr>"

definition mark_readable :: "string \<Rightarrow> claude_state \<Rightarrow> claude_state" where
  "mark_readable path st = st\<lparr>cs_unreadable := cs_unreadable st - {dir_key path}\<rparr>"

subsection \<open>Finding transcripts\<close>

text \<open>\<open>path.extension()\<close>: what follows the last dot of the file name, if something precedes it.\<close>

definition file_extension :: "string \<Rightarrow> string option" where
  "file_extension path =
     (case file_name path of
        None \<Rightarrow> None
      | Some name \<Rightarrow>
          (case rev (split_char CHR ''.'' name) of
             ext # before # others \<Rightarrow> if join ''.'' (rev (before # others)) = [] then None else Some ext
           | _ \<Rightarrow> None))"

definition is_transcript :: "'w outside \<Rightarrow> 'w \<Rightarrow> string \<Rightarrow> bool" where
  "is_transcript ow w path \<longleftrightarrow>
     file_extension path = Some transcript_extension \<and> ow_is_file ow path w"

text \<open>The transcripts of one project directory.\<close>

definition project_transcripts ::
  "'w outside \<Rightarrow> 'w \<Rightarrow> string io \<Rightarrow> claude_state \<Rightarrow> string list \<times> claude_state" where
  "project_transcripts ow w project st =
     (case project of
        Inl _ \<Rightarrow> ([], st)
      | Inr project \<Rightarrow>
          if \<not> ow_is_dir ow project w then ([], st)
          else case ow_list ow project w of
            Inl _ \<Rightarrow> ([], mark_unreadable project st)
          | Inr entries \<Rightarrow>
              (filter (is_transcript ow w) (List.map_filter (case_sum (\<lambda>_. None) Some) entries),
               mark_readable project st))"

fun projects_transcripts ::
  "'w outside \<Rightarrow> 'w \<Rightarrow> string io list \<Rightarrow> claude_state \<Rightarrow> string list \<times> claude_state" where
  "projects_transcripts ow w [] st = ([], st)"
| "projects_transcripts ow w (p # ps) st =
     (let (paths, st) = project_transcripts ow w p st; (rest, st) = projects_transcripts ow w ps st
      in (paths @ rest, st))"

text \<open>Paths are ordered by their components; below one directory all are absolute or none is.\<close>

definition transcripts ::
  "'w outside \<Rightarrow> 'w \<Rightarrow> string \<Rightarrow> claude_state \<Rightarrow> string list io \<times> claude_state" where
  "transcripts ow w projects st =
     (case ow_list ow projects w of
        Inl e \<Rightarrow> (Inl e, st)
      | Inr entries \<Rightarrow>
          let (paths, st) = projects_transcripts ow w entries st
          in (Inr (sort_key components paths), st))"

definition transcripts_in ::
  "'w outside \<Rightarrow> 'w \<Rightarrow> string \<Rightarrow> claude_state \<Rightarrow> string list option \<times> claude_state" where
  "transcripts_in ow w projects st =
     (case transcripts ow w projects st of
        (Inr paths, st) \<Rightarrow> (Some paths, mark_readable projects st)
      | (Inl _, st) \<Rightarrow> (None, mark_unreadable projects st))"

subsection \<open>One file\<close>

text \<open>\<open>struct Reading\<close>: how the files of a root or an import are read.\<close>

record visit =
  vi_profile :: string
  vi_identity :: file_identity
  vi_touches :: touches
  vi_since :: "timestamp option"
  vi_device :: "string option"

definition root_visit :: "string \<Rightarrow> visit" where
  "root_visit profile =
     \<lparr>vi_profile = profile, vi_identity = Inode, vi_touches = Collected, vi_since = None, vi_device = None\<rparr>"

definition import_visit :: "claude_import \<Rightarrow> visit" where
  "import_visit i =
     \<lparr>vi_profile = import_profile, vi_identity = Head, vi_touches = Skipped,
      vi_since = Some (ci_since i), vi_device = Some (ci_device i)\<rparr>"

definition source_of :: "'w outside \<Rightarrow> visit \<Rightarrow> source" where
  "source_of ow vi =
     \<lparr>so_profile = vi_profile vi, so_repo_of = ow_repo_of ow, so_identity = vi_identity vi,
      so_touches = vi_touches vi, so_since = vi_since vi\<rparr>"

definition decode_stored :: "'w outside \<Rightarrow> string option \<Rightarrow> file_cursor option" where
  "decode_stored ow stored =
     (case stored of None \<Rightarrow> None | Some val \<Rightarrow> decode_cursor (cl_parse_json (ow_lib ow) val))"

definition refused :: "string \<Rightarrow> string" where
  "refused e = ''the buffer refused a cursor: '' @ e"

definition cursor_for ::
  "'w outside \<Rightarrow> string \<Rightarrow> string option \<Rightarrow> claude_state \<Rightarrow> 'w \<Rightarrow>
     (string, file_cursor option) res \<times> claude_state \<times> 'w" where
  "cursor_for ow path device st w =
     (let k = cursor_key path device in
      case cs_known st k of
        Some cur \<Rightarrow> (Inr cur, st, w)
      | None \<Rightarrow>
          (case ow_cursor ow k w of
             (Inl e, w) \<Rightarrow> (Inl (refused e), st, w)
           | (Inr stored, w) \<Rightarrow>
               let cur = decode_stored ow stored
               in (Inr cur, st\<lparr>cs_known := (cs_known st)(k \<mapsto> cur)\<rparr>, w)))"

definition file_emission :: "'w outside \<Rightarrow> string \<Rightarrow> visit \<Rightarrow> increment \<Rightarrow> emission" where
  "file_emission ow path vi inc =
     (let em = awaiting_buffer (in_drafts inc)
                 (Some \<lparr>cur_provider = ClaudeCode, cur_key = cursor_key path (vi_device vi),
                        cur_value = ow_render ow (encode_cursor (in_cursor inc))\<rparr>)
      in case vi_device vi of Some device \<Rightarrow> for_device device em | None \<Rightarrow> em)"

partial_function (option) ship_loop ::
  "'w outside \<Rightarrow> string \<Rightarrow> visit \<Rightarrow> file_cursor option \<Rightarrow> claude_state \<Rightarrow> 'w \<Rightarrow>
     (flow \<times> claude_state \<times> 'w) option" where
  "ship_loop ow path vi cur st w =
     (case read_increment (ow_lib ow) (ow_now ow w) path (source_of ow vi) cur default_budget (ow_open ow path w) of
        Inl e \<Rightarrow> Some (Continue, mark_unreadable path st, w)
      | Inr read \<Rightarrow>
          (case read of
             None \<Rightarrow> Some (Continue, mark_readable path st, w)
           | Some inc \<Rightarrow>
               (case ow_send ow (file_emission ow path vi inc) w of
                  (delivered, w) \<Rightarrow>
                    if delivered = Gone then Some (RuntimeGone, mark_readable path st, w)
                    else if delivered = NotCommitted then Some (Continue, mark_readable path st, w)
                    else ship_loop ow path vi (Some (in_cursor inc))
                           ((mark_readable path st)\<lparr>cs_known :=
                              (cs_known st)(cursor_key path (vi_device vi) \<mapsto> Some (in_cursor inc))\<rparr>) w)))"

text \<open>The outcome of a step: an error, or whether to go on; not returning is \<open>None\<close>.\<close>

type_synonym 'w step = "((string, flow) res \<times> claude_state \<times> 'w) option"

definition ship_file :: "'w outside \<Rightarrow> visit \<Rightarrow> string \<Rightarrow> claude_state \<Rightarrow> 'w \<Rightarrow> 'w step" where
  "ship_file ow vi path st w =
     (case cursor_for ow path (vi_device vi) st w of
        (Inl e, st, w) \<Rightarrow> Some (Inl e, st, w)
      | (Inr cur, st, w) \<Rightarrow>
          map_option (\<lambda>(fl, st, w). (Inr fl, st, w)) (ship_loop ow path vi cur st w))"

subsection \<open>Pull commands\<close>

record pull_outcome =
  po_succeeded :: bool
  po_timed_out :: bool
  po_stderr_tail :: string

text \<open>\<open>read_tail\<close>: the last bytes of what is read until the end or a failing read.\<close>

definition push_tail :: "nat \<Rightarrow> string \<Rightarrow> string \<Rightarrow> string" where
  "push_tail limit tail chunk =
     (let tail = tail @ chunk
      in if length tail > limit then drop (length tail - limit) tail else tail)"

definition read_tail :: "string list \<Rightarrow> nat \<Rightarrow> string" where
  "read_tail chunks limit = foldl (push_tail limit) [] (takeWhile (\<lambda>c. c \<noteq> []) chunks)"

definition run_pull :: "(string \<Rightarrow> string) \<Rightarrow> child \<Rightarrow> pull_outcome option" where
  "run_pull lossy child =
     (let tail = (\<lambda>chunks. lossy (read_tail chunks stderr_tail_bytes)) in
      case child of
        CannotStart \<Rightarrow> None
      | TimesOut chunks \<Rightarrow>
          Some \<lparr>po_succeeded = False, po_timed_out = True, po_stderr_tail = tail chunks\<rparr>
      | WaitFails chunks \<Rightarrow> None
      | Exits ok chunks \<Rightarrow>
          Some \<lparr>po_succeeded = ok, po_timed_out = False, po_stderr_tail = tail chunks\<rparr>)"

definition schedule_emission :: "'w outside \<Rightarrow> string \<Rightarrow> timestamp \<Rightarrow> emission" where
  "schedule_emission ow device at =
     awaiting_buffer []
       (Some \<lparr>cur_provider = ClaudeCode, cur_key = pull_key device,
              cur_value = ow_render ow (encode_schedule at)\<rparr>)"

text \<open>
  An attempt is recorded whatever came of the command: its outcome is only logged, so \<open>run_pull\<close> does
  not decide what follows. The second component says whether the command was run.
\<close>

definition pull_if_due ::
  "'w outside \<Rightarrow> string \<Rightarrow> pull \<Rightarrow> 'w \<Rightarrow> (string, flow) res \<times> pull_outcome option option \<times> 'w" where
  "pull_if_due ow device p w =
     (case ow_cursor ow (pull_key device) w of
        (Inl e, w) \<Rightarrow> (Inl (refused e), None, w)
      | (Inr stored, w) \<Rightarrow>
          let last_attempt = (case stored of
                 Some val \<Rightarrow> decode_schedule (cl_parse_json (ow_lib ow) val) | None \<Rightarrow> None)
          in if \<not> pull_due last_attempt (ow_now ow w) (pl_every p) then (Inr Continue, None, w)
             else let (child, w) = ow_spawn ow (pl_program p) (pl_args p) w;
                      outcome = run_pull (ow_lossy ow) child;
                      (delivered, w) = ow_send ow (schedule_emission ow device (ow_now ow w)) w
                  in (Inr (if delivered = Gone then RuntimeGone else Continue), Some outcome, w))"

subsection \<open>One tick\<close>

text \<open>One step after the other, as long as there is no error and the runtime is there.\<close>

definition and_then :: "'w step \<Rightarrow> (claude_state \<Rightarrow> 'w \<Rightarrow> 'w step) \<Rightarrow> 'w step" where
  "and_then m k =
     (case m of
        None \<Rightarrow> None
      | Some (r, st, w) \<Rightarrow> if r = Inr Continue then k st w else Some (r, st, w))"

fun ship_files :: "'w outside \<Rightarrow> visit \<Rightarrow> string list \<Rightarrow> claude_state \<Rightarrow> 'w \<Rightarrow> 'w step" where
  "ship_files ow vi [] st w = Some (Inr Continue, st, w)"
| "ship_files ow vi (path # paths) st w =
     and_then (ship_file ow vi path st w) (\<lambda>st w. ship_files ow vi paths st w)"

definition ship_projects :: "'w outside \<Rightarrow> visit \<Rightarrow> string \<Rightarrow> claude_state \<Rightarrow> 'w \<Rightarrow> 'w step" where
  "ship_projects ow vi projects st w =
     (case transcripts_in ow w projects st of
        (None, st) \<Rightarrow> Some (Inr Continue, st, w)
      | (Some paths, st) \<Rightarrow> ship_files ow vi paths st w)"

fun tick_roots :: "'w outside \<Rightarrow> claude_root list \<Rightarrow> claude_state \<Rightarrow> 'w \<Rightarrow> 'w step" where
  "tick_roots ow [] st w = Some (Inr Continue, st, w)"
| "tick_roots ow (r # rs) st w =
     and_then (ship_projects ow (root_visit (cr_profile r)) (cr_projects r) st w) (tick_roots ow rs)"

definition tick_pull :: "'w outside \<Rightarrow> claude_import \<Rightarrow> claude_state \<Rightarrow> 'w \<Rightarrow> 'w step" where
  "tick_pull ow i st w =
     (case ci_pull i of
        None \<Rightarrow> Some (Inr Continue, st, w)
      | Some p \<Rightarrow> (case pull_if_due ow (ci_device i) p w of (r, _, w) \<Rightarrow> Some (r, st, w)))"

fun tick_imports :: "'w outside \<Rightarrow> claude_import list \<Rightarrow> claude_state \<Rightarrow> 'w \<Rightarrow> 'w step" where
  "tick_imports ow [] st w = Some (Inr Continue, st, w)"
| "tick_imports ow (i # is) st w =
     and_then (tick_pull ow i st w) (\<lambda>st w.
     and_then (ship_projects ow (import_visit i) (ci_projects i) st w) (tick_imports ow is))"

definition claude_tick ::
  "'w outside \<Rightarrow> claude_root list \<Rightarrow> claude_import list \<Rightarrow> claude_state \<Rightarrow> 'w \<Rightarrow> 'w step" where
  "claude_tick ow roots imps st w = and_then (tick_roots ow roots st w) (tick_imports ow imps)"

text \<open>\<open>run\<close>: a tick per interval, until the runtime is gone or a step fails.\<close>

partial_function (option) claude_run ::
  "'w outside \<Rightarrow> claude_code \<Rightarrow> claude_state \<Rightarrow> 'w \<Rightarrow> ((string, unit) res \<times> claude_state \<times> 'w) option" where
  "claude_run ow cc st w =
     Option.bind (claude_tick ow (cc_roots cc) (cc_imports cc) st (ow_wait ow (cc_poll_interval cc) w))
       (\<lambda>x. case fst x of
              Inl e \<Rightarrow> Some (Inl e, snd x)
            | Inr fl \<Rightarrow>
                if fl = RuntimeGone then Some (Inr (), snd x)
                else claude_run ow cc (fst (snd x)) (snd (snd x)))"

lemma read_tail_last: "\<exists>before. concat (takeWhile (\<lambda>c. c \<noteq> []) chunks) = before @ read_tail chunks n"
proof -
  have "\<exists>before. tail @ concat cs = before @ foldl (push_tail n) tail cs" for tail cs
  proof (induction cs arbitrary: tail)
    case (Cons c cs)
    have "tail @ c = take (length (tail @ c) - n) (tail @ c) @ push_tail n tail c"
      unfolding push_tail_def Let_def
      by (cases "n < length (tail @ c)") (simp_all only: append_take_drop_id if_True if_False, simp)
    then obtain front where front: "tail @ c = front @ push_tail n tail c" ..
    from Cons.IH [of "push_tail n tail c"] obtain before where
      "push_tail n tail c @ concat cs = before @ foldl (push_tail n) (push_tail n tail c) cs" by blast
    with front show ?case by (metis append.assoc concat.simps(2) foldl_Cons)
  qed simp
  from this [of "[]"] show ?thesis by (simp add: read_tail_def)
qed

end
