(* ===== verification/Claude_Increments.thy ===== *)
theory Claude_Increments
  imports Claude_Cursors
begin

text \<open>
  Increments of a file that only grows, as the provider strings them together: where reading resumes
  does not change while the file grows, the keys of what is still to be read do not depend on the
  file's time of modification, and an increment is empty only when nothing is left to be read.
\<close>

subsection \<open>Growth\<close>

definition grows_to :: "transcript \<Rightarrow> transcript \<Rightarrow> bool" where
  "grows_to f g \<longleftrightarrow> fl_inode g = fl_inode f \<and> (\<exists>grown. fl_bytes g = fl_bytes f @ grown)"

lemma grows_to_refl [simp]: "grows_to f f"
  by (simp add: grows_to_def)

lemma grows_to_trans: "grows_to f g \<Longrightarrow> grows_to g h \<Longrightarrow> grows_to f h"
  by (auto simp: grows_to_def)

lemma grows_to_length: "grows_to f g \<Longrightarrow> length (fl_bytes f) \<le> length (fl_bytes g)"
  by (auto simp: grows_to_def)

lemma read_until_complete:
  "ends_line (read_until_newline cap bs) \<or> length (read_until_newline cap bs) = cap \<Longrightarrow>
     read_until_newline cap (bs @ grown) = read_until_newline cap bs"
  using read_until_ends read_until_full by blast

lemma head_digest_grows:
  assumes "head_digest sha f = Some d" "grows_to f g"
  shows "head_digest sha g = Some d"
proof -
  from assms(2) obtain grown where g: "fl_bytes g = fl_bytes f @ grown" by (auto simp: grows_to_def)
  from assms(1) have "ends_line (read_until_newline head_hash_bytes (fl_bytes f)) \<or>
      length (read_until_newline head_hash_bytes (fl_bytes f)) = head_hash_bytes"
    using length_read_until_cap [of head_hash_bytes "fl_bytes f"]
    by (auto simp: head_digest_def Let_def split: if_splits)
  from read_until_complete [OF this, of grown] assms(1) show ?thesis
    by (simp add: head_digest_def g)
qed

text \<open>A cursor that the file has not shrunk below.\<close>

definition placed :: "transcript \<Rightarrow> file_cursor option \<Rightarrow> bool" where
  "placed f cur \<longleftrightarrow> pred_option (\<lambda>c. fc_offset c \<le> length (fl_bytes f)) cur"

lemma placed_grows: "placed f cur \<Longrightarrow> grows_to f g \<Longrightarrow> placed g cur"
  by (auto simp: placed_def option.pred_set dest: grows_to_length)

lemma resume_grows:
  assumes "resume sha i f cur = Some c" "grows_to f g" "placed f cur"
  shows "resume sha i g cur = Some c"
proof (cases i)
  case Inode
  with assms show ?thesis
    by (cases cur) (auto simp: resume_def placed_def grows_to_def split: if_splits)
next
  case Head
  then obtain d where d: "head_digest sha f = Some d" using assms(1) by (auto simp: resume_def split: option.splits)
  have "fl_inode g = fl_inode f" using assms(2) by (simp add: grows_to_def)
  with assms Head d head_digest_grows [OF d assms(2)] show ?thesis
    by (cases cur) (auto simp: resume_def placed_def dest: grows_to_length split: if_splits)
qed

text \<open>The cursor of an increment is where reading resumes next.\<close>

lemma resume_in_cursor:
  assumes inc: "read_increment lib now path src cur b (Inr f) = Inr (Some inc)"
  shows "resume (cl_sha lib) (so_identity src) f (Some (in_cursor inc)) = Some (in_cursor inc)"
proof -
  from read_increment_Some [OF inc refl] obtain start where
    start: "resume (cl_sha lib) (so_identity src) f cur = Some start"
      "fc_offset (in_cursor inc) \<le> length (fl_bytes f)"
      "fc_inode (in_cursor inc) = fl_inode f" "fc_head (in_cursor inc) = fc_head start"
    by blast
  show ?thesis
  proof (cases "so_identity src")
    case Inode
    with start show ?thesis by (simp add: resume_def)
  next
    case Head
    with start have "head_digest (cl_sha lib) f = fc_head start" "head_digest (cl_sha lib) f \<noteq> None"
      by (auto simp: resume_def fresh_cursor_def split: option.splits if_splits)
    with Head start show ?thesis by (cases "in_cursor inc") (auto simp: resume_def)
  qed
qed

subsection \<open>What is left when an increment is empty\<close>

lemma remaining_Nil: "remaining r ts skipping [] = []"
  by (subst remaining.simps) (simp add: ends_line_def line_cap_pos Let_def)

lemma skip_progress: "rest \<noteq> [] \<Longrightarrow> 0 < limit \<Longrightarrow> 0 < fst (skip_through_newline rest limit)"
  by (cases rest) (auto split: prod.split)

definition budget_ok :: "read_budget \<Rightarrow> bool" where
  "budget_ok b \<longleftrightarrow> 0 < rb_max_records b \<and> 0 < rb_max_bytes b \<and> 0 < rb_max_scan_bytes b"

lemma read_loop_offset: "sc_offset sc \<le> sc_offset (read_loop r b start sc rest)"
  using read_loop_advances [of r sc rest b start] by (auto simp: advances_def)

lemma read_loop_stuck:
  assumes "budget_ok b" "sc_drafts sc = []" "sc_text_bytes sc = 0" "sc_offset sc = start"
    and "sc_offset (read_loop r b start sc rest) = start"
  shows "remaining r (sc_last_ts sc) (sc_skipping sc) rest = []"
proof (cases "rest = []")
  case True
  then show ?thesis by (simp add: remaining_Nil)
next
  case rest: False
  have within: "within_budget b start sc" using assms by (simp add: within_budget_def budget_ok_def)
  define cap where "cap = line_cap (so_identity (rd_source r))"
  define line where "line = read_until_newline cap rest"
  have cap: "read_cap b cap (sc_offset sc - start) = cap" by (simp add: read_cap_def assms(4))
  show ?thesis
  proof (cases "sc_skipping sc")
    case True
    obtain n reached where sk: "skip_through_newline rest (rb_max_scan_bytes b) = (n, reached)" by fastforce
    with skip_progress [OF rest, of "rb_max_scan_bytes b"] assms(1) have "0 < n" by (simp add: budget_ok_def)
    then have "start < sc_offset (read_loop r b start sc rest)"
      using read_loop_offset [of "sc\<lparr>sc_offset := sc_offset sc + n, sc_skipping := False\<rparr>" r b start "drop n rest"]
        assms(4) within True sk
      by (subst read_loop.simps) (auto simp: Let_def)
    with assms(5) show ?thesis by simp
  next
    case skip: False
    show ?thesis
    proof (cases "ends_line line")
      case True
      obtain drafts ts where rl: "read_line r (sc_last_ts sc) line = (drafts, ts)" by fastforce
      define used where "used = length line"
      have "0 < used" using True by (auto simp: ends_line_def used_def)
      with True have "start < sc_offset (read_loop r b start sc rest)"
        using read_loop_offset [of "sc\<lparr>sc_offset := sc_offset sc + used, sc_last_ts := ts,
            sc_drafts := sc_drafts sc @ drafts,
            sc_text_bytes := sc_text_bytes sc + sum_list (map text_length drafts)\<rparr>" r b start "drop used rest"]
          assms(4) within skip rl cap
        by (subst read_loop.simps) (simp add: Let_def flip: cap_def line_def used_def)
      with assms(5) show ?thesis by simp
    next
      case partial: False
      show ?thesis
      proof (cases "length line < cap")
        case True
        with partial skip show ?thesis
          by (subst remaining.simps) (simp add: Let_def flip: cap_def line_def)
      next
        case False
        define used where "used = length line"
        have "0 < used" using False line_cap_pos [of "so_identity (rd_source r)"] by (auto simp: cap_def used_def)
        with False partial have "start < sc_offset (read_loop r b start sc rest)"
          using read_loop_offset [of "sc\<lparr>sc_offset := sc_offset sc + used, sc_skipping := True\<rparr>"
              r b start "drop used rest"] assms(4) within skip cap
          by (subst read_loop.simps) (simp add: Let_def flip: cap_def line_def used_def)
        with assms(5) show ?thesis by simp
      qed
    qed
  qed
qed

lemma read_increment_None:
  assumes "read_increment lib now path src cur b (Inr f) = Inr None" "budget_ok b"
    and "resume (cl_sha lib) (so_identity src) f cur = Some start"
  shows "still_to_read (reading_of lib path src (modified_millis now (fl_modified f))) start (fl_bytes f) = []"
  using assms read_loop_stuck [OF assms(2), of "start_scan start" "fc_offset start"
      "reading_of lib path src (modified_millis now (fl_modified f))" "drop (fc_offset start) (fl_bytes f)"]
  by (auto simp: read_increment_def Let_def still_to_read_def start_scan_def remaining_Nil split: if_splits)

subsection \<open>Keys\<close>

text \<open>
  Two readings of one file that differ in the file's time of modification only. The time is what the
  records of an untimed session line are dated with; an import's \<open>since\<close> looks at it, so there the
  time must be the same.
\<close>

definition alike :: "reading \<Rightarrow> reading \<Rightarrow> bool" where
  "alike r r' \<longleftrightarrow>
     r' = r\<lparr>rd_file_modified := rd_file_modified r'\<rparr> \<and>
     (so_since (rd_source r) = None \<or> rd_file_modified r' = rd_file_modified r)"

definition keys_left :: "reading \<Rightarrow> file_cursor \<Rightarrow> string \<Rightarrow> key_source list" where
  "keys_left r c bytes = map dr_key (still_to_read r c bytes)"

lemma alike_refl [simp]: "alike r r"
  by (simp add: alike_def)

lemma session_keys:
  "map dr_key (lo_drafts (session_drafts parse_ts line field k (ctx\<lparr>lc_file_modified := m\<rparr>))) =
   map dr_key (lo_drafts (session_drafts parse_ts line field k ctx))"
  by (simp add: session_drafts_def no_outcome_def session_id_of_def Let_def split: option.split)

lemma drafts_keys:
  "map dr_key (lo_drafts (drafts_from_line parse_ts line (ctx\<lparr>lc_file_modified := m\<rparr>))) =
   map dr_key (lo_drafts (drafts_from_line parse_ts line ctx))"
  "lo_message_ts (drafts_from_line parse_ts line (ctx\<lparr>lc_file_modified := m\<rparr>)) =
   lo_message_ts (drafts_from_line parse_ts line ctx)"
proof -
  have sid: "session_id_of line (ctx\<lparr>lc_file_modified := m\<rparr>) = session_id_of line ctx"
    by (simp add: session_id_of_def split: option.split)
  have draft: "message_draft line rl (ctx\<lparr>lc_file_modified := m\<rparr>) = message_draft line rl ctx" for rl
    by (intro ext) (simp add: message_draft_def sid)
  have msg: "message_drafts parse_ts line rl (ctx\<lparr>lc_file_modified := m\<rparr>) = message_drafts parse_ts line rl ctx" for rl
    unfolding message_drafts_def draft ..
  have tch: "touch_drafts parse_ts line (ctx\<lparr>lc_file_modified := m\<rparr>) = touch_drafts parse_ts line ctx"
  proof -
    have "lc_repo_of (ctx\<lparr>lc_file_modified := m\<rparr>) = lc_repo_of ctx" by simp
    then show ?thesis unfolding touch_drafts_def sid by metis
  qed
  show "map dr_key (lo_drafts (drafts_from_line parse_ts line (ctx\<lparr>lc_file_modified := m\<rparr>))) =
      map dr_key (lo_drafts (drafts_from_line parse_ts line ctx))"
    unfolding drafts_from_line_def Let_def msg tch by (simp add: session_keys split: option.split touches.split)
  show "lo_message_ts (drafts_from_line parse_ts line (ctx\<lparr>lc_file_modified := m\<rparr>)) =
      lo_message_ts (drafts_from_line parse_ts line ctx)"
    unfolding drafts_from_line_def Let_def msg tch
    by (simp add: session_drafts_ts split: option.split touches.split)
qed

lemma context_modified:
  "context_of (r\<lparr>rd_file_modified := m\<rparr>) ts = (context_of r ts)\<lparr>lc_file_modified := m\<rparr>"
  by (simp add: context_of_def)

lemma read_line_alike:
  assumes "alike r r'"
  shows "map dr_key (fst (read_line r' ts line)) = map dr_key (fst (read_line r ts line)) \<and>
     snd (read_line r' ts line) = snd (read_line r ts line)"
proof (cases "so_since (rd_source r) = None")
  case True
  obtain m where r': "r' = r\<lparr>rd_file_modified := m\<rparr>" using assms by (auto simp: alike_def)
  have "wanted None = (\<lambda>d. True)" by (simp add: wanted_def fun_eq_iff)
  with True show ?thesis
    by (simp add: read_line_def r' context_modified drafts_keys Let_def split: option.split)
next
  case False
  with assms have "r' = r" by (auto simp: alike_def)
  then show ?thesis by simp
qed

lemma remaining_alike:
  assumes "alike r r'"
  shows "map dr_key (remaining r' ts skipping rest) = map dr_key (remaining r ts skipping rest)"
  using assms
proof (induction r ts skipping rest rule: remaining.induct)
  case (1 r ts skipping rest)
  have src: "rd_source r' = rd_source r" using "1.prems" by (metis alike_def reading.simps(3) reading.surjective reading.update_convs(5))
  show ?case
  proof (cases skipping)
    case True
    obtain n reached where sk: "skip_through_newline rest (length rest) = (n, reached)" by fastforce
    with True "1.IH"(1) [OF True sk [symmetric] _ "1.prems"] show ?thesis
      by (subst (1 2) remaining.simps) simp
  next
    case skip: False
    define cap where "cap = line_cap (so_identity (rd_source r))"
    define line where "line = read_until_newline cap rest"
    obtain drafts ts1 where rl: "read_line r ts line = (drafts, ts1)" by fastforce
    then obtain drafts' where rl': "read_line r' ts line = (drafts', ts1)" "map dr_key drafts' = map dr_key drafts"
      using read_line_alike [OF "1.prems", of ts line] by (metis fst_conv prod.collapse snd_conv)
    from "1.IH"(2) [OF skip cap_def line_def _ _ "1.prems"] "1.IH"(3) [OF skip cap_def line_def _ rl [symmetric] "1.prems"]
      skip rl rl' show ?thesis
      by (subst (1 2) remaining.simps) (simp add: Let_def src flip: cap_def line_def)
  qed
qed

lemma keys_left_alike: "alike r r' \<Longrightarrow> keys_left r' c bytes = keys_left r c bytes"
  by (simp add: keys_left_def still_to_read_def remaining_alike)

end
