(* ===== verification/Claude_Delivery.thy ===== *)
theory Claude_Delivery
  imports Claude_Provider Claude_Increments
begin

text \<open>
  Exactly once, from the provider's side. The locale \<open>runtime\<close> is what the provider needs of the
  outside: a commit stores an emission's records and cursor together, anything else stores neither, a
  stored cursor is read back, files only grow. Inside it, visiting a file is shown to emit exactly the
  keys that were left to be read, also across failures and restarts, and to end with nothing left. The
  pipeline of the daemon is an instance.
\<close>

subsection \<open>The contract\<close>

definition with_stored :: "cursor option \<Rightarrow> (string \<Rightarrow> string option) \<Rightarrow> string \<Rightarrow> string option" where
  "with_stored c m =
     (case c of
        None \<Rightarrow> m
      | Some c \<Rightarrow> if cur_provider c = ClaudeCode then m(cur_key c := Some (cur_value c)) else m)"

locale runtime =
  fixes ow :: "'w outside"
    and inv :: "'w \<Rightarrow> bool"
    and stored :: "'w \<Rightarrow> string \<Rightarrow> string option"
    and taken :: "'w \<Rightarrow> emission list"
    and content :: "string \<Rightarrow> 'w \<Rightarrow> transcript"
  assumes open_law: "inv w \<Longrightarrow> ow_open ow path w = Inr f \<Longrightarrow> f = content path w"
    and send_law: "inv w \<Longrightarrow> em_committed em \<Longrightarrow> ow_send ow em w = (d, w') \<Longrightarrow>
      inv w' \<and> grows_to (content path w) (content path w') \<and>
      taken w' = (if d = Committed then taken w @ [em] else taken w) \<and>
      stored w' = (if d = Committed then with_stored (em_cursor em) (stored w) else stored w)"
    and cursor_law: "inv w \<Longrightarrow> ow_cursor ow k w = (r, w') \<Longrightarrow>
      inv w' \<and> grows_to (content path w) (content path w') \<and> taken w' = taken w \<and> stored w' = stored w \<and>
      (case r of Inl _ \<Rightarrow> True | Inr v \<Rightarrow> v = stored w k)"

text \<open>What the provider remembers of a cursor is what is stored.\<close>

definition in_sync :: "'w outside \<Rightarrow> (string \<Rightarrow> string option) \<Rightarrow> claude_state \<Rightarrow> bool" where
  "in_sync ow m st \<longleftrightarrow> (\<forall>k c. cs_known st k = Some c \<longrightarrow> c = decode_stored ow (m k))"

text \<open>\<open>serde_json\<close> reads what it wrote.\<close>

definition reads_back :: "'w outside \<Rightarrow> bool" where
  "reads_back ow \<longleftrightarrow>
     (\<forall>c. cursor_fits c \<longrightarrow> cl_parse_json (ow_lib ow) (ow_render ow (encode_cursor c)) = Some (encode_cursor c))"

definition stored_cursor :: "'w outside \<Rightarrow> string \<Rightarrow> visit \<Rightarrow> (string \<Rightarrow> string option) \<Rightarrow> file_cursor option" where
  "stored_cursor ow path vi m = decode_stored ow (m (cursor_key path (vi_device vi)))"

text \<open>The keys of the records a file still holds for a stored cursor.\<close>

definition left_from :: "'w outside \<Rightarrow> string \<Rightarrow> visit \<Rightarrow> timestamp \<Rightarrow> file_cursor option \<Rightarrow> transcript \<Rightarrow> key_source list" where
  "left_from ow path vi m cur f =
     (case resume (cl_sha (ow_lib ow)) (vi_identity vi) f cur of
        None \<Rightarrow> []
      | Some c \<Rightarrow> keys_left (reading_of (ow_lib ow) path (source_of ow vi) m) c (fl_bytes f))"

definition emitted_keys :: "emission list \<Rightarrow> key_source list" where
  "emitted_keys ems = concat (map (\<lambda>em. map dr_key (em_records em)) ems)"

lemma emitted_keys_simps [simp]:
  "emitted_keys [] = []"
  "emitted_keys (em # ems) = map dr_key (em_records em) @ emitted_keys ems"
  by (simp_all add: emitted_keys_def)

lemma file_emission_sel [simp]:
  "em_committed (file_emission ow path vi inc)"
  "em_records (file_emission ow path vi inc) = in_drafts inc"
  "em_device (file_emission ow path vi inc) = vi_device vi"
  "em_cursor (file_emission ow path vi inc) =
     Some \<lparr>cur_provider = ClaudeCode, cur_key = cursor_key path (vi_device vi),
           cur_value = ow_render ow (encode_cursor (in_cursor inc))\<rparr>"
  by (simp_all add: file_emission_def awaiting_buffer_def for_device_def Let_def split: option.split)

lemma source_of_sel [simp]:
  "so_identity (source_of ow vi) = vi_identity vi" "so_since (source_of ow vi) = vi_since vi"
  by (simp_all add: source_of_def)

text \<open>One increment, seen from a later state of the file.\<close>

lemma left_from_increment:
  assumes inc: "read_increment (ow_lib ow) now path (source_of ow vi) cur b (Inr f) = Inr (Some inc)"
    and grown: "grows_to f g" and placed: "placed f cur"
    and m: "vi_since vi = None \<or> modified_millis now (fl_modified f) = m"
  shows "left_from ow path vi m cur g =
     map dr_key (in_drafts inc) @ left_from ow path vi m (Some (in_cursor inc)) g"
proof -
  let ?r1 = "reading_of (ow_lib ow) path (source_of ow vi) (modified_millis now (fl_modified f))"
  let ?r = "reading_of (ow_lib ow) path (source_of ow vi) m"
  from read_increment_Some [OF inc refl] obtain start where
    start: "resume (cl_sha (ow_lib ow)) (vi_identity vi) f cur = Some start" and
    off: "fc_offset (in_cursor inc) \<le> length (fl_bytes f)" and
    split: "\<And>grown. still_to_read ?r1 start (fl_bytes f @ grown) =
        in_drafts inc @ still_to_read ?r1 (in_cursor inc) (fl_bytes f @ grown)"
    by auto
  have alike: "alike ?r ?r1" using m by (auto simp: alike_def reading_of_def)
  obtain grown where g: "fl_bytes g = fl_bytes f @ grown" using grown by (auto simp: grows_to_def)
  have "keys_left ?r start (fl_bytes g) = map dr_key (in_drafts inc) @ keys_left ?r (in_cursor inc) (fl_bytes g)"
    using split [of grown] keys_left_alike [OF alike]
    by (metis g keys_left_def map_append)
  moreover have "resume (cl_sha (ow_lib ow)) (vi_identity vi) g cur = Some start"
    using resume_grows [OF start grown placed] .
  moreover have "resume (cl_sha (ow_lib ow)) (vi_identity vi) g (Some (in_cursor inc)) = Some (in_cursor inc)"
    using resume_grows [OF _ grown] resume_in_cursor [OF inc] off by (simp add: placed_def)
  ultimately show ?thesis by (simp add: left_from_def)
qed

subsection \<open>Visiting a file\<close>

text \<open>
  What a visit from \<open>w\<close> to \<open>w'\<close> has achieved: at any later state \<open>g\<close> of the file, the keys emitted
  followed by those left are those that were left before, and only this file's cursor has moved.
\<close>

definition visited ::
  "'w outside \<Rightarrow> ('w \<Rightarrow> string \<Rightarrow> string option) \<Rightarrow> ('w \<Rightarrow> emission list) \<Rightarrow> (string \<Rightarrow> 'w \<Rightarrow> transcript) \<Rightarrow>
     string \<Rightarrow> visit \<Rightarrow> timestamp \<Rightarrow> 'w \<Rightarrow> 'w \<Rightarrow> bool" where
  "visited ow stored taken content path vi m w w' \<longleftrightarrow>
     (\<exists>new. taken w' = taken w @ new \<and> list_all (\<lambda>em. em_device em = vi_device vi) new \<and>
        (\<forall>g. grows_to (content path w') g \<longrightarrow>
           left_from ow path vi m (stored_cursor ow path vi (stored w)) g =
             emitted_keys new @ left_from ow path vi m (stored_cursor ow path vi (stored w')) g)) \<and>
     (\<forall>k. k \<noteq> cursor_key path (vi_device vi) \<longrightarrow> stored w' k = stored w k)"

text \<open>Any number of visits to a file, some of them after the daemon was restarted.\<close>

fun visits ::
  "'w outside \<Rightarrow> visit \<Rightarrow> string \<Rightarrow> bool list \<Rightarrow> claude_state \<Rightarrow> 'w \<Rightarrow> (claude_state \<times> 'w) option" where
  "visits ow vi path [] st w = Some (st, w)"
| "visits ow vi path (restart # restarts) st w =
     (case ship_file ow vi path (if restart then claude_new else st) w of
        None \<Rightarrow> None
      | Some (r, st, w) \<Rightarrow> visits ow vi path restarts st w)"

context runtime
begin

definition dated :: "string \<Rightarrow> visit \<Rightarrow> timestamp \<Rightarrow> bool" where
  "dated path vi m \<longleftrightarrow>
     vi_since vi = None \<or> (\<forall>w. inv w \<longrightarrow> modified_millis (ow_now ow w) (fl_modified (content path w)) = m)"

definition ready :: "string \<Rightarrow> visit \<Rightarrow> claude_state \<Rightarrow> 'w \<Rightarrow> bool" where
  "ready path vi st w \<longleftrightarrow>
     inv w \<and> in_sync ow (stored w) st \<and> placed (content path w) (stored_cursor ow path vi (stored w))"

lemma in_sync_marks [simp]:
  "in_sync ow m (mark_readable path st) = in_sync ow m st"
  "in_sync ow m (mark_unreadable path st) = in_sync ow m st"
  by (simp_all add: in_sync_def mark_readable_def mark_unreadable_def)

lemma visited_same:
  assumes "stored w' = stored w" "taken w' = taken w"
  shows "visited ow stored taken content path vi m w w'"
  using assms by (simp add: visited_def)

lemma ready_later:
  assumes "ready path vi st w" "inv w'" "stored w' = stored w" "grows_to (content path w) (content path w')"
  shows "ready path vi st w'"
  using assms placed_grows by (auto simp: ready_def)

lemma committed_step:
  assumes ready: "ready path vi st w"
    and json: "reads_back ow" "parsed_in_i64 (cl_parse_ts (ow_lib ow))"
    and fits: "transcript_fits (content path w)"
    and inc: "read_increment (ow_lib ow) (ow_now ow w) path (source_of ow vi)
        (stored_cursor ow path vi (stored w)) default_budget (Inr (content path w)) = Inr (Some inc)"
    and send: "ow_send ow (file_emission ow path vi inc) w = (Committed, w1)"
  shows "stored_cursor ow path vi (stored w1) = Some (in_cursor inc) \<and>
     ready path vi ((mark_readable path st)\<lparr>cs_known :=
       (cs_known st)(cursor_key path (vi_device vi) \<mapsto> Some (in_cursor inc))\<rparr>) w1"
proof -
  let ?k = "cursor_key path (vi_device vi)"
  from send_law [OF _ file_emission_sel(1) send, of path] ready have
    w1: "inv w1" "grows_to (content path w) (content path w1)"
      "stored w1 = (stored w)(?k := Some (ow_render ow (encode_cursor (in_cursor inc))))"
    by (auto simp: ready_def with_stored_def)
  have "pred_option cursor_fits (stored_cursor ow path vi (stored w))"
    using decode_cursor_fits by (auto simp: stored_cursor_def decode_stored_def option.pred_set split: option.splits)
  from increment_fits [OF inc json(2) fits this] have
    fit: "cursor_fits (in_cursor inc)" "fc_version (in_cursor inc) = cursor_version" by auto
  have dec: "decode_stored ow (Some (ow_render ow (encode_cursor (in_cursor inc)))) = Some (in_cursor inc)"
    using json(1) fit by (simp add: decode_stored_def reads_back_def decode_encode_cursor del: encode_cursor.simps)
  then have cur: "stored_cursor ow path vi (stored w1) = Some (in_cursor inc)"
    by (simp add: stored_cursor_def w1(3))
  have "fc_offset (in_cursor inc) \<le> length (fl_bytes (content path w))"
    using read_increment_Some [OF inc refl] by auto
  with w1(2) have "placed (content path w1) (Some (in_cursor inc))"
    by (auto simp: placed_def dest: grows_to_length)
  moreover have "in_sync ow (stored w1) ((mark_readable path st)\<lparr>cs_known := (cs_known st)(?k \<mapsto> Some (in_cursor inc))\<rparr>)"
    using ready dec by (auto simp: in_sync_def ready_def w1(3))
  ultimately show ?thesis using cur w1(1) by (simp add: ready_def)
qed

lemma visited_trans:
  assumes "visited ow stored taken content path vi m w w1" "visited ow stored taken content path vi m w1 w'"
    and grown: "grows_to (content path w1) (content path w')"
  shows "visited ow stored taken content path vi m w w'"
proof -
  let ?left = "\<lambda>w g. left_from ow path vi m (stored_cursor ow path vi (stored w)) g"
  from assms(1) obtain new1 where 1: "taken w1 = taken w @ new1" "list_all (\<lambda>em. em_device em = vi_device vi) new1"
      "\<And>g. grows_to (content path w1) g \<Longrightarrow> ?left w g = emitted_keys new1 @ ?left w1 g"
    unfolding visited_def by blast
  from assms(2) obtain new2 where 2: "taken w' = taken w1 @ new2" "list_all (\<lambda>em. em_device em = vi_device vi) new2"
      "\<And>g. grows_to (content path w') g \<Longrightarrow> ?left w1 g = emitted_keys new2 @ ?left w' g"
    unfolding visited_def by blast
  have "?left w g = emitted_keys (new1 @ new2) @ ?left w' g" if "grows_to (content path w') g" for g
    using 1(3) [OF grows_to_trans [OF grown that]] 2(3) [OF that] by (simp add: emitted_keys_def)
  moreover have "\<forall>k. k \<noteq> cursor_key path (vi_device vi) \<longrightarrow> stored w' k = stored w k"
    using assms(1,2) by (simp add: visited_def)
  ultimately show ?thesis
    unfolding visited_def using 1(1,2) 2(1,2) by (intro conjI exI [of _ "new1 @ new2"]) auto
qed

lemma visited_step:
  assumes inc: "read_increment (ow_lib ow) (ow_now ow w) path (source_of ow vi)
        (stored_cursor ow path vi (stored w)) default_budget (Inr (content path w)) = Inr (Some inc)"
    and send: "ow_send ow (file_emission ow path vi inc) w = (Committed, w1)"
    and ready: "ready path vi st w" and dated: "dated path vi m"
    and cur: "stored_cursor ow path vi (stored w1) = Some (in_cursor inc)"
  shows "visited ow stored taken content path vi m w w1"
proof -
  from send_law [OF _ file_emission_sel(1) send, of path] ready have
    w1: "inv w1" "grows_to (content path w) (content path w1)" "taken w1 = taken w @ [file_emission ow path vi inc]"
      "stored w1 = with_stored (em_cursor (file_emission ow path vi inc)) (stored w)"
    by (auto simp: ready_def)
  have "left_from ow path vi m (stored_cursor ow path vi (stored w)) g =
      map dr_key (in_drafts inc) @ left_from ow path vi m (Some (in_cursor inc)) g"
    if "grows_to (content path w1) g" for g
    using dated ready grows_to_trans [OF w1(2) that]
    by (intro left_from_increment [OF inc]) (auto simp: dated_def ready_def)
  then show ?thesis
    unfolding visited_def using w1(3,4) cur
    by (intro conjI exI [of _ "[file_emission ow path vi inc]"]) (simp_all add: with_stored_def)
qed

lemma ship_loop_once:
  assumes json: "reads_back ow" "parsed_in_i64 (cl_parse_ts (ow_lib ow))"
    and fits: "\<And>w. inv w \<Longrightarrow> transcript_fits (content path w)" and dated: "dated path vi m"
    and run: "ship_loop ow path vi cur st w = Some (fl, st', w')"
    and start: "ready path vi st w" "cur = stored_cursor ow path vi (stored w)"
  shows "visited ow stored taken content path vi m w w' \<and> ready path vi st' w' \<and>
     grows_to (content path w) (content path w')"
proof -
  let ?P = "\<lambda>ow' path' vi' cur st w (fl, st', w'). ow' = ow \<longrightarrow> path' = path \<longrightarrow> vi' = vi \<longrightarrow>
     ready path vi st w \<longrightarrow> cur = stored_cursor ow path vi (stored w) \<longrightarrow>
     visited ow stored taken content path vi m w w' \<and> ready path vi st' w' \<and>
     grows_to (content path w) (content path w')"
  have "?P ow path vi cur st w (fl, st', w')"
  proof (rule ship_loop.raw_induct [where P = ?P, OF _ run])
    fix loop ow' path' vi' cur st w y
    assume IH: "\<And>path vi cur st w b y. loop path vi cur st w b = Some y \<Longrightarrow> ?P path vi cur st w b y"
      and body: "(case read_increment (ow_lib ow') (ow_now ow' w) path' (source_of ow' vi') cur default_budget
          (ow_open ow' path' w) of
        Inl e \<Rightarrow> Some (Continue, mark_unreadable path' st, w)
      | Inr None \<Rightarrow> Some (Continue, mark_readable path' st, w)
      | Inr (Some inc) \<Rightarrow>
          case ow_send ow' (file_emission ow' path' vi' inc) w of
          (delivered, w) \<Rightarrow>
            if delivered = Gone then Some (RuntimeGone, mark_readable path' st, w)
            else if delivered = NotCommitted then Some (Continue, mark_readable path' st, w)
            else loop ow' path' vi' (Some (in_cursor inc))
                   ((mark_readable path' st)\<lparr>cs_known := (cs_known st)(cursor_key path' (vi_device vi') \<mapsto>
                      Some (in_cursor inc))\<rparr>) w) = Some y"
    obtain fl st' w' where y: "y = (fl, st', w')" by (cases y)
    show "?P ow' path' vi' cur st w y"
      unfolding y prod.case
    proof (intro impI)
      assume eq: "ow' = ow" "path' = path" "vi' = vi" and ready: "ready path vi st w"
        and cur: "cur = stored_cursor ow path vi (stored w)"
      let ?done = "visited ow stored taken content path vi m w w' \<and> ready path vi st' w' \<and>
         grows_to (content path w) (content path w')"
      have inv: "inv w" using ready by (simp add: ready_def)
      have stop: ?done if "st' = mark_readable path st \<or> st' = mark_unreadable path st" "inv w'"
        "stored w' = stored w" "taken w' = taken w" "grows_to (content path w) (content path w')"
        using that ready_later [OF ready that(2,3,5)] visited_same [of w' w]
        by (auto simp: ready_def)
      show ?done
      proof (cases "read_increment (ow_lib ow) (ow_now ow w) path (source_of ow vi) cur default_budget (ow_open ow path w)")
        case (Inl e)
        with body eq y inv show ?thesis by (intro stop) auto
      next
        case (Inr read)
        show ?thesis
        proof (cases read)
          case None
          with Inr body eq y inv show ?thesis by (intro stop) auto
        next
          case (Some inc)
          with Inr obtain f where f: "ow_open ow path w = Inr f" by (auto simp: read_increment_def split: sum.splits)
          with open_law [OF inv] Inr Some cur have
            inc: "read_increment (ow_lib ow) (ow_now ow w) path (source_of ow vi)
              (stored_cursor ow path vi (stored w)) default_budget (Inr (content path w)) = Inr (Some inc)"
            by simp
          obtain d w1 where send: "ow_send ow (file_emission ow path vi inc) w = (d, w1)" by fastforce
          note law = send_law [OF inv file_emission_sel(1) send, of path]
          show ?thesis
          proof (cases "d = Committed")
            case False
            then have "d = Gone \<or> d = NotCommitted" by (cases d) auto
            with Inr Some body eq y send law show ?thesis
              by (intro stop) auto
          next
            case True
            from committed_step [OF ready json fits [OF inv] inc send [unfolded True]]
            have c: "stored_cursor ow path vi (stored w1) = Some (in_cursor inc)"
              and rd: "ready path vi ((mark_readable path st)\<lparr>cs_known :=
                (cs_known st)(cursor_key path (vi_device vi) \<mapsto> Some (in_cursor inc))\<rparr>) w1"
              by auto
            from body eq y Inr Some send True have
              "loop ow path vi (Some (in_cursor inc)) ((mark_readable path st)\<lparr>cs_known :=
                (cs_known st)(cursor_key path (vi_device vi) \<mapsto> Some (in_cursor inc))\<rparr>) w1 = Some (fl, st', w')"
              by simp
            from IH [OF this] c rd have
              "visited ow stored taken content path vi m w1 w'" "ready path vi st' w'"
              "grows_to (content path w1) (content path w')" by simp_all
            with visited_trans [OF visited_step [OF inc send [unfolded True] ready dated c]] law grows_to_trans
            show ?thesis by blast
          qed
        qed
      qed
    qed
  qed
  with start show ?thesis by simp
qed

lemma cursor_for_ready:
  assumes ready: "ready path vi st w" and cf: "cursor_for ow path (vi_device vi) st w = (res, st1, w1)"
  shows "ready path vi st1 w1 \<and> stored w1 = stored w \<and> taken w1 = taken w \<and>
     grows_to (content path w) (content path w1) \<and>
     (case res of Inl _ \<Rightarrow> True | Inr cur \<Rightarrow> cur = stored_cursor ow path vi (stored w1))"
proof -
  let ?k = "cursor_key path (vi_device vi)"
  have inv: "inv w" using ready by (simp add: ready_def)
  have "inv w1 \<and> stored w1 = stored w \<and> taken w1 = taken w \<and> grows_to (content path w) (content path w1) \<and>
     in_sync ow (stored w1) st1 \<and> (case res of Inl _ \<Rightarrow> True | Inr cur \<Rightarrow> cur = stored_cursor ow path vi (stored w1))"
  proof (cases "cs_known st ?k")
    case (Some c)
    with cf ready show ?thesis
      by (auto simp: cursor_for_def ready_def in_sync_def stored_cursor_def Let_def)
  next
    case None
    obtain got w2 where oc: "ow_cursor ow ?k w = (got, w2)" by fastforce
    from cursor_law [OF inv oc, of path] None cf ready oc show ?thesis
      by (auto simp: cursor_for_def ready_def in_sync_def stored_cursor_def Let_def split: sum.splits if_splits)
  qed
  then show ?thesis using ready placed_grows by (auto simp: ready_def)
qed

lemma ship_file_once:
  assumes json: "reads_back ow" "parsed_in_i64 (cl_parse_ts (ow_lib ow))"
    and fits: "\<And>w. inv w \<Longrightarrow> transcript_fits (content path w)" and dated: "dated path vi m"
    and run: "ship_file ow vi path st w = Some (r, st', w')"
    and ready: "ready path vi st w"
  shows "visited ow stored taken content path vi m w w' \<and> ready path vi st' w' \<and>
     grows_to (content path w) (content path w')"
proof -
  obtain res st1 w1 where cf: "cursor_for ow path (vi_device vi) st w = (res, st1, w1)" by (metis prod.collapse)
  note step = cursor_for_ready [OF ready cf]
  show ?thesis
  proof (cases res)
    case (Inl e)
    with run cf step visited_same [of w1 w] show ?thesis by (auto simp: ship_file_def)
  next
    case (Inr cur)
    with run cf obtain fl where "ship_loop ow path vi cur st1 w1 = Some (fl, st', w')"
      by (auto simp: ship_file_def)
    from ship_loop_once [OF json fits dated this] Inr step have
      v: "visited ow stored taken content path vi m w1 w' \<and> ready path vi st' w' \<and>
        grows_to (content path w1) (content path w')" by simp
    then have "visited ow stored taken content path vi m w w'"
      using step by (simp add: visited_def)
    with v step grows_to_trans show ?thesis by blast
  qed
qed

lemma visits_once:
  assumes json: "reads_back ow" "parsed_in_i64 (cl_parse_ts (ow_lib ow))"
    and fits: "\<And>w. inv w \<Longrightarrow> transcript_fits (content path w)" and dated: "dated path vi m"
  shows "visits ow vi path restarts st w = Some (st', w') \<Longrightarrow> ready path vi st w \<Longrightarrow>
     visited ow stored taken content path vi m w w' \<and> ready path vi st' w' \<and>
     grows_to (content path w) (content path w')"
proof (induction restarts arbitrary: st w)
  case Nil
  then show ?case by (simp add: visited_same)
next
  case (Cons restart restarts)
  let ?st = "if restart then claude_new else st"
  from Cons.prems(1) obtain r st1 w1 where 1: "ship_file ow vi path ?st w = Some (r, st1, w1)"
    and 2: "visits ow vi path restarts st1 w1 = Some (st', w')"
    by (auto split: option.splits prod.splits)
  have "ready path vi ?st w" using Cons.prems(2) by (simp add: ready_def in_sync_def claude_new_def)
  from ship_file_once [OF json fits dated 1 this] have
    s: "visited ow stored taken content path vi m w w1" "ready path vi st1 w1" "grows_to (content path w) (content path w1)"
    by auto
  from Cons.IH [OF 2 s(2)] s visited_trans grows_to_trans show ?case by blast
qed

end

subsection \<open>A runtime that keeps up\<close>

lemma read_increment_Inr: "\<exists>read. read_increment lib now path src cur b (Inr f) = Inr read"
  by (simp add: read_increment_def Let_def split: option.split)

locale steady_runtime = runtime +
  assumes opens: "inv w \<Longrightarrow> ow_open ow path w = Inr (content path w)"
    and commits: "inv w \<Longrightarrow> em_committed em \<Longrightarrow> fst (ow_send ow em w) = Committed"
    and reads: "inv w \<Longrightarrow> \<exists>v. fst (ow_cursor ow k w) = Inr v"
begin

lemma budget_ok_default: "budget_ok default_budget"
  by (simp add: budget_ok_def default_budget_def)

lemma left_from_None:
  assumes "read_increment (ow_lib ow) now path (source_of ow vi) cur default_budget (Inr f) = Inr None"
    and "vi_since vi = None \<or> modified_millis now (fl_modified f) = m"
  shows "left_from ow path vi m cur f = []"
proof (cases "resume (cl_sha (ow_lib ow)) (vi_identity vi) f cur")
  case None
  then show ?thesis by (simp add: left_from_def)
next
  case (Some start)
  let ?r1 = "reading_of (ow_lib ow) path (source_of ow vi) (modified_millis now (fl_modified f))"
  let ?r = "reading_of (ow_lib ow) path (source_of ow vi) m"
  have "alike ?r ?r1" using assms(2) by (auto simp: alike_def reading_of_def)
  from keys_left_alike [OF this, of start "fl_bytes f"] read_increment_None [OF assms(1) budget_ok_default] Some
  have "keys_left ?r start (fl_bytes f) = []" by (simp add: keys_left_def)
  with Some show ?thesis by (simp add: left_from_def)
qed

lemma ship_loop_finishes:
  assumes json: "reads_back ow" "parsed_in_i64 (cl_parse_ts (ow_lib ow))"
    and fits: "\<And>w. inv w \<Longrightarrow> transcript_fits (content path w)" and dated: "dated path vi m"
    and bound: "\<And>w. inv w \<Longrightarrow> length (fl_bytes (content path w)) \<le> N"
  shows "ready path vi st w \<Longrightarrow> cur = stored_cursor ow path vi (stored w) \<Longrightarrow>
     (\<And>c. resume (cl_sha (ow_lib ow)) (vi_identity vi) (content path w) cur = Some c \<Longrightarrow> N - fc_offset c \<le> n) \<Longrightarrow>
     \<exists>st' w'. ship_loop ow path vi cur st w = Some (Continue, st', w') \<and>
       left_from ow path vi m (stored_cursor ow path vi (stored w')) (content path w') = []"
proof (induction n arbitrary: cur st w rule: less_induct)
  case (less n)
  note ready = less.prems(1) and cur = less.prems(2)
  have inv: "inv w" using ready by (simp add: ready_def)
  obtain read where read: "read_increment (ow_lib ow) (ow_now ow w) path (source_of ow vi) cur default_budget
      (Inr (content path w)) = Inr read"
    using read_increment_Inr by blast
  show ?case
  proof (cases read)
    case None
    have "left_from ow path vi m cur (content path w) = []"
      using dated inv by (intro left_from_None [OF read [unfolded None]]) (auto simp: dated_def)
    with None read cur show ?thesis
      by (subst ship_loop.simps) (simp add: opens [OF inv])
  next
    case (Some inc)
    note inc = read [unfolded Some]
    obtain w1 where send: "ow_send ow (file_emission ow path vi inc) w = (Committed, w1)"
      using commits [OF inv file_emission_sel(1)] by (metis prod.collapse)
    let ?st1 = "(mark_readable path st)\<lparr>cs_known :=
        (cs_known st)(cursor_key path (vi_device vi) \<mapsto> Some (in_cursor inc))\<rparr>"
    from committed_step [OF ready json fits [OF inv] inc [unfolded cur] send]
    have c1: "stored_cursor ow path vi (stored w1) = Some (in_cursor inc)" and rd1: "ready path vi ?st1 w1" by auto
    have law: "inv w1" "grows_to (content path w) (content path w1)" using send_law [OF inv file_emission_sel(1) send] by auto
    from read_increment_Some [OF inc refl] obtain start where
      start: "resume (cl_sha (ow_lib ow)) (vi_identity vi) (content path w) cur = Some start"
        "fc_offset start < fc_offset (in_cursor inc)" "fc_offset (in_cursor inc) \<le> length (fl_bytes (content path w))"
      by auto
    have "fc_offset (in_cursor inc) \<le> N" using start(3) bound [OF inv] by simp
    then have smaller: "N - fc_offset (in_cursor inc) < n" using start(2) less.prems(3) [OF start(1)] by simp
    have "resume (cl_sha (ow_lib ow)) (vi_identity vi) (content path w1) (Some (in_cursor inc)) = Some (in_cursor inc)"
      using resume_grows [OF _ law(2)] resume_in_cursor [OF inc] start(3) by (simp add: placed_def)
    with less.IH [OF smaller rd1 c1 [symmetric]]
    obtain st' w' where "ship_loop ow path vi (Some (in_cursor inc)) ?st1 w1 = Some (Continue, st', w')"
        "left_from ow path vi m (stored_cursor ow path vi (stored w')) (content path w') = []"
      by auto
    with inc send show ?thesis by (subst ship_loop.simps) (simp add: opens [OF inv])
  qed
qed

lemma ship_file_finishes:
  assumes json: "reads_back ow" "parsed_in_i64 (cl_parse_ts (ow_lib ow))"
    and fits: "\<And>w. inv w \<Longrightarrow> transcript_fits (content path w)" and dated: "dated path vi m"
    and bound: "\<And>w. inv w \<Longrightarrow> length (fl_bytes (content path w)) \<le> N"
    and ready: "ready path vi st w"
  shows "\<exists>st' w'. ship_file ow vi path st w = Some (Inr Continue, st', w') \<and>
       left_from ow path vi m (stored_cursor ow path vi (stored w')) (content path w') = []"
proof -
  have inv: "inv w" using ready by (simp add: ready_def)
  obtain res st1 w1 where cf: "cursor_for ow path (vi_device vi) st w = (res, st1, w1)" by (metis prod.collapse)
  from reads [OF inv, of "cursor_key path (vi_device vi)"] cf obtain cur where res: "res = Inr cur"
    by (auto simp: cursor_for_def Let_def split: option.splits prod.splits sum.splits)
  from cursor_for_ready [OF ready cf] res have rd: "ready path vi st1 w1" "cur = stored_cursor ow path vi (stored w1)"
    by auto
  from ship_loop_finishes [OF json fits dated bound rd, where n = N] obtain st' w' where
    "ship_loop ow path vi cur st1 w1 = Some (Continue, st', w')"
    "left_from ow path vi m (stored_cursor ow path vi (stored w')) (content path w') = []" by auto
  with cf res show ?thesis by (simp add: ship_file_def)
qed

end

end
