(* ===== verification/Claude_Runtime.thy ===== *)
theory Claude_Runtime
  imports Claude_Delivery
begin

text \<open>
  The daemon as the provider's outside: emissions go through \<open>store\<close> into the buffer, cursors are read
  from it, files are a history of the file system. The contract \<open>runtime\<close> holds of it whatever SQLite
  fails at and whatever the shipper does meanwhile; the contract \<open>steady_runtime\<close> when nothing fails.
\<close>

subsection \<open>The machine\<close>

text \<open>What is outside the daemon, over time: one instant per interaction of the provider.\<close>

record host =
  ho_env :: buffer_env
  ho_lib :: claude_lib
  ho_render :: "json \<Rightarrow> string"
  ho_repo_of :: "string \<Rightarrow> string option"
  ho_lossy :: "string \<Rightarrow> string"
  ho_show :: "buffer_error \<Rightarrow> string"
  ho_clock :: "nat \<Rightarrow> timestamp"
  ho_files :: "nat \<Rightarrow> string \<Rightarrow> transcript"
  ho_refuses :: "nat \<Rightarrow> string \<Rightarrow> string option"   \<comment> \<open>why a file cannot be opened\<close>
  ho_list :: "nat \<Rightarrow> string \<Rightarrow> string io list io"
  ho_is_dir :: "nat \<Rightarrow> string \<Rightarrow> bool"
  ho_is_file :: "nat \<Rightarrow> string \<Rightarrow> bool"
  ho_closed :: "nat \<Rightarrow> bool"                        \<comment> \<open>the queue is closed\<close>
  ho_meanwhile :: "nat \<Rightarrow> (timestamp \<times> timestamp \<times> command) list"
  ho_child :: "nat \<Rightarrow> child"

record machine =
  mc_db :: db
  mc_time :: nat
  mc_taken :: "emission list"   \<comment> \<open>the emissions committed so far\<close>

definition meanwhile :: "host \<Rightarrow> machine \<Rightarrow> db" where
  "meanwhile h w = snd (serve (ho_env h) (ho_meanwhile h (mc_time w)) (mc_db w))"

definition daemon_send :: "host \<Rightarrow> emission \<Rightarrow> machine \<Rightarrow> delivery \<times> machine" where
  "daemon_send h em w =
     (let t = mc_time w; later = w\<lparr>mc_time := t + 1\<rparr> in
      if ho_closed h t then (Gone, later)
      else let a = \<lparr>ar_emission = Some em, ar_now = ho_clock h t, ar_later = ho_clock h t, ar_room = True,
                    ar_meanwhile = ho_meanwhile h t\<rparr>;
               ((r, receipt), s) = store (ho_env h) a em (meanwhile h w)
           in if receipt = Acknowledged
              then (Committed, later\<lparr>mc_db := s, mc_taken := mc_taken w @ [em]\<rparr>)
              else (NotCommitted, later\<lparr>mc_db := s\<rparr>))"

definition daemon_cursor :: "host \<Rightarrow> string \<Rightarrow> machine \<Rightarrow> string option io \<times> machine" where
  "daemon_cursor h k w =
     (case read_cursor ClaudeCode k (meanwhile h w) of
        (r, s) \<Rightarrow> (map_sum (ho_show h) id r, w\<lparr>mc_db := s, mc_time := mc_time w + 1\<rparr>))"

definition daemon :: "host \<Rightarrow> machine outside" where
  "daemon h =
     \<lparr>ow_lib = ho_lib h, ow_render = ho_render h, ow_repo_of = ho_repo_of h, ow_lossy = ho_lossy h,
      ow_now = (\<lambda>w. ho_clock h (mc_time w)),
      ow_open = (\<lambda>path w. case ho_refuses h (mc_time w) path of
                   Some e \<Rightarrow> Inl e | None \<Rightarrow> Inr (ho_files h (mc_time w) path)),
      ow_list = (\<lambda>path w. ho_list h (mc_time w) path),
      ow_is_dir = (\<lambda>path w. ho_is_dir h (mc_time w) path),
      ow_is_file = (\<lambda>path w. ho_is_file h (mc_time w) path),
      ow_cursor = daemon_cursor h, ow_send = daemon_send h,
      ow_spawn = (\<lambda>program args w. (ho_child h (mc_time w), w\<lparr>mc_time := mc_time w + 1\<rparr>)),
      ow_wait = (\<lambda>secs w. w\<lparr>mc_db := meanwhile h w, mc_time := mc_time w + 1\<rparr>)\<rparr>"

lemma daemon_sel [simp]:
  "ow_lib (daemon h) = ho_lib h" "ow_render (daemon h) = ho_render h"
  "ow_now (daemon h) w = ho_clock h (mc_time w)"
  "ow_cursor (daemon h) = daemon_cursor h" "ow_send (daemon h) = daemon_send h"
  by (simp_all add: daemon_def)

subsection \<open>The contract holds\<close>

definition content_of :: "host \<Rightarrow> string \<Rightarrow> machine \<Rightarrow> transcript" where
  "content_of h path w = ho_files h (mc_time w) path"

definition stored_in :: "machine \<Rightarrow> string \<Rightarrow> string option" where
  "stored_in w k = t_cursors (db_tables (mc_db w)) (provider_as_str ClaudeCode, k)"

text \<open>Files only grow, and the shipper enqueues nothing.\<close>

definition host_ok :: "host \<Rightarrow> bool" where
  "host_ok h \<longleftrightarrow>
     (\<forall>t path. grows_to (ho_files h t path) (ho_files h (t + 1) path)) \<and>
     (\<forall>t. list_all (\<lambda>(_, _, c). case c of Enqueue ds cur dev \<Rightarrow> False | _ \<Rightarrow> True) (ho_meanwhile h t))"

definition machine_ok :: "host \<Rightarrow> machine \<Rightarrow> bool" where
  "machine_ok h w \<longleftrightarrow> host_ok h \<and> tables_ok (db_tables (mc_db w))"

lemma meanwhile_keeps:
  assumes "machine_ok h w"
  shows "tables_ok (db_tables (meanwhile h w))" "t_cursors (db_tables (meanwhile h w)) = t_cursors (db_tables (mc_db w))"
proof -
  have no: "list_all (\<lambda>(_, _, c). case c of Enqueue ds cur dev \<Rightarrow> False | _ \<Rightarrow> True) (ho_meanwhile h (mc_time w))"
    using assms by (simp add: machine_ok_def host_ok_def)
  show "t_cursors (db_tables (meanwhile h w)) = t_cursors (db_tables (mc_db w))"
    unfolding meanwhile_def
    by (rule serve_no_enqueue [where P = "\<lambda>t. t_cursors t = t_cursors (db_tables (mc_db w))", OF _ no])
      (auto intro!: keeps_command)
  show "tables_ok (db_tables (meanwhile h w))"
    using assms by (simp add: meanwhile_def machine_ok_def keeps_serve keeps_tables_ok_command)
qed

lemma with_cursor_stored:
  "(\<lambda>k. with_cursor c m (provider_as_str ClaudeCode, k)) =
     with_stored c (\<lambda>k. m (provider_as_str ClaudeCode, k))"
  by (auto simp: with_cursor_def with_stored_def fun_eq_iff split: option.split simp del: provider_as_str.simps)

lemma daemon_send_law:
  assumes ok: "machine_ok h w" and asked: "em_committed em" and send: "daemon_send h em w = (d, w')"
  shows "machine_ok h w' \<and> mc_time w' = mc_time w + 1 \<and>
     mc_taken w' = (if d = Committed then mc_taken w @ [em] else mc_taken w) \<and>
     t_cursors (db_tables (mc_db w')) = (if d = Committed then with_cursor (em_cursor em) (t_cursors (db_tables (mc_db w)))
       else t_cursors (db_tables (mc_db w)))"
proof (cases "ho_closed h (mc_time w)")
  case True
  with assms show ?thesis by (auto simp: daemon_send_def machine_ok_def)
next
  case False
  define a where "a = \<lparr>ar_emission = Some em, ar_now = ho_clock h (mc_time w), ar_later = ho_clock h (mc_time w),
     ar_room = True, ar_meanwhile = ho_meanwhile h (mc_time w)\<rparr>"
  obtain r receipt s where st: "store (ho_env h) a em (meanwhile h w) = ((r, receipt), s)" by (metis prod.collapse)
  have quiet: "no_enqueue a" using ok by (simp add: no_enqueue_def a_def machine_ok_def host_ok_def)
  from store_effect [OF meanwhile_keeps(1) [OF ok] quiet st] asked meanwhile_keeps(2) [OF ok] have
    eff: "tables_ok (db_tables s)"
      "receipt = (case r of Inl _ \<Rightarrow> Dropped | Inr _ \<Rightarrow> Acknowledged)"
      "t_cursors (db_tables s) = (case r of Inl _ \<Rightarrow> t_cursors (db_tables (mc_db w))
         | Inr _ \<Rightarrow> with_cursor (em_cursor em) (t_cursors (db_tables (mc_db w))))"
    by (auto simp: receipt_for_def split: sum.split)
  show ?thesis
  proof (cases r)
    case (Inl e)
    with send False st eff ok show ?thesis
      by (auto simp: daemon_send_def Let_def machine_ok_def simp flip: a_def)
  next
    case (Inr ens)
    with send False st eff ok show ?thesis
      by (auto simp: daemon_send_def Let_def machine_ok_def simp flip: a_def)
  qed
qed

interpretation daemon: runtime "daemon h" "machine_ok h" stored_in mc_taken "content_of h" for h
proof (unfold_locales, goal_cases)
  case (1 w path f)
  then show ?case by (auto simp: daemon_def content_of_def split: option.splits)
next
  case (2 w em d w' path)
  with daemon_send_law [of h w em d w'] with_cursor_stored [of "em_cursor em" "t_cursors (db_tables (mc_db w))"] show ?case
    by (auto simp: content_of_def machine_ok_def host_ok_def stored_in_def [abs_def])
next
  case (3 w k r w' path)
  obtain res s where rc: "read_cursor ClaudeCode k (meanwhile h w) = (res, s)" by fastforce
  then have "db_tables s = db_tables (meanwhile h w)" and
    "case res of Inl _ \<Rightarrow> True | Inr v \<Rightarrow> v = t_cursors (db_tables (meanwhile h w)) (provider_as_str ClaudeCode, k)"
    by (auto simp: read_cursor_def query_def exec_def split: list.splits bool.splits)
  with 3 rc meanwhile_keeps [OF 3(1)] show ?case
    by (auto simp: daemon_cursor_def content_of_def machine_ok_def host_ok_def stored_in_def fun_eq_iff
        split: sum.splits simp del: provider_as_str.simps)
qed

text \<open>
  C33. Every record of a transcript reaches the buffer exactly once. Over any number of visits to a file
  that only grows, with the daemon restarted between them at will, SQLite failing at any statement, the
  queue closed, the file at times unreadable and the shipper at work, the keys of the records the
  buffer committed, followed by the keys still left from the stored cursor, are the keys that were
  left at the start, in order. (An import looks at \<open>since\<close>, so for it the file's time has to be known.)
\<close>

theorem visits_exactly_once:
  assumes "machine_ok h w" and "reads_back (daemon h)" and "parsed_in_i64 (cl_parse_ts (ho_lib h))"
    and "\<forall>t. transcript_fits (ho_files h t path)"
    and "vi_since vi = None \<or> (\<forall>t. modified_millis (ho_clock h t) (fl_modified (ho_files h t path)) = m)"
    and "placed (content_of h path w) (stored_cursor (daemon h) path vi (stored_in w))"
    and "visits (daemon h) vi path restarts claude_new w = Some (st', w')"
  shows "\<exists>new. mc_taken w' = mc_taken w @ new \<and>
     left_from (daemon h) path vi m (stored_cursor (daemon h) path vi (stored_in w)) (content_of h path w') =
       emitted_keys new @
       left_from (daemon h) path vi m (stored_cursor (daemon h) path vi (stored_in w')) (content_of h path w')"
proof -
  have "daemon.dated h path vi m"
    using assms(5) by (auto simp: daemon.dated_def content_of_def)
  moreover have "daemon.ready h path vi claude_new w"
    using assms(1,6) by (simp add: daemon.ready_def in_sync_def claude_new_def)
  moreover have "transcript_fits (content_of h path w)" for w
    using assms(4) by (simp add: content_of_def)
  ultimately have "visited (daemon h) stored_in mc_taken (content_of h) path vi m w w'"
    using daemon.visits_once [of h path vi m restarts claude_new w st' w'] assms(2,3,7) by simp
  then show ?thesis unfolding visited_def by (metis grows_to_refl)
qed

subsection \<open>When nothing fails\<close>

definition host_calm :: "host \<Rightarrow> bool" where
  "host_calm h \<longleftrightarrow>
     host_ok h \<and> (\<forall>t. \<not> ho_closed h t \<and> ho_meanwhile h t = []) \<and> (\<forall>t path. ho_refuses h t path = None) \<and>
     (\<forall>en. be_render (ho_env h) en \<noteq> None)"

definition machine_calm :: "host \<Rightarrow> machine \<Rightarrow> bool" where
  "machine_calm h w \<longleftrightarrow>
     host_calm h \<and> machine_ok h w \<and> db_faults (mc_db w) = [] \<and>
     (\<exists>n. parse_seq (t_meta (db_tables (mc_db w)) seq_key) = Inr n)"

lemma calm_meanwhile: "machine_calm h w \<Longrightarrow> meanwhile h w = mc_db w"
  by (simp add: meanwhile_def machine_calm_def host_calm_def)

lemma calm_db_eq: "db_faults s = [] \<Longrightarrow> s = calm (db_tables s)"
  by (cases s) simp

lemma within_calm: "within env room [] s = s"
  by (simp add: within_def)

text \<open>A send when nothing fails is an enqueue as \<open>enqueue_spec\<close> says.\<close>

lemma daemon_send_runs:
  assumes calm: "machine_calm h w" and asked: "em_committed em"
    and seq: "parse_seq (t_meta (db_tables (mc_db w)) seq_key) = Inr seq"
  shows "daemon_send h em w =
    (Committed, w\<lparr>mc_time := mc_time w + 1,
       mc_db := calm (snd (enqueue_spec (ho_env h) (ho_clock h (mc_time w)) (ho_clock h (mc_time w)) (em_records em)
         (em_cursor em) (em_device em) seq (db_tables (mc_db w)))),
       mc_taken := mc_taken w @ [em]\<rparr>)"
proof -
  let ?t = "db_tables (mc_db w)" and ?now = "ho_clock h (mc_time w)"
  let ?spec = "enqueue_spec (ho_env h) ?now ?now (em_records em) (em_cursor em) (em_device em) seq ?t"
  have db: "mc_db w = calm ?t" using calm calm_db_eq by (simp add: machine_calm_def)
  have ok: "tables_ok ?t" using calm by (simp add: machine_calm_def machine_ok_def)
  from calm have enq: "enqueue (ho_env h) ?now ?now (em_records em) (em_cursor em) (em_device em) (mc_db w) =
      (Inr (fst ?spec), calm (snd ?spec))"
    using enqueue_calm [OF ok seq, of "ho_env h" ?now ?now "em_records em" "em_cursor em" "em_device em"] db
    by (simp add: machine_calm_def host_calm_def)
  have quiet: "ho_meanwhile h (mc_time w) = []" "\<not> ho_closed h (mc_time w)"
    using calm by (auto simp: machine_calm_def host_calm_def)
  have ck: "checkpoint (calm (snd ?spec)) = (Inr (), calm (snd ?spec))"
    by (simp add: checkpoint_def calm_simps)
  show ?thesis
    using quiet asked enq ck
    by (simp add: daemon_send_def Let_def store_def calm_meanwhile [OF calm] within_calm)
qed

lemma daemon_send_calm:
  assumes calm: "machine_calm h w" and asked: "em_committed em"
  shows "\<exists>w'. daemon_send h em w = (Committed, w') \<and> machine_calm h w'"
proof -
  obtain seq where seq: "parse_seq (t_meta (db_tables (mc_db w)) seq_key) = Inr seq"
    using calm by (auto simp: machine_calm_def)
  note run = daemon_send_runs [OF calm asked seq]
  have "machine_ok h w" using calm by (simp add: machine_calm_def)
  from daemon_send_law [OF this asked run] run calm enqueue_spec_seq [OF seq] show ?thesis
    by (auto simp: machine_calm_def)
qed

lemma daemon_cursor_calm:
  assumes calm: "machine_calm h w"
  shows "\<exists>v w'. daemon_cursor h k w = (Inr v, w') \<and> machine_calm h w'"
proof -
  have "mc_db w = calm (db_tables (mc_db w))" using calm calm_db_eq by (simp add: machine_calm_def)
  then have "read_cursor ClaudeCode k (mc_db w) =
      (Inr (t_cursors (db_tables (mc_db w)) (provider_as_str ClaudeCode, k)), mc_db w)"
    by (metis read_cursor_def query_calm)
  with calm show ?thesis
    by (simp add: daemon_cursor_def calm_meanwhile machine_calm_def machine_ok_def)
qed

interpretation calm_daemon: steady_runtime "daemon h" "machine_calm h" stored_in mc_taken "content_of h" for h
proof (unfold_locales, goal_cases)
  case (1 w path f)
  then show ?case using daemon.open_law [of h w path f] by (simp add: machine_calm_def)
next
  case (2 w em d w' path)
  with daemon.send_law [of h w em d w' path] daemon_send_calm [of h w em] show ?case
    by (auto simp: machine_calm_def)
next
  case (3 w k r w' path)
  with daemon.cursor_law [of h w k r w' path] daemon_cursor_calm [of h w k] show ?case
    by (auto simp: machine_calm_def)
next
  case (4 w path)
  then show ?case by (simp add: daemon_def content_of_def machine_calm_def host_calm_def)
next
  case (5 w em)
  with daemon_send_calm [of h w em] show ?case by auto
next
  case (6 w k)
  with daemon_cursor_calm [of h w k] show ?case by auto
qed

text \<open>
  C34. A visit to a file ends, and ends with nothing left: when nothing fails, the loop over a file of
  bounded size returns, whatever is in it and however it grows while it is read, and then no complete
  line is left that the stored cursor has not passed.
\<close>

theorem visit_finishes:
  assumes "machine_calm h w" and "reads_back (daemon h)" and "parsed_in_i64 (cl_parse_ts (ho_lib h))"
    and "\<forall>t. transcript_fits (ho_files h t path)"
    and "vi_since vi = None \<or> (\<forall>t. modified_millis (ho_clock h t) (fl_modified (ho_files h t path)) = m)"
    and "placed (content_of h path w) (stored_cursor (daemon h) path vi (stored_in w))"
    and "in_sync (daemon h) (stored_in w) st"
  shows "\<exists>st' w'. ship_file (daemon h) vi path st w = Some (Inr Continue, st', w') \<and>
     left_from (daemon h) path vi m (stored_cursor (daemon h) path vi (stored_in w')) (content_of h path w') = []"
proof -
  have "calm_daemon.dated h path vi m"
    using assms(5) by (auto simp: calm_daemon.dated_def content_of_def)
  moreover have "calm_daemon.ready h path vi st w"
    using assms(1,6,7) by (simp add: calm_daemon.ready_def)
  moreover have "transcript_fits (content_of h path w)" "length (fl_bytes (content_of h path w)) \<le> 2 ^ 64" for w
    using assms(4) by (simp_all add: content_of_def transcript_fits_def less_imp_le)
  ultimately show ?thesis
    using calm_daemon.ship_file_finishes [of h path vi m "2 ^ 64" st w] assms(2,3) by simp
qed

end
