(* ===== verification/Claude_Samples.thy ===== *)
theory Claude_Samples
  imports Claude_Runtime
begin

text \<open>
  A concrete daemon for the theorems of \<open>Claude_Runtime\<close>: cursors printed and parsed in a flat format
  that reads back, a transcript that grows while it is read, and a buffer whose first enqueue fails.
\<close>

subsection \<open>A codec for cursors\<close>

definition cut :: "string \<Rightarrow> string \<times> string" where
  "cut s = (takeWhile (\<lambda>c. c \<noteq> CHR '','') s, drop 1 (dropWhile (\<lambda>c. c \<noteq> CHR '','') s))"

definition print_cursor :: "file_cursor \<Rightarrow> string" where
  "print_cursor c =
     CHR 0x23 # dec_nat (fc_inode c) @ '','' @ dec_nat (fc_offset c) @ '','' @
     (case fc_last_message_ts c of None \<Rightarrow> ''n'' | Some ts \<Rightarrow> dec_int ts) @ '','' @
     dec_nat (fc_version c) @ '','' @ (if fc_skipping c then ''t'' else ''f'') @ '','' @
     (case fc_head c of None \<Rightarrow> ''n'' | Some h \<Rightarrow> CHR ''s'' # h)"

definition scan_nat :: "string \<Rightarrow> nat" where
  "scan_nat s = (case digits_value 0 s of None \<Rightarrow> 0 | Some n \<Rightarrow> n)"

definition scan_int :: "string \<Rightarrow> int" where
  "scan_int s = (if hd s = CHR ''-'' then - int (scan_nat (tl s)) else int (scan_nat s))"

definition scan_cursor :: "string \<Rightarrow> file_cursor" where
  "scan_cursor s =
     (let (inode, s) = cut s; (off, s) = cut s; (ts, s) = cut s; (ver, s) = cut s; (skp, s) = cut s
      in \<lparr>fc_inode = scan_nat inode, fc_offset = scan_nat off,
          fc_last_message_ts = (if ts = ''n'' then None else Some (scan_int ts)),
          fc_version = scan_nat ver,
          fc_head = (if hd s = CHR ''n'' then None else Some (tl s)), fc_skipping = (skp = ''t'')\<rparr>)"

lemma cut_append: "CHR '','' \<notin> set x \<Longrightarrow> cut (x @ CHR '','' # s) = (x, s)"
  unfolding cut_def by (induction x) auto

lemma cut_single: "c \<noteq> CHR '','' \<Longrightarrow> cut (c # CHR '','' # s) = ([c], s)"
  using cut_append [of "[c]" s] by simp

lemma scan_nat_dec [simp]: "scan_nat (dec_nat n) = n"
  by (simp add: scan_nat_def digits_value_dec_nat)

lemma scan_int_dec [simp]: "scan_int (dec_int i) = i"
  using dec_nat_hd_not_sign(1) by (auto simp: scan_int_def dec_int_def)

lemma dec_int_not_n: "dec_int i \<noteq> ''n''"
  using dec_nat_digits [of "CHR ''n''"] by (auto simp: dec_int_def) (metis list.set_intros(1) le_eq_less_or_eq numeral_le_iff)

lemma scan_print_cursor: "scan_cursor (tl (print_cursor c)) = c"
proof -
  have no: "CHR '','' \<notin> set (dec_nat n)" "CHR '','' \<notin> set (dec_int i)" for n i
    by (simp_all add: dec_nat_no_char dec_int_def)
  then show ?thesis
    by (cases c; cases "fc_last_message_ts c"; cases "fc_head c")
      (auto simp: print_cursor_def scan_cursor_def cut_append cut_single Let_def dec_int_not_n)
qed

definition print_json :: "json \<Rightarrow> string" where
  "print_json v = (case parse_cursor v of Some c \<Rightarrow> print_cursor c | None \<Rightarrow> [])"

definition parse_line :: "string \<Rightarrow> json option" where
  "parse_line s =
     (if s \<noteq> [] \<and> hd s = CHR 0x23 then Some (encode_cursor (scan_cursor (tl s)))
      else cl_parse_json sample_lib s)"

lemma parse_print_json: "cursor_fits c \<Longrightarrow> parse_line (print_json (encode_cursor c)) = Some (encode_cursor c)"
proof -
  assume "cursor_fits c"
  then have "print_json (encode_cursor c) = print_cursor c"
    by (simp add: print_json_def parse_encode_cursor del: encode_cursor.simps)
  moreover have "print_cursor c \<noteq> []" "hd (print_cursor c) = CHR 0x23" by (simp_all add: print_cursor_def)
  ultimately show ?thesis by (simp add: parse_line_def scan_print_cursor del: encode_cursor.simps)
qed

subsection \<open>The daemon\<close>

definition sample_path :: string where "sample_path = ''/x/s.jsonl''"

definition sample_host :: host where
  "sample_host =
     \<lparr>ho_env = sample_env 9, ho_lib = sample_lib\<lparr>cl_parse_json := parse_line\<rparr>, ho_render = print_json,
      ho_repo_of = \<lambda>_. None, ho_lossy = \<lambda>s. s, ho_show = \<lambda>_. [], ho_clock = \<lambda>_. Timestamp 0,
      ho_files = \<lambda>t path. \<lparr>fl_inode = 7,
        fl_bytes = ''ab'' @ [newline] @ (if t < 2 then [] else ''cd'' @ [newline] @ ''e''),
        fl_modified = Some 9\<rparr>,
      ho_refuses = \<lambda>t path. None, ho_list = \<lambda>t path. Inr [], ho_is_dir = \<lambda>t path. False,
      ho_is_file = \<lambda>t path. True, ho_closed = \<lambda>t. False, ho_meanwhile = \<lambda>t. [],
      ho_child = \<lambda>t. CannotStart\<rparr>"

definition sample_machine :: "bool list \<Rightarrow> machine" where
  "sample_machine faults =
     \<lparr>mc_db = \<lparr>db_tables = empty_tables, db_faults = faults\<rparr>, mc_time = 0, mc_taken = []\<rparr>"

lemma sample_host_ok:
  "host_ok sample_host" "reads_back (daemon sample_host)"
  "parsed_in_i64 (cl_parse_ts (ho_lib sample_host))"
  "\<forall>t. transcript_fits (ho_files sample_host t path)"
  by (auto simp: sample_host_def host_ok_def grows_to_def reads_back_def parse_print_json parsed_in_i64_def
      sample_lib_def transcript_fits_def simp del: encode_cursor.simps)

lemma sample_machine_ok: "machine_ok sample_host (sample_machine fs)"
  by (simp add: machine_ok_def sample_machine_def sample_host_ok tables_ok_empty)

lemma sample_machine_calm: "machine_calm sample_host (sample_machine [])"
proof -
  have "host_calm sample_host"
    by (simp add: host_calm_def sample_host_ok) (simp add: sample_host_def sample_env_def)
  then show ?thesis
    by (simp add: machine_calm_def sample_machine_ok) (simp add: sample_machine_def parse_seq_empty)
qed

lemma sample_placed: "placed (content_of h path w) (stored_cursor (daemon h) path vi (stored_in (sample_machine fs)))"
  by (simp add: placed_def stored_cursor_def decode_stored_def stored_in_def sample_machine_def empty_tables_def)

definition sample_visits :: "(claude_state \<times> machine) option" where
  "sample_visits =
     visits (daemon sample_host) (root_visit ''p'') sample_path [False, True] claude_new
       (sample_machine [False, False, True])"

declare ship_loop.simps [code]

lemma sample_visits_keys:
  "map_option (\<lambda>(st, w). (emitted_keys (mc_taken w), length (mc_taken w))) sample_visits =
     Some ([ClaudeSession ''s'' ''ai_title'' ''ab'', ClaudeSession ''s'' ''ai_title'' ''cd''], 1)"
  by code_simp

theorem visits_exactly_once_witness:
  "\<exists>st w. sample_visits = Some (st, w) \<and>
     emitted_keys (mc_taken w) =
       [ClaudeSession ''s'' ''ai_title'' ''ab'', ClaudeSession ''s'' ''ai_title'' ''cd''] \<and>
     left_from (daemon sample_host) sample_path (root_visit ''p'') (Timestamp 9)
         (stored_cursor (daemon sample_host) sample_path (root_visit ''p'') (stored_in (sample_machine [False, False, True])))
         (content_of sample_host sample_path w) =
       emitted_keys (mc_taken w) @
       left_from (daemon sample_host) sample_path (root_visit ''p'') (Timestamp 9)
         (stored_cursor (daemon sample_host) sample_path (root_visit ''p'') (stored_in w))
         (content_of sample_host sample_path w)"
proof -
  from sample_visits_keys obtain st w where run: "sample_visits = Some (st, w)" and
    keys: "emitted_keys (mc_taken w) =
       [ClaudeSession ''s'' ''ai_title'' ''ab'', ClaudeSession ''s'' ''ai_title'' ''cd'']"
    by (auto simp del: emitted_keys_simps)
  have "vi_since (root_visit ''p'') = None" by (simp add: root_visit_def)
  with visits_exactly_once [OF sample_machine_ok sample_host_ok(2,3,4) _ sample_placed run [unfolded sample_visits_def],
      where m = "Timestamp 9"]
  obtain new where "mc_taken w = mc_taken (sample_machine [False, False, True]) @ new" and
    left: "left_from (daemon sample_host) sample_path (root_visit ''p'') (Timestamp 9)
         (stored_cursor (daemon sample_host) sample_path (root_visit ''p'') (stored_in (sample_machine [False, False, True])))
         (content_of sample_host sample_path w) =
       emitted_keys new @
       left_from (daemon sample_host) sample_path (root_visit ''p'') (Timestamp 9)
         (stored_cursor (daemon sample_host) sample_path (root_visit ''p'') (stored_in w))
         (content_of sample_host sample_path w)"
    by blast
  then have "new = mc_taken w" by (simp add: sample_machine_def)
  with run keys left show ?thesis by blast
qed

theorem visit_finishes_witness:
  "\<exists>st w. ship_file (daemon sample_host) (root_visit ''p'') sample_path claude_new (sample_machine []) =
       Some (Inr Continue, st, w) \<and>
     left_from (daemon sample_host) sample_path (root_visit ''p'') (Timestamp 9)
       (stored_cursor (daemon sample_host) sample_path (root_visit ''p'') (stored_in w))
       (content_of sample_host sample_path w) = []"
proof -
  have "vi_since (root_visit ''p'') = None" by (simp add: root_visit_def)
  then show ?thesis
    using visit_finishes [OF sample_machine_calm sample_host_ok(2,3,4) _ sample_placed,
        where vi = "root_visit ''p''" and m = "Timestamp 9" and st = claude_new]
    by (simp add: in_sync_def claude_new_def)
qed

end
