(* ===== verification/Claude_Shipment.thy ===== *)
theory Claude_Shipment
  imports Claude_Samples Ship_Props
begin

text \<open>
  From a transcript to the service: a visit to a file puts its records into the buffer and a drain
  posts the buffer. The locale \<open>steady_runtime\<close> is interpreted once more, on the same machine with what
  the pending table holds as part of the invariant.
\<close>

subsection \<open>The envelopes of emissions\<close>

definition device_of :: "buffer_env \<Rightarrow> emission \<Rightarrow> string" where
  "device_of env em = (case em_device em of Some d \<Rightarrow> d | None \<Rightarrow> be_device env)"

text \<open>What the records of emissions become when they are stored one after the other.\<close>

fun sealed_emissions :: "buffer_env \<Rightarrow> nat \<Rightarrow> emission list \<Rightarrow> envelope list" where
  "sealed_emissions env seq [] = []"
| "sealed_emissions env seq (em # ems) =
     sealed env (device_of env em) seq (em_records em) @
     sealed_emissions env (seq_after (length (em_records em)) seq) ems"

definition rendered :: "buffer_env \<Rightarrow> envelope list \<Rightarrow> string list" where
  "rendered env ens = map (\<lambda>en. the (be_render env en)) ens"

text \<open>Envelopes that fit the caps beside the rows there are.\<close>

definition room_for :: "buffer_env \<Rightarrow> pending_row list \<Rightarrow> envelope list \<Rightarrow> bool" where
  "room_for env rows ens \<longleftrightarrow>
     length rows + length ens \<le> max_rows (be_caps env) \<and>
     sum_bytes rows + sum_list (map length (rendered env ens)) \<le> max_bytes (be_caps env)"

lemma seq_after_add: "seq_after (m + n) seq = seq_after n (seq_after m seq)"
  by (induction m arbitrary: seq) (simp_all add: seq_after_Suc)

lemma sealed_emissions_snoc:
  "sealed_emissions env seq (ems @ [em]) = sealed_emissions env seq ems @
     sealed env (device_of env em) (seq_after (length (sealed_emissions env seq ems)) seq) (em_records em)"
  by (induction ems arbitrary: seq) (simp_all add: seq_after_add)

lemma room_for_prefix: "room_for env rows (ens @ extra) \<Longrightarrow> room_for env rows ens"
  by (auto simp: room_for_def rendered_def)

lemma sealed_keys:
  "list_all2 (\<lambda>k en. en_device en = device \<and>
       en_dedup_key en = dedup_key_of (be_sha env) device (en_kind en) (en_ts en) (en_seq en) k)
     (map dr_key ds) (sealed env device seq ds)"
  by (induction env device seq ds rule: sealed.induct) (simp_all add: into_envelope_def redact_draft_def)

lemma sealed_emissions_keys:
  "list_all (\<lambda>em. device_of env em = device) ems \<Longrightarrow>
   list_all2 (\<lambda>k en. en_device en = device \<and>
       en_dedup_key en = dedup_key_of (be_sha env) device (en_kind en) (en_ts en) (en_seq en) k)
     (emitted_keys ems) (sealed_emissions env seq ems)"
  by (induction ems arbitrary: seq) (auto intro!: list_all2_appendI sealed_keys)

subsection \<open>What the table holds\<close>

abbreviation rows_in :: "machine \<Rightarrow> pending_row list" where
  "rows_in w \<equiv> t_pending (db_tables (mc_db w))"

abbreviation seq_in :: "machine \<Rightarrow> (buffer_error, nat) res" where
  "seq_in w \<equiv> parse_seq (t_meta (db_tables (mc_db w)) seq_key)"

definition holds :: "host \<Rightarrow> machine \<Rightarrow> nat \<Rightarrow> emission list \<Rightarrow> machine \<Rightarrow> bool" where
  "holds h w0 seq new w \<longleftrightarrow>
     (let ens = sealed_emissions (ho_env h) seq new
      in room_for (ho_env h) (rows_in w0) ens \<longrightarrow>
         map row_envelope (rows_in w) = map row_envelope (rows_in w0) @ rendered (ho_env h) ens \<and>
         map row_bytes (rows_in w) = map row_bytes (rows_in w0) @ map length (rendered (ho_env h) ens) \<and>
         seq_in w = Inr (seq_after (length ens) seq))"

definition tracked_from :: "host \<Rightarrow> machine \<Rightarrow> nat \<Rightarrow> machine \<Rightarrow> bool" where
  "tracked_from h w0 seq w \<longleftrightarrow>
     machine_calm h w \<and> (\<exists>new. mc_taken w = mc_taken w0 @ new \<and> holds h w0 seq new w)"

lemma holds_start: "seq_in w = Inr seq \<Longrightarrow> holds h w seq [] w"
  by (simp add: holds_def rendered_def)

lemma tracked_start: "machine_calm h w \<Longrightarrow> seq_in w = Inr seq \<Longrightarrow> tracked_from h w seq w"
  by (auto simp: tracked_from_def intro!: exI [of _ "[]"] holds_start)

lemma holds_send:
  assumes calm: "machine_calm h w" and held: "holds h w0 seq new w" and seq: "seq < 2 ^ 64"
    and em: "em_committed em" and send: "daemon_send h em w = (d, w')"
  shows "holds h w0 seq (new @ [em]) w'"
proof -
  let ?env = "ho_env h" and ?ens = "sealed_emissions (ho_env h) seq new"
  define n where "n = seq_after (length ?ens) seq"
  define extra where "extra = sealed ?env (device_of ?env em) n (em_records em)"
  have snoc: "sealed_emissions ?env seq (new @ [em]) = ?ens @ extra"
    by (simp add: sealed_emissions_snoc extra_def n_def)
  show ?thesis
    unfolding holds_def Let_def snoc
  proof
    assume room: "room_for ?env (rows_in w0) (?ens @ extra)"
    with held have rows: "map row_envelope (rows_in w) = map row_envelope (rows_in w0) @ rendered ?env ?ens"
      "map row_bytes (rows_in w) = map row_bytes (rows_in w0) @ map length (rendered ?env ?ens)"
      and at: "seq_in w = Inr n"
      by (auto simp: holds_def Let_def n_def dest: room_for_prefix)
    let ?now = "to_rfc3339 (be_utc ?env) (ho_clock h (mc_time w))"
    obtain added where app: "append_sealed ?env ?now extra (rows_in w) = rows_in w @ added"
      "map row_envelope added = rendered ?env extra" "map row_bytes added = map length (rendered ?env extra)"
      using append_sealed_append [of ?env ?now extra "rows_in w"] by (auto simp: rendered_def)
    have "length (rows_in w) = length (rows_in w0) + length ?ens"
      using arg_cong [OF rows(1), of length] by (simp add: rendered_def)
    moreover have "length added = length extra" using arg_cong [OF app(2), of length] by (simp add: rendered_def)
    ultimately have "evictions (be_caps ?env) (rows_in w @ added) = 0"
      using room rows(2) app(3) by (simp add: evictions_0_iff sum_bytes_def room_for_def rendered_def)
    then have spec: "snd (enqueue_spec ?env (ho_clock h (mc_time w)) (ho_clock h (mc_time w)) (em_records em)
        (em_cursor em) (em_device em) n (db_tables (mc_db w))) =
      (db_tables (mc_db w))\<lparr>t_cursors := with_cursor (em_cursor em) (t_cursors (db_tables (mc_db w))),
         t_pending := rows_in w @ added,
         t_meta := (t_meta (db_tables (mc_db w)))(seq_key \<mapsto> dec_nat (seq_after (length (em_records em)) n))\<rparr>"
      using app(1) by (simp add: enqueue_spec_def Let_def extra_def device_of_def)
    have "seq_after (length extra) n < 2 ^ 64"
      unfolding n_def by (intro seq_after_bound seq)
    then have "seq_in w' = Inr (seq_after (length extra) n)" "rows_in w' = rows_in w @ added"
      using daemon_send_runs [OF calm em at] send by (auto simp: spec parse_seq_stored extra_def simp del: power_numeral)
    with rows app show "map row_envelope (rows_in w') = map row_envelope (rows_in w0) @ rendered ?env (?ens @ extra) \<and>
      map row_bytes (rows_in w') = map row_bytes (rows_in w0) @ map length (rendered ?env (?ens @ extra)) \<and>
      seq_in w' = Inr (seq_after (length (?ens @ extra)) seq)"
      by (simp add: rendered_def n_def seq_after_add)
  qed
qed

lemma daemon_cursor_keeps:
  assumes calm: "machine_calm h w" and read: "daemon_cursor h k w = (r, w')"
  shows "mc_db w' = mc_db w \<and> mc_taken w' = mc_taken w"
proof -
  have "mc_db w = calm (db_tables (mc_db w))" using calm calm_db_eq by (simp add: machine_calm_def)
  then have "snd (read_cursor ClaudeCode k (mc_db w)) = mc_db w"
    by (metis read_cursor_def query_calm snd_conv)
  with read show ?thesis
    by (auto simp: daemon_cursor_def calm_meanwhile [OF calm] split: prod.splits)
qed

text \<open>The contract with the table tracked.\<close>

definition tracked :: "host \<Rightarrow> machine \<Rightarrow> machine \<Rightarrow> bool" where
  "tracked h w0 w \<longleftrightarrow> (\<exists>seq. seq_in w0 = Inr seq \<and> tracked_from h w0 seq w)"

lemma tracked_send:
  assumes tr: "tracked h w0 w" and em: "em_committed em" and send: "daemon_send h em w = (d, w')"
  shows "tracked h w0 w'"
proof -
  from tr obtain seq new where t: "seq_in w0 = Inr seq" "machine_calm h w" "mc_taken w = mc_taken w0 @ new"
    "holds h w0 seq new w" by (auto simp: tracked_def tracked_from_def)
  from calm_daemon.commits [OF t(2) em] calm_daemon.send_law [OF t(2) em] send
  have "machine_calm h w'" "mc_taken w' = mc_taken w @ [em]" by auto
  with t holds_send [OF t(2,4) parse_seq_bound [OF t(1)] em send] show ?thesis
    by (auto simp: tracked_def tracked_from_def)
qed

lemma tracked_cursor:
  assumes tr: "tracked h w0 w" and read: "daemon_cursor h k w = (r, w')"
  shows "tracked h w0 w'"
proof -
  from tr obtain seq new where t: "seq_in w0 = Inr seq" "machine_calm h w" "mc_taken w = mc_taken w0 @ new"
    "holds h w0 seq new w" by (auto simp: tracked_def tracked_from_def)
  have "machine_calm h w'" using daemon_cursor_calm [OF t(2), of k] read by auto
  with t daemon_cursor_keeps [OF t(2) read] show ?thesis
    by (auto simp: tracked_def tracked_from_def holds_def)
qed

lemma tracked_calm: "tracked h w0 w \<Longrightarrow> machine_calm h w"
  by (auto simp: tracked_def tracked_from_def)

interpretation tracked_daemon: steady_runtime "daemon h" "tracked h w0" stored_in mc_taken "content_of h" for h w0
proof (unfold_locales, goal_cases)
  case (1 w path f)
  then show ?case using calm_daemon.open_law tracked_calm by blast
next
  case (2 w em d w' path)
  with calm_daemon.send_law [OF tracked_calm [OF 2(1)], of em d w' path] tracked_send [OF 2(1,2)] show ?case by simp
next
  case (3 w k r w' path)
  with calm_daemon.cursor_law [OF tracked_calm [OF 3(1)], of k r w' path] tracked_cursor [OF 3(1)] show ?case by simp
next
  case (4 w path)
  then show ?case using calm_daemon.opens tracked_calm by blast
next
  case (5 w em)
  then show ?case using calm_daemon.commits tracked_calm by blast
next
  case (6 w k)
  then show ?case using calm_daemon.reads tracked_calm by blast
qed

subsection \<open>To the service\<close>

text \<open>
  C7. A transcript reaches the service. When nothing fails, a visit to a file returns, and the envelopes of
  the emissions it put into the buffer carry the device of the visit and, one by one and in order, the
  deduplication keys of all records of complete lines that the stored cursor had not passed. If they fit
  the caps beside what was waiting, a drain against a service that takes its batches returns, has posted
  what was waiting and then exactly these envelopes, as stored after redaction and in order, and leaves
  the queue empty.
\<close>

theorem transcript_reaches_service:
  assumes "machine_calm h w" and "reads_back (daemon h)" and "parsed_in_i64 (cl_parse_ts (ho_lib h))"
    and "\<forall>t. transcript_fits (ho_files h t path)"
    and "vi_since vi = None \<or> (\<forall>t. modified_millis (ho_clock h t) (fl_modified (ho_files h t path)) = m)"
    and "placed (content_of h path w) (stored_cursor (daemon h) path vi (stored_in w))"
    and "in_sync (daemon h) (stored_in w) st" and "0 < n"
  shows "\<exists>st' w' new seq. ship_file (daemon h) vi path st w = Some (Inr Continue, st', w') \<and>
     mc_taken w' = mc_taken w @ new \<and> seq_in w = Inr seq \<and>
     (let device = (case vi_device vi of Some d \<Rightarrow> d | None \<Rightarrow> be_device (ho_env h));
          ens = sealed_emissions (ho_env h) seq new
      in list_all2 (\<lambda>k en. en_device en = device \<and>
             en_dedup_key en = dedup_key_of (be_sha (ho_env h)) device (en_kind en) (en_ts en) (en_seq en) k)
           (left_from (daemon h) path vi m (stored_cursor (daemon h) path vi (stored_in w)) (content_of h path w')) ens \<and>
         (room_for (ho_env h) (rows_in w) ens \<and> takes_all tr n (pending_queue (mc_db w')) \<longrightarrow>
           (\<exists>chunks s. drain (handle_of (ho_env h)) tr n (mc_db w') net =
               Some (Inr (), n, s, net @ map body_for chunks) \<and>
              map pending_envelope (concat chunks) = map row_envelope (rows_in w) @ rendered (ho_env h) ens \<and>
              pending_queue s = [])))"
proof -
  obtain seq where seq: "seq_in w = Inr seq" using assms(1) by (auto simp: machine_calm_def)
  have tr: "tracked h w w" using assms(1) seq by (auto simp: tracked_def tracked_start)
  have dated: "tracked_daemon.dated h w path vi m"
    using assms(5) by (auto simp: tracked_daemon.dated_def content_of_def)
  have ready: "tracked_daemon.ready h w path vi st w"
    using tr assms(6,7) by (simp add: tracked_daemon.ready_def)
  have fits: "transcript_fits (content_of h path w)" "length (fl_bytes (content_of h path w)) \<le> 2 ^ 64" for w
    using assms(4) by (simp_all add: content_of_def transcript_fits_def less_imp_le)
  obtain st' w' where run: "ship_file (daemon h) vi path st w = Some (Inr Continue, st', w')"
    and left: "left_from (daemon h) path vi m (stored_cursor (daemon h) path vi (stored_in w')) (content_of h path w') = []"
    using tracked_daemon.ship_file_finishes [OF assms(2) _ fits(1) dated fits(2) ready] assms(3) by auto
  from tracked_daemon.ship_file_once [OF assms(2) _ fits(1) dated run ready] assms(3)
  have visited: "visited (daemon h) stored_in mc_taken (content_of h) path vi m w w'"
    and "tracked_daemon.ready h w path vi st' w'" by auto
  then have tr': "tracked h w w'" by (simp add: tracked_daemon.ready_def)
  from visited obtain new where new: "mc_taken w' = mc_taken w @ new" "list_all (\<lambda>em. em_device em = vi_device vi) new"
    "left_from (daemon h) path vi m (stored_cursor (daemon h) path vi (stored_in w)) (content_of h path w') = emitted_keys new"
    using left by (auto simp: visited_def)
  let ?device = "case vi_device vi of Some d \<Rightarrow> d | None \<Rightarrow> be_device (ho_env h)"
  have "list_all (\<lambda>em. device_of (ho_env h) em = ?device) new"
    using new(2) by (auto simp: list_all_iff device_of_def)
  note keys = sealed_emissions_keys [OF this, of seq, folded new(3)]
  have held: "machine_calm h w'" "holds h w seq new w'"
    using tr' seq new(1) by (auto simp: tracked_def tracked_from_def)
  have sent: "\<exists>chunks s. drain (handle_of (ho_env h)) tr n (mc_db w') net =
      Some (Inr (), n, s, net @ map body_for chunks) \<and>
      map pending_envelope (concat chunks) =
        map row_envelope (rows_in w) @ rendered (ho_env h) (sealed_emissions (ho_env h) seq new) \<and>
      pending_queue s = []"
    if "room_for (ho_env h) (rows_in w) (sealed_emissions (ho_env h) seq new)"
      and "takes_all tr n (pending_queue (mc_db w'))"
  proof -
    have "db_ok (mc_db w')" "calm_db (mc_db w')"
      using held(1) by (auto simp: db_ok_def calm_db_def machine_calm_def machine_ok_def)
    from calm_ship.drain_delivers [OF this that(2) assms(8), of "ho_env h" net]
    obtain chunks s where d: "drain (handle_of (ho_env h)) tr n (mc_db w') net =
        Some (Inr (), n, s, net @ map body_for chunks)"
      "concat chunks = pending_queue (mc_db w')" "pending_queue s = []" by blast
    moreover have "map pending_envelope (pending_queue (mc_db w')) = map row_envelope (rows_in w')"
      by (simp add: pending_queue_def pending_of_def)
    ultimately show ?thesis using held(2) that(1) by (auto simp: holds_def Let_def)
  qed
  show ?thesis
    using run new(1) seq keys sent by (intro exI [of _ st'] exI [of _ w'] exI [of _ new] exI [of _ seq]) (simp add: Let_def)
qed

subsection \<open>A sample\<close>

definition sample_shipment :: "(claude_state \<times> machine) option" where
  "sample_shipment =
     map_option snd (ship_file (daemon sample_host) (root_visit ''p'') sample_path claude_new (sample_machine []))"

lemma sample_shipment_queue:
  "map_option (\<lambda>(st, w). (map pending_envelope (pending_queue (mc_db w)),
       room_for (ho_env sample_host) [] (sealed_emissions (ho_env sample_host) 0 (mc_taken w)),
       rendered (ho_env sample_host) (sealed_emissions (ho_env sample_host) 0 (mc_taken w)))) sample_shipment =
     Some ([''1'', ''2''], True, [''1'', ''2''])"
  by code_simp

lemma sample_shipment_taken:
  assumes "map pending_envelope q = [''1'', ''2'']"
  shows "takes_all counting_transport 2 q"
proof -
  from assms obtain a b where q: "q = [a, b]" "pending_envelope a = ''1''" "pending_envelope b = ''2''"
    by (auto simp: map_eq_Cons_conv)
  have counts: "\<exists>resp rs. tr_post counting_transport (body_for c) w = (Inr resp, w @ [body_for c]) \<and>
      decide (tr_parse counting_transport) (hr_status resp) (hr_body resp) (length c) = DDelete rs"
    if "(length (body_for c) - 13) div 2 = length c" "length c \<le> 2" for c w
    using that by (simp add: counting_transport_def decide_def decide_accepted_def sat_add_def Let_def)
  have "(length (body_for (take 2 (drop i q))) - 13) div 2 = length (take 2 (drop i q))" if "i < 2" for i
  proof -
    from that have "i = 0 \<or> i = 1" by linarith
    then show ?thesis by (elim disjE) (simp_all add: q body_for_def)
  qed
  then show ?thesis unfolding takes_all_def q(1) by (intro allI impI counts) auto
qed

theorem transcript_reaches_service_witness:
  "\<exists>st w chunks s. sample_shipment = Some (st, w) \<and>
     drain (handle_of (ho_env sample_host)) counting_transport 2 (mc_db w) [] =
       Some (Inr (), 2, s, map body_for chunks) \<and>
     map pending_envelope (concat chunks) = [''1'', ''2''] \<and> pending_queue s = []"
proof -
  have since: "vi_since (root_visit ''p'') = None" by (simp add: root_visit_def)
  have sync: "in_sync (daemon sample_host) (stored_in (sample_machine [])) claude_new"
    by (simp add: in_sync_def claude_new_def)
  have two: "0 < (2::nat)" by simp
  note whole = transcript_reaches_service [OF sample_machine_calm sample_host_ok(2,3,4) disjI1 [OF since] sample_placed
      sync two, where path = sample_path and m = "Timestamp 9" and tr = counting_transport and net = "[]", unfolded Let_def]
  from whole obtain st w new seq where
    run: "ship_file (daemon sample_host) (root_visit ''p'') sample_path claude_new (sample_machine []) =
       Some (Inr Continue, st, w)" and
    new: "mc_taken w = mc_taken (sample_machine []) @ new" "seq_in (sample_machine []) = Inr seq" and
    sent: "room_for (ho_env sample_host) (rows_in (sample_machine [])) (sealed_emissions (ho_env sample_host) seq new) \<and>
         takes_all counting_transport 2 (pending_queue (mc_db w)) \<longrightarrow>
           (\<exists>chunks s. drain (handle_of (ho_env sample_host)) counting_transport 2 (mc_db w) [] =
               Some (Inr (), 2, s, [] @ map body_for chunks) \<and>
              map pending_envelope (concat chunks) =
                map row_envelope (rows_in (sample_machine [])) @
                  rendered (ho_env sample_host) (sealed_emissions (ho_env sample_host) seq new) \<and>
              pending_queue s = [])"
    by (elim exE conjE) (rule that, assumption+)
  have shipment: "sample_shipment = Some (st, w)" by (simp add: sample_shipment_def run)
  have start: "seq = 0" "rows_in (sample_machine []) = []" "new = mc_taken w"
    using new by (simp_all add: sample_machine_def parse_seq_empty) (simp add: empty_tables_def)
  have queue: "map pending_envelope (pending_queue (mc_db w)) = [''1'', ''2'']"
    and room: "room_for (ho_env sample_host) [] (sealed_emissions (ho_env sample_host) 0 (mc_taken w))"
    and texts: "rendered (ho_env sample_host) (sealed_emissions (ho_env sample_host) 0 (mc_taken w)) = [''1'', ''2'']"
    using sample_shipment_queue unfolding shipment by simp_all
  from sent [unfolded Let_def start list.map append_Nil] room sample_shipment_taken [OF queue] texts
  obtain chunks s where
    "drain (handle_of (ho_env sample_host)) counting_transport 2 (mc_db w) [] = Some (Inr (), 2, s, map body_for chunks)"
    "map pending_envelope (concat chunks) = [''1'', ''2'']" "pending_queue s = []"
    by metis
  with shipment show ?thesis by (intro exI conjI)
qed

end
