(* ===== verification/Float64.thy ===== *)
theory Float64
  imports Complex_Main Prelude
begin

text \<open>
  The arithmetic of \<open>f64\<close> on finite values. A finite \<open>f64\<close> is the rational it denotes and an
  operation is the exact one followed by \<open>rounded\<close>: to the nearest multiple of the unit in the last
  place, ties to even, with the subnormals' spacing near zero. Infinities, NaN and the sign of zero
  are not represented: the theories that use this read screen coordinates, and say so.
\<close>

fun bits :: "nat \<Rightarrow> nat" where
  "bits n = (if n = 0 then 0 else Suc (bits (n div 2)))"

declare bits.simps [simp del]

text \<open>The exponent: \<open>2 ^ e \<le> q < 2 ^ (e + 1)\<close> for a positive \<open>q\<close>.\<close>

definition binary_exponent :: "rat \<Rightarrow> int" where
  "binary_exponent q =
     (let (n, d) = quotient_of q; e = int (bits (nat n)) - int (bits (nat d))
      in if q < 2 powi e then e - 1 else e)"

definition unit_last_place :: "rat \<Rightarrow> rat" where
  "unit_last_place q = 2 powi (max (binary_exponent q - 52) (- 1074))"

definition nearest_even :: "rat \<Rightarrow> int" where
  "nearest_even m =
     (let f = \<lfloor>m\<rfloor>; r = m - of_int f
      in if r < 1 / 2 \<or> r = 1 / 2 \<and> even f then f else f + 1)"

definition rounded :: "rat \<Rightarrow> rat" where
  "rounded q =
     (if q = 0 then 0
      else let u = unit_last_place \<bar>q\<bar> in sgn q * of_int (nearest_even (\<bar>q\<bar> / u)) * u)"

lemma rounded_0 [simp]: "rounded 0 = 0"
  by (simp add: rounded_def)

lemma rounded_minus: "rounded (- q) = - rounded q"
  by (simp add: rounded_def Let_def sgn_minus)

subsection \<open>The exponent\<close>

lemma bits_bounds: "0 < n \<Longrightarrow> 2 ^ (bits n - 1) \<le> n \<and> n < 2 ^ bits n"
proof (induction n rule: bits.induct)
  case (1 n)
  show ?case
  proof (cases "n div 2 = 0")
    case True
    with 1 have "n = 1" by simp
    then show ?thesis by (simp add: bits.simps)
  next
    case False
    with 1 have ih: "2 ^ (bits (n div 2) - 1) \<le> n div 2" "n div 2 < 2 ^ bits (n div 2)" by auto
    obtain k where k: "bits (n div 2) = Suc k" using False bits.simps [of "n div 2"] by auto
    have "bits n = Suc (Suc k)" using 1 k bits.simps [of n] by simp
    with ih k show ?thesis by (auto simp: less_mult_imp_div_less)
  qed
qed

lemma binary_exponent_bounds:
  assumes "0 < q"
  shows "2 powi binary_exponent q \<le> q" "q < 2 powi (binary_exponent q + 1)"
proof -
  obtain n d where nd: "quotient_of q = (n, d)" by fastforce
  then have q: "q = of_int n / of_int d" by (rule quotient_of_div)
  have d: "0 < d" using nd by (rule quotient_of_denom_pos)
  then have n: "0 < n" using assms by (simp add: q zero_less_divide_iff)
  let ?a = "bits (nat n)" and ?b = "bits (nat d)"
  define e where "e = int ?a - int ?b"
  have a: "(2 :: nat) ^ (?a - 1) \<le> nat n" "nat n < 2 ^ ?a" "0 < ?a"
    using bits_bounds [of "nat n"] n by (auto simp: bits.simps [of "nat n"])
  have b: "(2 :: nat) ^ (?b - 1) \<le> nat d" "nat d < 2 ^ ?b" "0 < ?b"
    using bits_bounds [of "nat d"] d by (auto simp: bits.simps [of "nat d"])
  have cast: "(of_nat (nat n) :: rat) = of_int n" "(of_nat (nat d) :: rat) = of_int d"
    using n d by simp_all
  have power: "(of_nat (2 ^ k) :: rat) = 2 ^ k" for k by simp
  have le: "(of_nat x :: rat) \<le> of_nat y" if "x \<le> y" for x y using that by simp
  have lt: "(of_nat x :: rat) < of_nat y" if "x < y" for x y using that by simp
  have ra: "(2 :: rat) ^ (?a - 1) \<le> of_int n" "(of_int n :: rat) < 2 ^ ?a"
    using le [OF a(1)] lt [OF a(2)] unfolding cast power .
  have rb: "(2 :: rat) ^ (?b - 1) \<le> of_int d" "(of_int d :: rat) < 2 ^ ?b"
    using le [OF b(1)] lt [OF b(2)] unfolding cast power .
  have pos: "(0 :: rat) < of_int d" "(0 :: rat) \<le> of_int n" using n d by simp_all
  have "q < 2 powi (e + 1)"
  proof -
    have "q < 2 ^ ?a / 2 ^ (?b - 1)"
      unfolding q using ra rb pos by (intro frac_less) auto
    also have "\<dots> = 2 powi (int ?a - int (?b - 1))"
      by (simp add: power_int_diff)
    finally show ?thesis using b(3) by (simp add: e_def of_nat_diff algebra_simps)
  qed
  moreover have "2 powi (e - 1) \<le> q"
  proof -
    have "2 powi (e - 1) = (2 :: rat) ^ (?a - 1) / 2 ^ ?b"
    proof -
      have "e - 1 = int (?a - 1) - int ?b" using a(3) by (simp add: e_def of_nat_diff)
      then show ?thesis by (simp add: power_int_diff)
    qed
    also have "\<dots> \<le> q"
      unfolding q using ra rb pos by (intro frac_le) auto
    finally show ?thesis .
  qed
  ultimately show "2 powi binary_exponent q \<le> q" "q < 2 powi (binary_exponent q + 1)"
    by (auto simp: binary_exponent_def nd Let_def simp flip: e_def)
qed


lemma binary_exponent_less:
  assumes "0 < q" "q < 2 powi k"
  shows "binary_exponent q < k"
proof (rule ccontr)
  assume "\<not> binary_exponent q < k"
  then have "(2 :: rat) powi k \<le> 2 powi binary_exponent q" by (intro power_int_increasing) auto
  then show False using binary_exponent_bounds(1) [OF assms(1)] assms(2) by linarith
qed

lemma binary_exponent_ge:
  assumes "2 powi k \<le> q"
  shows "k \<le> binary_exponent q"
proof (rule ccontr)
  assume "\<not> k \<le> binary_exponent q"
  then have "(2 :: rat) powi (binary_exponent q + 1) \<le> 2 powi k" by (intro power_int_increasing) auto
  moreover have "0 < q" using assms zero_less_power_int [of "2 :: rat" k] by linarith
  ultimately show False using binary_exponent_bounds(2) [of q] assms by linarith
qed

subsection \<open>Rounding\<close>

lemma unit_last_place_pos: "0 < unit_last_place q"
  by (simp add: unit_last_place_def)

lemma rounded_pos_eq: "0 < q \<Longrightarrow> rounded q = of_int (nearest_even (q / unit_last_place q)) * unit_last_place q"
  by (simp add: rounded_def Let_def)

lemma nearest_even_error: "\<bar>of_int (nearest_even m) - m\<bar> \<le> 1 / 2"
proof -
  have "of_int \<lfloor>m\<rfloor> \<le> m" "m < of_int \<lfloor>m\<rfloor> + 1" by linarith+
  then show ?thesis by (auto simp: nearest_even_def Let_def abs_le_iff field_simps; linarith)
qed

lemma nearest_even_below:
  assumes "0 \<le> r" "r < 1 / 2"
  shows "nearest_even (of_int k + r) = k"
proof -
  have "\<lfloor>of_int k + r\<rfloor> = k" using assms by linarith
  then show ?thesis using assms by (simp add: nearest_even_def)
qed

lemma rounded_error:
  assumes "0 < q"
  shows "\<bar>rounded q - q\<bar> \<le> unit_last_place q / 2"
proof -
  let ?u = "unit_last_place q"
  have u: "0 < ?u" by (rule unit_last_place_pos)
  have "rounded q - q = (of_int (nearest_even (q / ?u)) - q / ?u) * ?u"
    using assms u by (simp add: rounded_pos_eq left_diff_distrib)
  then have "\<bar>rounded q - q\<bar> = \<bar>of_int (nearest_even (q / ?u)) - q / ?u\<bar> * ?u"
    using u by (simp add: abs_mult)
  also have "\<dots> \<le> (1 / 2) * ?u"
    using u nearest_even_error [of "q / ?u"] by (intro mult_right_mono) auto
  finally show ?thesis by simp
qed

lemma unit_last_place_integer:
  assumes "1 \<le> q" "q < 2 ^ 53"
  obtains k where "k \<le> 52" "unit_last_place q = 1 / 2 ^ k"
    "2 ^ (52 - k) \<le> q" "q < 2 ^ Suc (52 - k)"
proof -
  have q: "0 < q" using assms by linarith
  let ?e = "binary_exponent q"
  have lo: "0 \<le> ?e" using assms(1) by (intro binary_exponent_ge) simp
  have "q < 2 powi 53" using assms(2) by (simp add: power_int_def)
  then have hi: "?e < 53" by (rule binary_exponent_less [OF q])
  let ?k = "52 - nat ?e"
  show thesis
  proof
    show "?k \<le> 52" by simp
    have "max (?e - 52) (- 1074) = - int ?k" using lo hi by linarith
    then show "unit_last_place q = 1 / 2 ^ ?k"
      by (simp only: unit_last_place_def power_int_minus power_int_of_nat inverse_eq_divide)
    have k: "int (52 - ?k) = ?e" "int (Suc (52 - ?k)) = ?e + 1" using lo hi by linarith+
    have "2 powi int (52 - ?k) \<le> q" "q < 2 powi int (Suc (52 - ?k))"
      unfolding k(1) k(2) by (rule binary_exponent_bounds [OF q])+
    then show "2 ^ (52 - ?k) \<le> q" "q < 2 ^ Suc (52 - ?k)"
      unfolding power_int_of_nat .
  qed
qed

text \<open>An integer that fits the significand is exact, and so is what lies close enough above it.\<close>

lemma rounded_above_integer:
  assumes "1 \<le> i" "i < 2 ^ 53" "0 \<le> d" "d \<le> 1 / 2 ^ 54"
  shows "rounded (of_int i * (1 + d)) = of_int i"
proof -
  let ?q = "of_int i * (1 + d) :: rat"
  have i: "(1 :: rat) \<le> of_int i" using assms(1) by linarith
  have i53: "of_int i \<le> (2 :: rat) ^ 53 - 1"
  proof -
    have "i \<le> 2 ^ 53 - 1" using assms(2) by simp
    then have "(of_int i :: rat) \<le> of_int (2 ^ 53 - 1)" by (simp only: of_int_le_iff)
    then show ?thesis by simp
  qed
  have ge: "of_int i \<le> ?q" using i assms(3) by (simp add: algebra_simps)
  have "?q \<le> of_int i * (1 + 1 / 2 ^ 54)" using i assms(4) by (intro mult_left_mono) auto
  also have "\<dots> \<le> of_int i + ((2 :: rat) ^ 53) / 2 ^ 54"
    using i53 by (simp add: algebra_simps)
  finally have le: "?q < 2 ^ 53" using i53 by simp
  have q1: "1 \<le> ?q" using ge i by linarith
  obtain k where k: "k \<le> 52" "unit_last_place ?q = 1 / 2 ^ k" "2 ^ (52 - k) \<le> ?q" "?q < 2 ^ Suc (52 - k)"
    using unit_last_place_integer [OF q1 le] by blast
  have eq: "?q / (1 / 2 ^ k) = of_int (i * 2 ^ k) + of_int i * d * 2 ^ k"
    by (simp add: algebra_simps)
  have "of_int i < (2 :: rat) ^ Suc (52 - k)" using ge k(4) by linarith
  then have "of_int i * 2 ^ k < (2 :: rat) ^ Suc (52 - k) * 2 ^ k" by simp
  also have "\<dots> = 2 ^ 53" using k(1) by (simp flip: power_Suc power_add)
  finally have small: "of_int i * 2 ^ k < (2 :: rat) ^ 53" .
  have "of_int i * d * 2 ^ k = (of_int i * 2 ^ k) * d" by simp
  also have "\<dots> \<le> (of_int i * 2 ^ k) * (1 / 2 ^ 54)"
    using i assms(4) by (intro mult_left_mono) auto
  also have "\<dots> < 2 ^ 53 * (1 / 2 ^ 54)" using small by (intro mult_strict_right_mono) auto
  finally have r: "of_int i * d * 2 ^ k < 1 / 2" by simp
  have "0 \<le> of_int i * d * 2 ^ k" using i assms(3) by simp
  from nearest_even_below [OF this r] have "nearest_even (?q / (1 / 2 ^ k)) = i * 2 ^ k"
    unfolding eq .
  moreover have "0 < ?q" using q1 by linarith
  ultimately show ?thesis by (simp add: rounded_pos_eq k(2))
qed

lemma rounded_of_int: "\<bar>i\<bar> < 2 ^ 53 \<Longrightarrow> rounded (of_int i) = of_int i"
proof -
  assume i: "\<bar>i\<bar> < 2 ^ 53"
  consider "i = 0" | "1 \<le> i" | "1 \<le> - i" by linarith
  then show ?thesis
  proof cases
    case 2
    with i rounded_above_integer [of i 0] show ?thesis by simp
  next
    case 3
    with i rounded_above_integer [of "- i" 0] show ?thesis by (simp add: rounded_minus)
  qed simp
qed

text \<open>The error below \<open>2 ^ 48\<close> is at most a thirty-second part.\<close>

lemma rounded_error_32:
  assumes q: "0 < q" and less: "q < 2 ^ 48"
  shows "\<bar>rounded q - q\<bar> \<le> 1 / 32"
proof -
  have "q < 2 powi 48" using less by (simp add: power_int_def)
  then have "binary_exponent q < 48" by (rule binary_exponent_less [OF q])
  then have "unit_last_place q \<le> 2 powi (- 5)"
    unfolding unit_last_place_def by (intro power_int_increasing) auto
  also have "(2 :: rat) powi (- 5) = 1 / 32" by (simp add: power_int_minus)
  finally have "unit_last_place q / 2 \<le> 1 / 32" by simp
  with rounded_error [OF q] show ?thesis by linarith
qed

end
