(* ===== verification/Screen.thy ===== *)
theory Screen
  imports Float64
begin

text \<open>
  What is on the screen: \<open>src/src/macos/window_list.rs\<close> (rectangles, the window list, the frontmost
  application), \<open>src/src/window/visibility.rs\<close> (which windows are visible, and on which display) and
  the pure parts of \<open>src/src/macos/activity.rs\<close> and \<open>src/src/macos/screen.rs\<close> (input counters, idle
  time, the display under the cursor, displays asleep). The calls into macOS that fill these values
  are parameters: what a dictionary of the window server holds is a \<open>raw_window\<close>, and the application
  of a process is a function of its id.
\<close>

subsection \<open>Rectangles\<close>

record rect =
  rx :: rat
  ry :: rat
  rwidth :: rat
  rheight :: rat

definition area :: "rect \<Rightarrow> rat" where
  "area r = rounded (max (rwidth r) 0 * max (rheight r) 0)"

definition intersection_area :: "rect \<Rightarrow> rect \<Rightarrow> rat" where
  "intersection_area r other =
     (let left = max (rx r) (rx other);
          right = min (rounded (rx r + rwidth r)) (rounded (rx other + rwidth other));
          top = max (ry r) (ry other);
          bottom = min (rounded (ry r + rheight r)) (rounded (ry other + rheight other));
          width = rounded (right - left);
          height = rounded (bottom - top)
      in if width \<le> 0 \<or> height \<le> 0 then 0 else rounded (width * height))"

definition contains_point :: "rect \<Rightarrow> rat \<Rightarrow> rat \<Rightarrow> bool" where
  "contains_point r x y \<longleftrightarrow>
     rx r \<le> x \<and> x < rounded (rx r + rwidth r) \<and> ry r \<le> y \<and> y < rounded (ry r + rheight r)"

subsection \<open>The window list\<close>

record window_entry =
  owner_pid :: int
  owner_name :: string
  window_number :: nat
  bounds :: rect
  layer :: int
  wz :: nat

record display_entry =
  display_index :: nat
  display_bounds :: rect

record running_application =
  app_pid :: int
  app_name :: "string option"
  app_bundle :: "string option"

text \<open>The entries of a dictionary of the window server that can be read as what they should be.\<close>

record raw_window =
  raw_pid :: "int option"
  raw_number :: "int option"
  raw_layer :: "int option"
  raw_bounds :: "rect option"
  raw_owner :: "string option"

text \<open>The casts \<open>as i32\<close> and \<open>as u32\<close> of an \<open>i64\<close>.\<close>

definition as_i32 :: "int \<Rightarrow> int" where
  "as_i32 i = sint (word_of_int i :: 32 word)"

definition as_u32 :: "int \<Rightarrow> nat" where
  "as_u32 i = unat (word_of_int i :: 32 word)"

definition window_entry_from :: "raw_window \<Rightarrow> nat \<Rightarrow> window_entry option" where
  "window_entry_from entry z =
     Option.bind (raw_pid entry) (\<lambda>pid.
     Option.bind (raw_number entry) (\<lambda>number.
     Option.bind (raw_layer entry) (\<lambda>lay.
     Option.bind (raw_bounds entry) (\<lambda>b.
       Some \<lparr>owner_pid = as_i32 pid,
             owner_name = (case raw_owner entry of None \<Rightarrow> [] | Some s \<Rightarrow> s),
             window_number = as_u32 number, bounds = b, layer = as_i32 lay, wz = z\<rparr>))))"

text \<open>An entry of the list that is missing or no dictionary is \<open>None\<close>; \<open>z\<close> counts it all the same.\<close>

fun windows_from :: "nat \<Rightarrow> raw_window option list \<Rightarrow> window_entry list" where
  "windows_from z [] = []"
| "windows_from z (e # es) =
     (case Option.bind e (\<lambda>entry. window_entry_from entry z) of
        None \<Rightarrow> windows_from (Suc z) es
      | Some w \<Rightarrow> w # windows_from (Suc z) es)"

definition windows_matching :: "raw_window option list option \<Rightarrow> window_entry list" where
  "windows_matching entries = (case entries of None \<Rightarrow> [] | Some es \<Rightarrow> windows_from 0 es)"

definition max_displays :: nat where "max_displays = 32"

text \<open>The active displays: a status, and the bounds the ids of the filled buffer stand for.\<close>

definition display_list :: "int \<Rightarrow> rect list \<Rightarrow> display_entry list" where
  "display_list status found =
     (if status \<noteq> 0 then []
      else map (\<lambda>(i, b). \<lparr>display_index = i, display_bounds = b\<rparr>)
             (zip [0 ..< max_displays] (take max_displays found)))"

subsection \<open>The frontmost application\<close>

definition lock_screen_bundle_id :: string where
  "lock_screen_bundle_id = ''com.apple.loginwindow''"

definition is_lock_screen :: "running_application \<Rightarrow> bool" where
  "is_lock_screen a = (case app_bundle a of Some b \<Rightarrow> b = lock_screen_bundle_id | None \<Rightarrow> False)"

definition is_application :: "running_application \<Rightarrow> bool" where
  "is_application a = (case app_bundle a of Some b \<Rightarrow> b \<noteq> [] | None \<Rightarrow> False)"

fun owns_ordinary_window :: "window_entry list \<Rightarrow> int \<Rightarrow> bool" where
  "owns_ordinary_window [] pid = False"
| "owns_ordinary_window (w # ws) pid =
     (if layer w = 0 \<and> owner_pid w = pid then True else owns_ordinary_window ws pid)"

definition focused_of ::
  "int option \<Rightarrow> window_entry list \<Rightarrow> (int \<Rightarrow> running_application option) \<Rightarrow> running_application option" where
  "focused_of focused_pid windows application_of =
     (case focused_pid of
        None \<Rightarrow> None
      | Some pid \<Rightarrow>
          (case application_of pid of
             None \<Rightarrow>
               if \<not> owns_ordinary_window windows pid then None
               else Some \<lparr>app_pid = pid, app_name = None, app_bundle = None\<rparr>
           | Some a \<Rightarrow> if is_lock_screen a then None else Some a))"

fun front_by_layer ::
  "(int \<Rightarrow> running_application option) \<Rightarrow> window_entry list \<Rightarrow> running_application option" where
  "front_by_layer application_of [] = None"
| "front_by_layer application_of (w # ws) =
     (if layer w \<noteq> 0 then front_by_layer application_of ws
      else case application_of (owner_pid w) of
             None \<Rightarrow> front_by_layer application_of ws
           | Some a \<Rightarrow>
               if \<not> is_application a \<or> is_lock_screen a then front_by_layer application_of ws
               else Some a)"

definition frontmost_of ::
  "int option \<Rightarrow> window_entry list \<Rightarrow> (int \<Rightarrow> running_application option) \<Rightarrow> running_application option" where
  "frontmost_of focused_pid windows application_of =
     (case focused_of focused_pid windows application_of of
        Some a \<Rightarrow> Some a
      | None \<Rightarrow> front_by_layer application_of windows)"

subsection \<open>Visible windows\<close>

text \<open>The \<open>f64\<close> literal \<open>0.2\<close>.\<close>

definition visible_area_fraction :: rat where
  "visible_area_fraction = rounded (1 / 5)"

record visible_window =
  vw_window :: window_entry
  vw_display :: nat

definition better_display :: "rat \<Rightarrow> rect \<Rightarrow> (nat \<times> rat) option \<Rightarrow> display_entry \<Rightarrow> (nat \<times> rat) option" where
  "better_display threshold b best d =
     (let overlap = intersection_area b (display_bounds d)
      in if overlap < threshold then best
         else case best of
                None \<Rightarrow> Some (display_index d, overlap)
              | Some (best_index, best_overlap) \<Rightarrow>
                  if best_overlap < overlap \<or> overlap = best_overlap \<and> display_index d < best_index
                  then Some (display_index d, overlap) else best)"

definition best_display :: "rect \<Rightarrow> display_entry list \<Rightarrow> nat option" where
  "best_display b displays =
     (if area b \<le> 0 then None
      else map_option fst (foldl (better_display (rounded (area b * visible_area_fraction)) b) None displays))"

fun visible_windows :: "window_entry list \<Rightarrow> display_entry list \<Rightarrow> visible_window list" where
  "visible_windows [] displays = []"
| "visible_windows (w # ws) displays =
     (if layer w \<noteq> 0 then visible_windows ws displays
      else case best_display (bounds w) displays of
             None \<Rightarrow> visible_windows ws displays
           | Some d \<Rightarrow> \<lparr>vw_window = w, vw_display = d\<rparr> # visible_windows ws displays)"

subsection \<open>Activity\<close>

record input_counters =
  ic_keys :: "32 word"
  ic_mouse :: "32 word"

definition no_input :: input_counters where
  "no_input = \<lparr>ic_keys = 0, ic_mouse = 0\<rparr>"

text \<open>The sum of the four mouse counters, \<open>wrapping_add\<close>.\<close>

definition input_counters_of :: "32 word \<Rightarrow> 32 word list \<Rightarrow> input_counters" where
  "input_counters_of keys mice = \<lparr>ic_keys = keys, ic_mouse = foldl (+) 0 mice\<rparr>"

text \<open>\<open>InputCounterTracker::advance\<close>: the tracker holds the counters it saw last.\<close>

definition advance :: "input_counters option \<Rightarrow> input_counters \<Rightarrow> input_counters \<times> input_counters option" where
  "advance previous current =
     (case previous of
        None \<Rightarrow> (no_input, Some current)
      | Some p \<Rightarrow>
          (\<lparr>ic_keys = ic_keys current - ic_keys p, ic_mouse = ic_mouse current - ic_mouse p\<rparr>,
           Some current))"

fun display_index_at :: "rat \<Rightarrow> rat \<Rightarrow> display_entry list \<Rightarrow> nat option" where
  "display_index_at x y [] = None"
| "display_index_at x y (d # ds) =
     (if contains_point (display_bounds d) x y then Some (display_index d) else display_index_at x y ds)"

text \<open>Seconds since the last input, \<open>None\<close> when not finite; \<open>as i64\<close> saturates.\<close>

definition truncate_idle :: "rat option \<Rightarrow> int" where
  "truncate_idle seconds =
     (case seconds of
        None \<Rightarrow> 0
      | Some s \<Rightarrow> if s \<le> 0 then 0 else min \<lfloor>s\<rfloor> (2 ^ 63 - 1))"

definition all_asleep :: "bool list \<Rightarrow> bool" where
  "all_asleep states \<longleftrightarrow> states \<noteq> [] \<and> list_all (\<lambda>asleep. asleep) states"

text \<open>The default input device, if any, and whether a device is running somewhere, if it says.\<close>

definition microphone_active :: "nat option \<Rightarrow> (nat \<Rightarrow> nat option) \<Rightarrow> bool" where
  "microphone_active device running =
     (case device of
        None \<Rightarrow> False
      | Some d \<Rightarrow> (case running d of None \<Rightarrow> False | Some r \<Rightarrow> r \<noteq> 0))"

text \<open>The session dictionary, if there is one, and its lock flag, if it has a boolean there.\<close>

definition locked_in :: "bool option \<Rightarrow> bool" where
  "locked_in flag = (case flag of None \<Rightarrow> False | Some b \<Rightarrow> b)"

definition screen_locked :: "bool option option \<Rightarrow> bool" where
  "screen_locked session = (case session of None \<Rightarrow> False | Some flag \<Rightarrow> locked_in flag)"

definition display_sleep_states :: "int \<Rightarrow> bool list \<Rightarrow> bool list" where
  "display_sleep_states status found = (if status \<noteq> 0 then [] else take max_displays found)"

definition displays_asleep :: "int \<Rightarrow> bool list \<Rightarrow> bool" where
  "displays_asleep status found = all_asleep (display_sleep_states status found)"

end
