(* ===== verification/Screen_Props.thy ===== *)
theory Screen_Props
  imports Screen
begin

text \<open>
  What the floating point decisions of \<open>Screen\<close> come to on real screens, whose coordinates are whole
  points: the overlap of a window with a display is exact, and the comparison with a fifth of its
  area is the exact one although \<open>0.2\<close> is not.
\<close>

subsection \<open>Whole coordinates\<close>

definition whole :: "int \<Rightarrow> rat \<Rightarrow> bool" where
  "whole k q \<longleftrightarrow> of_int \<lfloor>q\<rfloor> = q \<and> \<bar>\<lfloor>q\<rfloor>\<bar> \<le> k"

lemma whole_iff: "whole k q \<longleftrightarrow> (\<exists>i. q = of_int i \<and> \<bar>i\<bar> \<le> k)"
  by (auto simp: whole_def)

lemma wholeE:
  assumes "whole k q"
  obtains i where "q = of_int i" "\<bar>i\<bar> \<le> k"
  using assms by (auto simp: whole_iff)

lemma whole_rounded: "whole k q \<Longrightarrow> k < 2 ^ 53 \<Longrightarrow> rounded q = q"
  by (auto simp: whole_iff intro!: rounded_of_int)

lemma whole_add: "whole k p \<Longrightarrow> whole l q \<Longrightarrow> whole (k + l) (p + q)"
  unfolding whole_iff by (elim exE conjE, rule_tac x = "i + ia" in exI) auto

lemma whole_diff: "whole k p \<Longrightarrow> whole l q \<Longrightarrow> whole (k + l) (p - q)"
  unfolding whole_iff by (elim exE conjE, rule_tac x = "i - ia" in exI) auto

lemma whole_max: "whole k p \<Longrightarrow> whole k q \<Longrightarrow> whole k (max p q)"
  by (simp add: max_def)

lemma whole_min: "whole k p \<Longrightarrow> whole k q \<Longrightarrow> whole k (min p q)"
  by (simp add: min_def)

lemma whole_mult: "whole k p \<Longrightarrow> whole l q \<Longrightarrow> whole (k * l) (p * q)"
  unfolding whole_iff
  by (elim exE conjE, rule_tac x = "i * ia" in exI) (auto simp: abs_mult intro!: mult_mono')

definition screen_rect :: "rect \<Rightarrow> bool" where
  "screen_rect r \<longleftrightarrow>
     whole (2 ^ 20) (rx r) \<and> whole (2 ^ 20) (ry r) \<and> whole (2 ^ 20) (rwidth r) \<and> whole (2 ^ 20) (rheight r)"

definition exact_area :: "rect \<Rightarrow> rat" where
  "exact_area r = max (rwidth r) 0 * max (rheight r) 0"

definition exact_overlap :: "rect \<Rightarrow> rect \<Rightarrow> rat" where
  "exact_overlap r s =
     max 0 (min (rx r + rwidth r) (rx s + rwidth s) - max (rx r) (rx s)) *
     max 0 (min (ry r + rheight r) (ry s + rheight s) - max (ry r) (ry s))"

lemma area_exact:
  assumes "screen_rect r"
  shows "area r = exact_area r" "whole (2 ^ 40) (area r)"
proof -
  have "whole (2 ^ 20 * 2 ^ 20) (max (rwidth r) 0 * max (rheight r) 0)"
    using assms by (intro whole_mult whole_max) (auto simp: screen_rect_def whole_def)
  then have w: "whole (2 ^ 40) (max (rwidth r) 0 * max (rheight r) 0)" by simp
  then show e: "area r = exact_area r" by (simp add: area_def exact_area_def whole_rounded)
  show "whole (2 ^ 40) (area r)" using w by (simp add: e exact_area_def)
qed

lemma whole_end: "screen_rect r \<Longrightarrow> whole (2 ^ 21) (rx r + rwidth r) \<and> whole (2 ^ 21) (ry r + rheight r)"
  using whole_add [of "2 ^ 20" "rx r" "2 ^ 20" "rwidth r"] whole_add [of "2 ^ 20" "ry r" "2 ^ 20" "rheight r"]
  by (simp add: screen_rect_def)

lemma whole_mono: "whole k q \<Longrightarrow> k \<le> l \<Longrightarrow> whole l q"
  by (auto simp: whole_def)

lemma overlap_exact:
  assumes r: "screen_rect r" and s: "screen_rect s"
  shows "intersection_area r s = exact_overlap r s" "whole (2 ^ 44) (intersection_area r s)"
proof -
  let ?w = "min (rx r + rwidth r) (rx s + rwidth s) - max (rx r) (rx s)"
  let ?h = "min (ry r + rheight r) (ry s + rheight s) - max (ry r) (ry s)"
  have ends: "whole (2 ^ 21) (rx r + rwidth r)" "whole (2 ^ 21) (rx s + rwidth s)"
    "whole (2 ^ 21) (ry r + rheight r)" "whole (2 ^ 21) (ry s + rheight s)"
    using whole_end r s by auto
  have starts: "whole (2 ^ 21) (rx r)" "whole (2 ^ 21) (rx s)" "whole (2 ^ 21) (ry r)" "whole (2 ^ 21) (ry s)"
    using r s by (auto simp: screen_rect_def intro: whole_mono)
  have diff: "whole (2 ^ 22) (p - q)" if "whole (2 ^ 21) p" "whole (2 ^ 21) q" for p q
    using whole_diff [OF that] by simp
  have w: "whole (2 ^ 22) ?w" and h: "whole (2 ^ 22) ?h"
    by (intro diff whole_min whole_max ends starts)+
  have p: "whole (2 ^ 44) (?w * ?h)" using whole_mult [OF w h] by simp
  have rw: "rounded ?w = ?w" and rh: "rounded ?h = ?h"
    by (rule whole_rounded [OF w], simp, rule whole_rounded [OF h], simp)
  have rp: "rounded (?w * ?h) = ?w * ?h" by (rule whole_rounded [OF p]) simp
  have re: "rounded (rx r + rwidth r) = rx r + rwidth r" "rounded (rx s + rwidth s) = rx s + rwidth s"
    "rounded (ry r + rheight r) = ry r + rheight r" "rounded (ry s + rheight s) = ry s + rheight s"
    using ends [THEN whole_rounded] by simp_all
  have eq: "intersection_area r s = (if ?w \<le> 0 \<or> ?h \<le> 0 then 0 else ?w * ?h)"
    unfolding intersection_area_def Let_def re rw rh rp ..
  have prod: "(if a \<le> 0 \<or> b \<le> 0 then 0 else a * b) = max 0 a * max 0 b" for a b :: rat
    by (simp add: max_def)
  show "intersection_area r s = exact_overlap r s"
    unfolding eq prod exact_overlap_def ..
  have "whole (2 ^ 44) (0 :: rat)" by (simp add: whole_def)
  then show "whole (2 ^ 44) (intersection_area r s)" using p unfolding eq by (simp only: split: if_split) simp
qed

subsection \<open>The threshold\<close>

lemma fraction_value: "visible_area_fraction = 3602879701896397 / 2 ^ 54"
  by code_simp

lemma five_fractions: "5 * visible_area_fraction = 1 + 1 / 2 ^ 54"
  by (simp add: fraction_value)

lemma threshold_exact:
  assumes a: "0 < a" "a \<le> 2 ^ 40" and v: "0 \<le> v" "v \<le> 2 ^ 44"
  shows "of_int v < rounded (of_int a * visible_area_fraction) \<longleftrightarrow> 5 * v < a"
proof -
  let ?c = visible_area_fraction
  let ?q = "of_int a * ?c"
  have c: "1 / 5 < ?c" "?c < 201 / 1000" by (simp_all add: fraction_value)
  have a': "(0 :: rat) < of_int a" "(of_int a :: rat) \<le> 2 ^ 40"
    using a of_int_le_iff [where ?'a = rat, of a "2 ^ 40"] by simp_all
  have q: "0 < ?q" using a' c by simp
  have "?q \<le> of_int a * 1" using a' c by (intro mult_left_mono) auto
  also have "\<dots> < 2 ^ 48" using a'(2) by simp
  finally have q48: "?q < 2 ^ 48" .
  have err: "\<bar>rounded ?q - ?q\<bar> \<le> 1 / 32" by (rule rounded_error_32 [OF q q48])
  consider "5 * v < a" | "5 * v = a" | "a < 5 * v" by linarith
  then show ?thesis
  proof cases
    case 1
    then have "of_int (5 * v + 1) \<le> (of_int a :: rat)" by (simp only: of_int_le_iff)
    then have "(5 * of_int v + 1) * (1 / 5) \<le> (of_int a :: rat) * (1 / 5)" by simp
    also have "\<dots> \<le> ?q" using a' c by (intro mult_left_mono) auto
    finally have "of_int v + 1 / 5 \<le> ?q" by simp
    with 1 err show ?thesis by linarith
  next
    case 2
    then have "?q = of_int v * (5 * ?c)" by (auto simp: algebra_simps)
    moreover have "rounded (of_int v * (1 + 1 / 2 ^ 54)) = of_int v"
      by (rule rounded_above_integer) (use 2 a v in simp_all)
    ultimately have "rounded ?q = of_int v" by (simp only: five_fractions)
    with 2 show ?thesis by simp
  next
    case 3
    then have "of_int a \<le> (of_int (5 * v - 1) :: rat)" by (simp only: of_int_le_iff)
    then have "?q \<le> (5 * of_int v - 1) * ?c" using c by (intro mult_right_mono) auto
    also have "\<dots> = of_int v * (5 * ?c) - ?c" by (simp add: algebra_simps)
    also have "\<dots> = of_int v + of_int v / 2 ^ 54 - ?c" by (simp only: five_fractions) (simp add: algebra_simps)
    finally have le: "?q \<le> of_int v + of_int v / 2 ^ 54 - ?c" .
    have "(of_int v :: rat) \<le> 2 ^ 44" using v(2) of_int_le_iff [where ?'a = rat, of v "2 ^ 44"] by simp
    then have "(of_int v :: rat) / 2 ^ 54 \<le> 1 / 1024" by simp
    with le err c have "rounded ?q \<le> of_int v" by linarith
    with 3 show ?thesis by linarith
  qed
qed


subsection \<open>The display of a window\<close>

definition largest_overlap :: "(display_entry \<Rightarrow> rat) \<Rightarrow> (display_entry \<Rightarrow> bool) \<Rightarrow> display_entry list \<Rightarrow> nat \<Rightarrow> bool" where
  "largest_overlap ov enough ds i \<longleftrightarrow>
     (\<exists>d\<in>set ds. display_index d = i \<and> enough d \<and>
        (\<forall>e\<in>set ds. enough e \<longrightarrow> ov e < ov d \<or> ov e = ov d \<and> i \<le> display_index e))"

lemma best_display_fold:
  fixes b :: rect and t :: rat
  defines "ov \<equiv> \<lambda>d. intersection_area b (display_bounds d)"
  shows "case foldl (better_display t b) None ds of
           None \<Rightarrow> \<forall>d\<in>set ds. ov d < t
         | Some (i, v) \<Rightarrow>
             \<exists>d\<in>set ds. display_index d = i \<and> ov d = v \<and> \<not> ov d < t \<and>
               (\<forall>e\<in>set ds. \<not> ov e < t \<longrightarrow> ov e < v \<or> ov e = v \<and> i \<le> display_index e)"
proof (induction ds rule: rev_induct)
  case (snoc d ds)
  let ?best = "foldl (better_display t b) None ds"
  have step: "foldl (better_display t b) None (ds @ [d]) =
      (if ov d < t then ?best
       else case ?best of None \<Rightarrow> Some (display_index d, ov d)
            | Some (i, v) \<Rightarrow>
                if v < ov d \<or> ov d = v \<and> display_index d < i then Some (display_index d, ov d) else ?best)"
    unfolding foldl_append foldl_Cons foldl_Nil better_display_def [of t b ?best] Let_def ov_def ..
  show ?case
  proof (cases ?best)
    case None
    with snoc show ?thesis unfolding step by auto
  next
    case (Some iv)
    obtain i v where iv: "iv = (i, v)" by fastforce
    from snoc Some iv obtain d0 where d0: "d0 \<in> set ds" "display_index d0 = i" "ov d0 = v" "\<not> v < t"
      and best: "\<And>e. e \<in> set ds \<Longrightarrow> \<not> ov e < t \<Longrightarrow> ov e < v \<or> ov e = v \<and> i \<le> display_index e"
      by auto
    show ?thesis
    proof (cases "\<not> ov d < t \<and> (v < ov d \<or> ov d = v \<and> display_index d < i)")
      case True
      then have "foldl (better_display t b) None (ds @ [d]) = Some (display_index d, ov d)"
        unfolding step by (auto simp: Some iv)
      moreover have "ov e < ov d \<or> ov e = ov d \<and> display_index d \<le> display_index e"
        if "e \<in> set (ds @ [d])" "\<not> ov e < t" for e
        using that best [of e] True by auto
      ultimately show ?thesis using True by auto
    next
      case False
      then have "foldl (better_display t b) None (ds @ [d]) = Some (i, v)"
        unfolding step by (auto simp: Some iv)
      moreover have "ov e < v \<or> ov e = v \<and> i \<le> display_index e"
        if "e \<in> set (ds @ [d])" "\<not> ov e < t" for e
        using that best [of e] False by auto
      ultimately show ?thesis using d0 by auto
    qed
  qed
qed simp

text \<open>The reference: which display shows a window, by exact areas.\<close>

definition shows_window :: "rect \<Rightarrow> display_entry \<Rightarrow> bool" where
  "shows_window b d \<longleftrightarrow> exact_area b \<le> 5 * exact_overlap b (display_bounds d)"

lemma best_display_exact:
  assumes b: "screen_rect b" and ds: "\<forall>d\<in>set ds. screen_rect (display_bounds d)"
  shows "case best_display b ds of
           None \<Rightarrow> exact_area b \<le> 0 \<or> (\<forall>d\<in>set ds. \<not> shows_window b d)
         | Some i \<Rightarrow> 0 < exact_area b \<and>
             largest_overlap (\<lambda>d. exact_overlap b (display_bounds d)) (shows_window b) ds i"
proof (cases "exact_area b \<le> 0")
  case True
  then show ?thesis by (simp add: best_display_def area_exact b)
next
  case False
  obtain a where a: "exact_area b = of_int a" "\<bar>a\<bar> \<le> 2 ^ 40"
    using area_exact [OF b] by (auto simp: whole_iff)
  define t where "t = rounded (area b * visible_area_fraction)"
  have cmp: "intersection_area b (display_bounds d) < t \<longleftrightarrow> \<not> shows_window b d"
    and o: "intersection_area b (display_bounds d) = exact_overlap b (display_bounds d)"
    if d: "d \<in> set ds" for d
  proof -
    have o: "intersection_area b (display_bounds d) = exact_overlap b (display_bounds d)"
      "whole (2 ^ 44) (intersection_area b (display_bounds d))"
      using overlap_exact [OF b] ds d by blast+
    then obtain v where v: "exact_overlap b (display_bounds d) = of_int v" "\<bar>v\<bar> \<le> 2 ^ 44"
      by (auto simp: whole_iff)
    have "(0 :: rat) \<le> of_int v" unfolding v(1) [symmetric] by (simp add: exact_overlap_def)
    moreover have "(0 :: rat) < of_int a" using False a(1) by simp
    ultimately have "of_int v < t \<longleftrightarrow> 5 * v < a"
      using threshold_exact [of a v] a v(2) by (simp add: area_exact b t_def)
    moreover have "5 * v < a \<longleftrightarrow> (of_int (5 * v) :: rat) < of_int a" by (simp only: of_int_less_iff)
    ultimately show "intersection_area b (display_bounds d) < t \<longleftrightarrow> \<not> shows_window b d"
      using o(1) v(1) a(1) by (auto simp: shows_window_def)
    show "intersection_area b (display_bounds d) = exact_overlap b (display_bounds d)" by (rule o(1))
  qed
  have best: "best_display b ds = map_option fst (foldl (better_display t b) None ds)"
    using False by (simp add: best_display_def area_exact b t_def)
  show ?thesis
  proof (cases "foldl (better_display t b) None ds")
    case None
    then show ?thesis using best_display_fold [where t = t and b = b and ds = ds] cmp by (simp add: best)
  next
    case (Some iv)
    obtain i v where iv: "iv = (i, v)" by fastforce
    from best_display_fold [where t = t and b = b and ds = ds] Some iv
    obtain d where d: "d \<in> set ds" "display_index d = i" "intersection_area b (display_bounds d) = v"
      "\<not> intersection_area b (display_bounds d) < t"
      and max: "\<forall>e\<in>set ds. \<not> intersection_area b (display_bounds e) < t \<longrightarrow>
        intersection_area b (display_bounds e) < v \<or>
        intersection_area b (display_bounds e) = v \<and> i \<le> display_index e" by auto
    have "largest_overlap (\<lambda>d. exact_overlap b (display_bounds d)) (shows_window b) ds i"
      unfolding largest_overlap_def
    proof (intro bexI [OF _ d(1)] conjI ballI impI)
      show "display_index d = i" by (rule d(2))
      show "shows_window b d" using d cmp by blast
      fix e assume "e \<in> set ds" "shows_window b e"
      with max cmp o d(1,3) show "exact_overlap b (display_bounds e) < exact_overlap b (display_bounds d) \<or>
        exact_overlap b (display_bounds e) = exact_overlap b (display_bounds d) \<and> i \<le> display_index e"
        by metis
    qed
    then show ?thesis using False Some iv by (simp add: best)
  qed
qed

text \<open>
  C35. On screens with whole coordinates the visible windows are, in order, the ordinary windows of
  positive area at least a fifth of which lies on some display, exactly; each is on the display that
  shows the most of it, the one of the least index where several show as much.
\<close>

theorem visible_windows_exact:
  assumes "\<forall>w\<in>set ws. screen_rect (bounds w)" "\<forall>d\<in>set ds. screen_rect (display_bounds d)"
  shows "map vw_window (visible_windows ws ds) =
           filter (\<lambda>w. layer w = 0 \<and> 0 < exact_area (bounds w) \<and>
                        (\<exists>d\<in>set ds. shows_window (bounds w) d)) ws \<and>
         (\<forall>v\<in>set (visible_windows ws ds).
           largest_overlap (\<lambda>d. exact_overlap (bounds (vw_window v)) (display_bounds d))
             (shows_window (bounds (vw_window v))) ds (vw_display v))"
  using assms(1)
proof (induction ws)
  case (Cons w ws)
  have "case best_display (bounds w) ds of
           None \<Rightarrow> exact_area (bounds w) \<le> 0 \<or> (\<forall>d\<in>set ds. \<not> shows_window (bounds w) d)
         | Some i \<Rightarrow> 0 < exact_area (bounds w) \<and>
             largest_overlap (\<lambda>d. exact_overlap (bounds w) (display_bounds d)) (shows_window (bounds w)) ds i"
    using Cons.prems assms(2) by (intro best_display_exact) auto
  with Cons show ?case by (auto simp: largest_overlap_def split: option.splits)
qed simp

definition sample_displays :: "display_entry list" where
  "sample_displays =
     [\<lparr>display_index = 0, display_bounds = \<lparr>rx = 0, ry = 0, rwidth = 1920, rheight = 1080\<rparr>\<rparr>,
      \<lparr>display_index = 1, display_bounds = \<lparr>rx = 1920, ry = 0, rwidth = 1920, rheight = 1080\<rparr>\<rparr>]"

definition sample_window :: "int \<Rightarrow> rat \<Rightarrow> rat \<Rightarrow> nat \<Rightarrow> window_entry" where
  "sample_window pid left width z =
     \<lparr>owner_pid = pid, owner_name = ''Notes'', window_number = z, bounds = \<lparr>rx = left, ry = 10, rwidth = width, rheight = 100\<rparr>,
      layer = 0, wz = z\<rparr>"

definition sample_windows :: "window_entry list" where
  "sample_windows = [sample_window 7 1900 100 0, sample_window 8 (- 80) 100 1, sample_window 9 (- 81) 100 2]"

text \<open>A window with exactly a fifth on the screen is visible, one with a point less is not.\<close>

lemma visible_windows_exact_witness:
  "map vw_window (visible_windows sample_windows sample_displays) =
     [sample_window 7 1900 100 0, sample_window 8 (- 80) 100 1]"
proof -
  have ws: "\<forall>w\<in>set sample_windows. screen_rect (bounds w)"
    and ds: "\<forall>d\<in>set sample_displays. screen_rect (display_bounds d)"
    by code_simp+
  have "filter (\<lambda>w. layer w = 0 \<and> 0 < exact_area (bounds w) \<and>
                  (\<exists>d\<in>set sample_displays. shows_window (bounds w) d)) sample_windows =
          [sample_window 7 1900 100 0, sample_window 8 (- 80) 100 1]"
    by code_simp
  with visible_windows_exact [OF ws ds] show ?thesis by simp
qed

subsection \<open>The frontmost application\<close>

text \<open>The lock screen is never in front, and what is in front owns a window or has the focus.\<close>

lemma focused_of_not_locked: "focused_of f ws app = Some a \<Longrightarrow> \<not> is_lock_screen a"
  by (auto simp: focused_of_def is_lock_screen_def split: option.splits if_splits)

lemma front_by_layer_not_locked: "front_by_layer app ws = Some a \<Longrightarrow> \<not> is_lock_screen a"
  by (induction app ws rule: front_by_layer.induct) (auto split: if_splits option.splits)

lemma frontmost_not_locked: "frontmost_of f ws app = Some a \<Longrightarrow> \<not> is_lock_screen a"
  by (auto simp: frontmost_of_def focused_of_not_locked front_by_layer_not_locked split: option.splits)

end
