(* ===== verification/Windows_Provider.thy ===== *)
theory Windows_Provider
  imports Screen_Props Pipeline Text_Scan
begin

text \<open>
  The window provider, \<open>src/src/providers/windows.rs\<close>, with \<open>src/src/extract/document.rs\<close>: what is
  read of the screen is assembled into samples, on every tick of a timer and, debounced, after the
  events of the window system. The \<open>Sources\<close> trait is a record of functions on a world \<open>'w\<close> that each
  question may move on, so two questions need not get the same answer; the channel to the runtime, the
  clock and the acknowledgements of sleep are questions of the same kind. Instants of the monotonic
  clock are milliseconds.
\<close>

definition debounce :: nat where "debounce = 300"
definition debounce_ceiling :: nat where "debounce_ceiling = 1000"
definition sleep_flush_budget :: nat where "sleep_flush_budget = 2000"
definition ambiguous :: string where "ambiguous = ''ambiguous''"

subsection \<open>What the window system says\<close>

datatype focused_window =
    FocusedWindow "string option" "string option"   \<comment> \<open>title, path\<close>
  | FocusAbsent
  | FocusUnavailable

datatype window_title =
    Sole "string option"
  | Ambiguous
  | TitleUnavailable

record activity =
  idle_sec :: int
  counters :: input_counters
  mic_active :: bool
  act_locked :: bool
  act_asleep :: bool

datatype mac_event =
    ApplicationActivated running_application
  | FocusedWindowChanged int
  | TitleChanged int
  | WindowCreated int
  | WindowDestroyed int
  | DisplaysReconfigured
  | ScreenLocked
  | ScreenUnlocked
  | WillSleep nat           \<comment> \<open>which acknowledgement\<close>
  | DidWake

record observed =
  ob_at :: timestamp
  ob_event :: mac_event

text \<open>How waiting for the receipt of the sleep record ends.\<close>

datatype sleep_wait = SleepCommitted | SleepDropped | SleepTimeout

record 'w sources =
  so_windows :: "'w \<Rightarrow> window_entry list \<times> 'w"
  so_displays :: "'w \<Rightarrow> display_entry list \<times> 'w"
  so_frontmost :: "'w \<Rightarrow> running_application option \<times> 'w"
  so_bundle_id :: "int \<Rightarrow> 'w \<Rightarrow> string option \<times> 'w"
  so_cursor_display :: "display_entry list \<Rightarrow> 'w \<Rightarrow> nat option \<times> 'w"
  so_focused_window :: "int \<Rightarrow> 'w \<Rightarrow> focused_window \<times> 'w"
  so_window_title :: "int \<Rightarrow> 'w \<Rightarrow> window_title \<times> 'w"
  so_activity :: "'w \<Rightarrow> activity \<times> 'w"
  so_rescan :: "'w \<Rightarrow> 'w"
  so_details :: "string \<Rightarrow> 'w \<Rightarrow> obj \<times> 'w"
  so_now :: "'w \<Rightarrow> timestamp"
  so_send :: "emission \<Rightarrow> 'w \<Rightarrow> bool \<times> 'w"         \<comment> \<open>false when the runtime is gone\<close>
  so_committed :: "'w \<Rightarrow> sleep_wait \<times> 'w"
  so_acknowledge :: "nat \<Rightarrow> 'w \<Rightarrow> 'w"

text \<open>\<open>file_url\<close>: the value itself, trimmed, when it is a \<open>file\<close> URL. The URL parser is a parameter.\<close>

definition file_url :: "(string \<Rightarrow> url option) \<Rightarrow> string \<Rightarrow> string option" where
  "file_url parse value =
     (let value = trim value
      in if value = [] then None
         else case parse value of
                None \<Rightarrow> None
              | Some u \<Rightarrow> if url_scheme u \<noteq> ''file'' then None else Some value)"

text \<open>A focused window's document attribute, if it has one.\<close>

definition document_path :: "(string \<Rightarrow> url option) \<Rightarrow> string option \<Rightarrow> string option" where
  "document_path parse document = Option.bind document (file_url parse)"

text \<open>
  \<open>MacSources::focused_window\<close> and \<open>window_title\<close> over what accessibility answers: whether it is
  trusted, the focused window's title and document, the titles of an application's windows.
\<close>

definition mac_focused_window ::
  "(string \<Rightarrow> url option) \<Rightarrow> bool \<Rightarrow> (string option \<times> string option) option \<Rightarrow> focused_window" where
  "mac_focused_window parse trusted window =
     (if \<not> trusted then FocusUnavailable
      else case window of
             None \<Rightarrow> FocusAbsent
           | Some (title, document) \<Rightarrow> FocusedWindow title (document_path parse document))"

definition mac_window_title :: "bool \<Rightarrow> string option list \<Rightarrow> window_title" where
  "mac_window_title trusted titles =
     (if \<not> trusted then TitleUnavailable
      else if length titles \<noteq> 1 then Ambiguous else Sole (hd titles))"

subsection \<open>Samples\<close>

record sample =
  sm_app :: string
  sm_bundle_id :: string
  sm_title :: "string option"
  sm_path :: "string option"
  sm_details :: obj
  sm_display :: nat
  sm_visible :: "json list"
  sm_degraded :: bool

fun front_window :: "window_entry list \<Rightarrow> int \<Rightarrow> window_entry option" where
  "front_window [] pid = None"
| "front_window (w # ws) pid =
     (if layer w = 0 \<and> owner_pid w = pid then Some w else front_window ws pid)"

fun display_for :: "visible_window list \<Rightarrow> int \<Rightarrow> nat option" where
  "display_for [] pid = None"
| "display_for (v # vs) pid =
     (if owner_pid (vw_window v) = pid then Some (vw_display v) else display_for vs pid)"

definition opt_string :: "string option \<Rightarrow> json" where
  "opt_string s = (case s of None \<Rightarrow> JNull | Some s \<Rightarrow> JString s)"

definition visible_entry ::
  "visible_window \<Rightarrow> string option \<Rightarrow> string option \<Rightarrow> string option \<Rightarrow> json" where
  "visible_entry v bundle title reason =
     JObject [(''app'', JString (owner_name (vw_window v))), (''bundle_id'', opt_string bundle),
              (''title'', opt_string title), (''title_reason'', opt_string reason),
              (''display'', JInt (int (vw_display v))), (''z'', JInt (int (wz (vw_window v))))]"

text \<open>\<open>HashMap::entry(..).or_insert_with(..)\<close>: the cached answer, else the source's, which is kept.\<close>

definition cached :: "('w \<Rightarrow> 'a \<times> 'w) \<Rightarrow> int \<Rightarrow> (int \<rightharpoonup> 'a) \<Rightarrow> 'w \<Rightarrow> 'a \<times> (int \<rightharpoonup> 'a) \<times> 'w" where
  "cached ask pid cache w =
     (case cache pid of
        Some a \<Rightarrow> (a, cache, w)
      | None \<Rightarrow> let (a, w) = ask w in (a, cache(pid \<mapsto> a), w))"

definition shown_title :: "window_title \<Rightarrow> string option \<times> string option" where
  "shown_title t =
     (case t of Sole title \<Rightarrow> (title, None) | Ambiguous \<Rightarrow> (None, Some ambiguous)
      | TitleUnavailable \<Rightarrow> (None, None))"

fun visible_entries ::
  "'w sources \<Rightarrow> int \<Rightarrow> nat option \<Rightarrow> string option \<Rightarrow> visible_window list \<Rightarrow>
     (int \<rightharpoonup> string option) \<Rightarrow> (int \<rightharpoonup> window_title) \<Rightarrow> 'w \<Rightarrow> json list \<times> 'w" where
  "visible_entries so focused_pid focused_window focused_title [] bundles titles w = ([], w)"
| "visible_entries so focused_pid focused_window focused_title (v # vs) bundles titles w =
     (let pid = owner_pid (vw_window v);
          (bundle, bundles, w) = cached (so_bundle_id so pid) pid bundles w;
          focused = (pid = focused_pid \<and> Some (window_number (vw_window v)) = focused_window)
      in if focused
         then let (entries, w) = visible_entries so focused_pid focused_window focused_title vs bundles titles w
              in (visible_entry v bundle focused_title None # entries, w)
         else let (t, titles, w) = cached (so_window_title so pid) pid titles w;
                  (title, reason) = shown_title t;
                  (entries, w) = visible_entries so focused_pid focused_window focused_title vs bundles titles w
              in (visible_entry v bundle title reason # entries, w))"

text \<open>\<open>assemble\<close>, by the questions it asks.\<close>

definition application_asked ::
  "'w sources \<Rightarrow> running_application option \<Rightarrow> 'w \<Rightarrow> running_application option \<times> 'w" where
  "application_asked so activated w =
     (case activated of
        Some a \<Rightarrow> if \<not> is_lock_screen a then (Some a, w) else so_frontmost so w
      | None \<Rightarrow> so_frontmost so w)"

definition bundle_asked :: "'w sources \<Rightarrow> running_application \<Rightarrow> 'w \<Rightarrow> string \<times> 'w" where
  "bundle_asked so a w =
     (case app_bundle a of
        Some b \<Rightarrow> (b, w)
      | None \<Rightarrow>
          let (b, w) = so_bundle_id so (app_pid a) w in (case b of None \<Rightarrow> [] | Some b \<Rightarrow> b, w))"

definition display_asked ::
  "'w sources \<Rightarrow> visible_window list \<Rightarrow> display_entry list \<Rightarrow> int \<Rightarrow> 'w \<Rightarrow> nat \<times> 'w" where
  "display_asked so visible displays pid w =
     (case display_for visible pid of
        Some d \<Rightarrow> (d, w)
      | None \<Rightarrow>
          let (d, w) = so_cursor_display so displays w in (case d of None \<Rightarrow> 0 | Some d \<Rightarrow> d, w))"

definition details_asked :: "'w sources \<Rightarrow> string \<Rightarrow> 'w \<Rightarrow> obj \<times> 'w" where
  "details_asked so bundle w = (if bundle = [] then ([], w) else so_details so bundle w)"

definition app_shown :: "running_application \<Rightarrow> window_entry option \<Rightarrow> string" where
  "app_shown a front =
     (case app_name a of
        Some n \<Rightarrow> n
      | None \<Rightarrow> (case front of Some f \<Rightarrow> owner_name f | None \<Rightarrow> []))"

definition is_degraded :: "focused_window \<Rightarrow> window_entry option \<Rightarrow> bool" where
  "is_degraded focused front =
     (case focused of
        FocusedWindow title path \<Rightarrow> False
      | FocusAbsent \<Rightarrow> front \<noteq> None
      | FocusUnavailable \<Rightarrow> True)"

definition title_path :: "focused_window \<Rightarrow> string option \<times> string option" where
  "title_path focused = (case focused of FocusedWindow title path \<Rightarrow> (title, path) | _ \<Rightarrow> (None, None))"

definition sample_of ::
  "'w sources \<Rightarrow> window_entry list \<Rightarrow> display_entry list \<Rightarrow> running_application \<Rightarrow> 'w \<Rightarrow> sample \<times> 'w" where
  "sample_of so windows displays a w =
     (let visible = visible_windows windows displays;
          pid = app_pid a;
          front = front_window windows pid;
          (bundle, w) = bundle_asked so a w;
          (focused, w) = so_focused_window so pid w;
          (title, path) = title_path focused;
          (display, w) = display_asked so visible displays pid w;
          (details, w) = details_asked so bundle w;
          (entries, w) =
            visible_entries so pid (map_option window_number front) title visible Map.empty Map.empty w
      in (\<lparr>sm_app = app_shown a front, sm_bundle_id = bundle, sm_title = title, sm_path = path,
           sm_details = details, sm_display = display, sm_visible = entries,
           sm_degraded = is_degraded focused front\<rparr>, w))"

definition assemble :: "'w sources \<Rightarrow> running_application option \<Rightarrow> 'w \<Rightarrow> sample option \<times> 'w" where
  "assemble so activated w =
     (let (windows, w) = so_windows so w;
          (displays, w) = so_displays so w;
          (application, w) = application_asked so activated w
      in case application of
           None \<Rightarrow> (None, w)
         | Some a \<Rightarrow> let (s, w) = sample_of so windows displays a w in (Some s, w))"

subsection \<open>Records\<close>

definition marker :: "kind \<Rightarrow> timestamp \<Rightarrow> record_draft" where
  "marker k ts =
     \<lparr>dr_provider = Windows, dr_kind = k, dr_ts = ts, dr_degraded = False, dr_payload = JObject [],
      dr_key = WindowsKey\<rparr>"

definition insert_opt :: "string \<Rightarrow> json option \<Rightarrow> obj \<Rightarrow> obj" where
  "insert_opt k v m = (case v of None \<Rightarrow> m | Some v \<Rightarrow> obj_insert k v m)"

definition base_payload :: "sample \<Rightarrow> obj" where
  "base_payload s =
     (let p = obj_insert ''app'' (JString (sm_app s)) [];
          p = obj_insert ''bundle_id'' (JString (sm_bundle_id s)) p;
          p = insert_opt ''title'' (map_option JString (sm_title s)) p;
          p = insert_opt ''path'' (map_option JString (sm_path s)) p;
          p = (if sm_details s \<noteq> [] then obj_insert ''details'' (JObject (sm_details s)) p else p);
          p = obj_insert ''display'' (JInt (int (sm_display s))) p
      in obj_insert ''visible'' (JArray (sm_visible s)) p)"

definition sample_record :: "kind \<Rightarrow> timestamp \<Rightarrow> sample \<Rightarrow> record_draft" where
  "sample_record k ts s =
     \<lparr>dr_provider = Windows, dr_kind = k, dr_ts = ts, dr_degraded = sm_degraded s,
      dr_payload = JObject (base_payload s), dr_key = WindowsKey\<rparr>"

definition tick_payload :: "sample \<Rightarrow> nat \<Rightarrow> activity \<Rightarrow> input_counters \<Rightarrow> obj" where
  "tick_payload s tick_interval act delta =
     (let p = base_payload s;
          p = obj_insert ''tick_interval_sec'' (JInt (int tick_interval)) p;
          p = obj_insert ''idle_sec'' (JInt (idle_sec act)) p;
          p = obj_insert ''keys_delta'' (JInt (uint (ic_keys delta))) p;
          p = obj_insert ''mouse_delta'' (JInt (uint (ic_mouse delta))) p;
          p = obj_insert ''mic_active'' (JBool (mic_active act)) p;
          p = obj_insert ''screen_locked'' (JBool (act_locked act)) p
      in obj_insert ''display_asleep'' (JBool (act_asleep act)) p)"

definition tick_record ::
  "timestamp \<Rightarrow> sample \<Rightarrow> nat \<Rightarrow> activity \<Rightarrow> input_counters \<Rightarrow> record_draft" where
  "tick_record now s tick_interval act delta =
     \<lparr>dr_provider = Windows, dr_kind = Tick, dr_ts = now, dr_degraded = sm_degraded s,
      dr_payload = JObject (tick_payload s tick_interval act delta), dr_key = WindowsKey\<rparr>"

subsection \<open>Debouncing\<close>

record pending =
  pd_kind :: kind
  pd_ts :: timestamp
  pd_application :: "running_application option"
  pd_first :: nat
  pd_deadline :: nat

datatype signal =
    SignalSample kind "running_application option"
  | SignalMarker kind
  | SignalSleep nat

fun signal_of :: "mac_event \<Rightarrow> signal" where
  "signal_of (ApplicationActivated a) = SignalSample Focus (Some a)"
| "signal_of (FocusedWindowChanged pid) = SignalSample StateChange None"
| "signal_of (TitleChanged pid) = SignalSample StateChange None"
| "signal_of (WindowCreated pid) = SignalSample StateChange None"
| "signal_of (WindowDestroyed pid) = SignalSample StateChange None"
| "signal_of DisplaysReconfigured = SignalSample StateChange None"
| "signal_of ScreenLocked = SignalMarker Lock"
| "signal_of ScreenUnlocked = SignalMarker Unlock"
| "signal_of DidWake = SignalMarker Wake"
| "signal_of (WillSleep ack) = SignalSleep ack"

definition or_else :: "'a option \<Rightarrow> 'a option \<Rightarrow> 'a option" where
  "or_else a b = (case a of None \<Rightarrow> b | Some x \<Rightarrow> Some x)"

definition schedule ::
  "pending option \<Rightarrow> kind \<Rightarrow> running_application option \<Rightarrow> timestamp \<Rightarrow> nat \<Rightarrow> pending" where
  "schedule scheduled k app ts now =
     (case scheduled of
        None \<Rightarrow>
          \<lparr>pd_kind = k, pd_ts = ts, pd_application = app, pd_first = now, pd_deadline = now + debounce\<rparr>
      | Some p \<Rightarrow>
          let activation = (k = Focus)
          in \<lparr>pd_kind = (if activation \<or> pd_kind p = Focus then Focus else StateChange),
              pd_ts = (if activation then ts else pd_ts p),
              pd_application = or_else app (pd_application p),
              pd_first = pd_first p,
              pd_deadline = min (now + debounce) (pd_first p + debounce_ceiling)\<rparr>)"

subsection \<open>The loop\<close>

datatype sampling = SamplingYes | SamplingNo

definition report :: "sampling \<Rightarrow> sampling \<Rightarrow> sampling" where
  "report was now = now"

record window_state =
  ws_counters :: "input_counters option"
  ws_pending :: "pending option"
  ws_sampling :: sampling

definition window_new :: window_state where
  "window_new = \<lparr>ws_counters = None, ws_pending = None, ws_sampling = SamplingYes\<rparr>"

text \<open>A run begins with nothing pending; the counters are kept from the run before.\<close>

definition window_start :: "window_state \<Rightarrow> window_state" where
  "window_start st = st\<lparr>ws_pending := None, ws_sampling := SamplingYes\<rparr>"

definition deliver_sleep :: "'w sources \<Rightarrow> timestamp \<Rightarrow> nat \<Rightarrow> 'w \<Rightarrow> 'w" where
  "deliver_sleep so ts ack w =
     (let (sent, w) = so_send so (awaiting_commit [marker Sleep ts] None) w
      in if \<not> sent then so_acknowledge so ack w
         else let (waited, w) = so_committed so w in so_acknowledge so ack w)"

text \<open>
  What the \<open>select!\<close> woke up for: something from the event thread at an instant, or that it is gone;
  a tick; the deadline of what is pending. Whether the loop goes on, and its state.
\<close>

datatype wake = Received nat observed | EventsGone | Ticked | Elapsed

definition window_step ::
  "'w sources \<Rightarrow> nat \<Rightarrow> wake \<Rightarrow> window_state \<Rightarrow> 'w \<Rightarrow> bool \<times> window_state \<times> 'w" where
  "window_step so tick_interval wk st w =
     (case wk of
        EventsGone \<Rightarrow> (False, st, w)
      | Received now ob \<Rightarrow>
          (case signal_of (ob_event ob) of
             SignalSample k app \<Rightarrow>
               (True, st\<lparr>ws_pending := Some (schedule (ws_pending st) k app (ob_at ob) now)\<rparr>, w)
           | SignalMarker k \<Rightarrow>
               let (sent, w) = so_send so (emission_new [marker k (ob_at ob)]) w in (sent, st, w)
           | SignalSleep ack \<Rightarrow> (True, st, deliver_sleep so (ob_at ob) ack w))
      | Ticked \<Rightarrow>
          let w = so_rescan so w;
              (act, w) = so_activity so w;
              (s, w) = assemble so None w
          in (case s of
                None \<Rightarrow> (True, st\<lparr>ws_sampling := report (ws_sampling st) SamplingNo\<rparr>, w)
              | Some s \<Rightarrow>
                  let st = st\<lparr>ws_sampling := report (ws_sampling st) SamplingYes\<rparr>;
                      (delta, previous) = advance (ws_counters st) (counters act);
                      st = st\<lparr>ws_counters := previous\<rparr>;
                      (sent, w) = so_send so (emission_new [tick_record (so_now so w) s tick_interval act delta]) w
                  in (sent, st, w))
      | Elapsed \<Rightarrow>
          (case ws_pending st of
             None \<Rightarrow> (True, st, w)
           | Some p \<Rightarrow>
               let st = st\<lparr>ws_pending := None\<rparr>;
                   (s, w) = assemble so (pd_application p) w
               in (case s of
                     None \<Rightarrow> (True, st\<lparr>ws_sampling := report (ws_sampling st) SamplingNo\<rparr>, w)
                   | Some s \<Rightarrow>
                       let st = st\<lparr>ws_sampling := report (ws_sampling st) SamplingYes\<rparr>;
                           (sent, w) = so_send so (emission_new [sample_record (pd_kind p) (pd_ts p) s]) w
                       in (sent, st, w))))"

fun window_run ::
  "'w sources \<Rightarrow> nat \<Rightarrow> wake list \<Rightarrow> window_state \<Rightarrow> 'w \<Rightarrow> bool \<times> window_state \<times> 'w" where
  "window_run so tick_interval [] st w = (True, st, w)"
| "window_run so tick_interval (wk # wks) st w =
     (let (going, st, w) = window_step so tick_interval wk st w
      in if going then window_run so tick_interval wks st w else (False, st, w))"

end
