(* ===== verification/Windows_Props.thy ===== *)
theory Windows_Props
  imports Windows_Provider
begin

text \<open>
  What the window provider promises: a burst of events becomes one record, described by the burst
  alone; the caches of the visible windows ask once per process; markers of locking and sleep are sent
  at once and in order, each sleep acknowledged after its record was offered; and the input counted by
  the tick records adds up to what the counters say. What leaves the provider is read off a log kept
  beside any sources (\<open>logged\<close>), which the locale \<open>recorder\<close> describes.
\<close>

subsection \<open>Runs\<close>

lemma window_run_append:
  "window_run so ti (xs @ ys) st w =
     (let (going, st, w) = window_run so ti xs st w
      in if going then window_run so ti ys st w else (False, st, w))"
  by (induction so ti xs st w rule: window_run.induct) (auto simp: Let_def split: prod.splits)

lemma window_run_snoc:
  "window_run so ti (xs @ [x]) st w =
     (let (going, st, w) = window_run so ti xs st w
      in if going then window_step so ti x st w else (False, st, w))"
  by (auto simp: window_run_append Let_def split: prod.splits)

subsection \<open>Debouncing\<close>

definition receive :: "nat \<times> observed \<Rightarrow> wake" where
  "receive ev = Received (fst ev) (snd ev)"

fun samples_event :: "mac_event \<Rightarrow> bool" where
  "samples_event ev = (case signal_of ev of SignalSample _ _ \<Rightarrow> True | _ \<Rightarrow> False)"

definition activation_of :: "nat \<times> observed \<Rightarrow> (timestamp \<times> running_application) option" where
  "activation_of ev =
     (case ob_event (snd ev) of ApplicationActivated a \<Rightarrow> Some (ob_at (snd ev), a) | _ \<Rightarrow> None)"

definition activations :: "(nat \<times> observed) list \<Rightarrow> (timestamp \<times> running_application) list" where
  "activations burst = List.map_filter activation_of burst"

definition burst_pending :: "(nat \<times> observed) list \<Rightarrow> pending" where
  "burst_pending burst =
     (let acts = activations burst
      in \<lparr>pd_kind = (if acts = [] then StateChange else Focus),
          pd_ts = (if acts = [] then ob_at (snd (hd burst)) else fst (last acts)),
          pd_application = (if acts = [] then None else Some (snd (last acts))),
          pd_first = fst (hd burst),
          pd_deadline = min (fst (last burst) + debounce) (fst (hd burst) + debounce_ceiling)\<rparr>)"

lemma activations_snoc:
  "activations (burst @ [ev]) = activations burst @ (case activation_of ev of None \<Rightarrow> [] | Some a \<Rightarrow> [a])"
  by (simp add: activations_def List.map_filter_def split: option.split)

lemma activations_Nil [simp]: "activations [] = []"
  by (simp add: activations_def List.map_filter_simps)

lemma sample_signal:
  assumes "samples_event (ob_event (snd ev))"
  shows "signal_of (ob_event (snd ev)) =
           (case activation_of ev of
              None \<Rightarrow> SignalSample StateChange None
            | Some (ts, a) \<Rightarrow> SignalSample Focus (Some a))"
    and "activation_of ev = Some (ts, a) \<Longrightarrow> ts = ob_at (snd ev)"
  using assms by (cases "ob_event (snd ev)"; auto simp: activation_of_def)+

lemma schedule_burst:
  assumes "burst \<noteq> []" "samples_event (ob_event (snd ev))"
    "signal_of (ob_event (snd ev)) = SignalSample k app"
  shows "schedule (Some (burst_pending burst)) k app (ob_at (snd ev)) (fst ev) = burst_pending (burst @ [ev])"
  using assms sample_signal [OF assms(2)]
  by (cases "activation_of ev")
     (auto simp: schedule_def burst_pending_def activations_snoc or_else_def Let_def hd_append)

lemma schedule_first:
  assumes "samples_event (ob_event (snd ev))" "signal_of (ob_event (snd ev)) = SignalSample k app"
  shows "schedule None k app (ob_at (snd ev)) (fst ev) = burst_pending [ev]"
  using assms(2) sample_signal [OF assms(1)] activations_snoc [of "[]" ev]
  by (cases "activation_of ev")
     (auto simp: schedule_def burst_pending_def Let_def debounce_def debounce_ceiling_def)

lemma window_run_burst:
  assumes "burst \<noteq> []" "\<forall>ev\<in>set burst. samples_event (ob_event (snd ev))" "ws_pending st = None"
  shows "window_run so ti (map receive burst) st w = (True, st\<lparr>ws_pending := Some (burst_pending burst)\<rparr>, w)"
  using assms(1,2)
proof (induction burst rule: rev_nonempty_induct)
  case (single ev)
  then obtain k app where s: "signal_of (ob_event (snd ev)) = SignalSample k app"
    by (auto split: signal.splits)
  with single schedule_first [of ev] assms(3) show ?case
    by (simp add: receive_def window_step_def)
next
  case (snoc ev burst)
  then obtain k app where s: "signal_of (ob_event (snd ev)) = SignalSample k app"
    by (auto split: signal.splits)
  with snoc schedule_burst [of burst ev] show ?case
    by (simp add: window_run_snoc receive_def window_step_def)
qed

text \<open>
  C36. However many events that change the picture arrive while a sample is pending, one record comes
  of them when the deadline passes, and it is the burst's: its kind is focus exactly when an
  application was activated, the last activation gives its time and the application asked about, else
  the first event gives the time. The deadline is 300 ms after the last event, at most a second after
  the first.
\<close>

theorem debounce_burst:
  assumes "burst \<noteq> []" "\<forall>ev\<in>set burst. samples_event (ob_event (snd ev))" "ws_pending st = None"
  shows "window_run so ti (map receive burst @ [Elapsed]) st w =
           (let acts = activations burst;
                k = (if acts = [] then StateChange else Focus);
                ts = (if acts = [] then ob_at (snd (hd burst)) else fst (last acts));
                app = (if acts = [] then None else Some (snd (last acts)))
            in case assemble so app w of
                 (None, w') \<Rightarrow> (True, st\<lparr>ws_sampling := SamplingNo\<rparr>, w')
               | (Some s, w') \<Rightarrow>
                   let (sent, w'') = so_send so (emission_new [sample_record k ts s]) w'
                   in (sent, st\<lparr>ws_sampling := SamplingYes\<rparr>, w'')) \<and>
         map_option pd_deadline (ws_pending (fst (snd (window_run so ti (map receive burst) st w)))) =
           Some (min (fst (last burst) + 300) (fst (hd burst) + 1000))"
proof -
  define p where "p = burst_pending burst"
  have burst: "window_run so ti (map receive burst) st w = (True, st\<lparr>ws_pending := Some p\<rparr>, w)"
    unfolding p_def by (rule window_run_burst [OF assms])
  have clear: "st\<lparr>ws_pending := None\<rparr> = st" using assms(3) by simp
  have "window_run so ti (map receive burst @ [Elapsed]) st w =
      window_step so ti Elapsed (st\<lparr>ws_pending := Some p\<rparr>) w"
    by (simp add: window_run_snoc burst)
  also have "\<dots> = (case assemble so (pd_application p) w of
       (None, w') \<Rightarrow> (True, st\<lparr>ws_sampling := SamplingNo\<rparr>, w')
     | (Some s, w') \<Rightarrow>
         let (sent, w'') = so_send so (emission_new [sample_record (pd_kind p) (pd_ts p) s]) w'
         in (sent, st\<lparr>ws_sampling := SamplingYes\<rparr>, w''))"
    unfolding window_step_def
    by (cases "assemble so (pd_application p) w") (simp add: clear report_def Let_def split: option.split prod.split)
  finally have run: "window_run so ti (map receive burst @ [Elapsed]) st w = \<dots>" .
  have p: "pd_kind p = (if activations burst = [] then StateChange else Focus)"
    "pd_ts p = (if activations burst = [] then ob_at (snd (hd burst)) else fst (last (activations burst)))"
    "pd_application p = (if activations burst = [] then None else Some (snd (last (activations burst))))"
    "pd_deadline p = min (fst (last burst) + 300) (fst (hd burst) + 1000)"
    by (simp_all add: p_def burst_pending_def Let_def debounce_def debounce_ceiling_def)
  show ?thesis
    unfolding run burst p(1-3) Let_def by (simp add: p(4))
qed

text \<open>A desk without windows, on which three events come within a second.\<close>

definition desk :: "emission list sources" where
  "desk =
     \<lparr>so_windows = Pair [], so_displays = Pair [], so_frontmost = Pair None,
      so_bundle_id = (\<lambda>pid. Pair (Some ''com.apple.Notes'')), so_cursor_display = (\<lambda>ds. Pair None),
      so_focused_window = (\<lambda>pid. Pair (FocusedWindow (Some ''Todo'') None)),
      so_window_title = (\<lambda>pid. Pair Ambiguous),
      so_activity = Pair \<lparr>idle_sec = 0, counters = no_input, mic_active = False, act_locked = False, act_asleep = False\<rparr>,
      so_rescan = (\<lambda>w. w), so_details = (\<lambda>b. Pair []), so_now = (\<lambda>w. Timestamp 9),
      so_send = (\<lambda>em w. (True, w @ [em])), so_committed = Pair SleepCommitted, so_acknowledge = (\<lambda>ack w. w)\<rparr>"

definition sample_burst :: "(nat \<times> observed) list" where
  "sample_burst =
     [(0, \<lparr>ob_at = Timestamp 1, ob_event = TitleChanged 7\<rparr>),
      (250, \<lparr>ob_at = Timestamp 2, ob_event =
         ApplicationActivated \<lparr>app_pid = 7, app_name = Some ''Notes'', app_bundle = None\<rparr>\<rparr>),
      (800, \<lparr>ob_at = Timestamp 3, ob_event = WindowCreated 8\<rparr>)]"

definition desk_records :: "bool \<times> window_state \<times> emission list \<Rightarrow> (kind \<times> timestamp \<times> json option) list" where
  "desk_records r =
     map (\<lambda>d. (dr_kind d, dr_ts d, json_get (dr_payload d) ''title'')) (concat (map em_records (snd (snd r))))"

lemma debounce_burst_witness:
  "desk_records (window_run desk 30 (map receive sample_burst @ [Elapsed]) window_new []) =
     [(Focus, Timestamp 2, Some (JString ''Todo''))] \<and>
   map_option pd_deadline (ws_pending (fst (snd (window_run desk 30 (map receive sample_burst) window_new [])))) =
     Some 1000"
proof -
  have hyps: "sample_burst \<noteq> []" "\<forall>ev\<in>set sample_burst. samples_event (ob_event (snd ev))"
    "ws_pending window_new = None"
    by code_simp+
  note burst = debounce_burst [OF hyps, of desk 30 "[]"]
  show ?thesis
    unfolding burst [THEN conjunct1] burst [THEN conjunct2]
    by code_simp
qed

subsection \<open>The caches of the visible windows\<close>

text \<open>
  When the bundle and the title of a process do not change while a sample is put together, the caches
  make no difference: an entry is what the sources say of its own window.
\<close>

definition entry_for ::
  "(int \<Rightarrow> string option) \<Rightarrow> (int \<Rightarrow> window_title) \<Rightarrow> int \<Rightarrow> nat option \<Rightarrow> string option \<Rightarrow> visible_window \<Rightarrow> json" where
  "entry_for bundle title focused_pid focused_window focused_title v =
     (let pid = owner_pid (vw_window v)
      in if pid = focused_pid \<and> Some (window_number (vw_window v)) = focused_window
         then visible_entry v (bundle pid) focused_title None
         else visible_entry v (bundle pid) (fst (shown_title (title pid))) (snd (shown_title (title pid))))"

lemma visible_entries_direct:
  assumes "\<And>pid w. fst (so_bundle_id so pid w) = bundle pid" "\<And>pid w. fst (so_window_title so pid w) = title pid"
    and "\<And>pid b. bundles pid = Some b \<Longrightarrow> b = bundle pid" "\<And>pid t. titles pid = Some t \<Longrightarrow> t = title pid"
  shows "fst (visible_entries so fp fw ft vs bundles titles w) = map (entry_for bundle title fp fw ft) vs"
  using assms(3,4)
proof (induction vs arbitrary: bundles titles w)
  case (Cons v vs)
  let ?pid = "owner_pid (vw_window v)"
  have b: "\<exists>m w'. cached (so_bundle_id so ?pid) ?pid bundles w = (bundle ?pid, m, w') \<and>
      (\<forall>pid b. m pid = Some b \<longrightarrow> b = bundle pid)"
    using Cons.prems(1) assms(1) [of ?pid w]
    by (auto simp: cached_def Let_def split: option.split prod.split)
  have t: "\<exists>m w''. cached (so_window_title so ?pid) ?pid titles w' = (title ?pid, m, w'') \<and>
      (\<forall>pid t. m pid = Some t \<longrightarrow> t = title pid)" for w'
    using Cons.prems(2) assms(2) [of ?pid w']
    by (auto simp: cached_def Let_def split: option.split prod.split)
  from b obtain m w' where m: "cached (so_bundle_id so ?pid) ?pid bundles w = (bundle ?pid, m, w')"
    "\<And>pid b. m pid = Some b \<Longrightarrow> b = bundle pid" by blast
  from t obtain m2 w'' where m2: "cached (so_window_title so ?pid) ?pid titles w' = (title ?pid, m2, w'')"
    "\<And>pid t. m2 pid = Some t \<Longrightarrow> t = title pid" by blast
  have ih1: "fst (visible_entries so fp fw ft vs m titles w') = map (entry_for bundle title fp fw ft) vs"
    by (rule Cons.IH [OF m(2) Cons.prems(2)])
  have ih2: "fst (visible_entries so fp fw ft vs m m2 w'') = map (entry_for bundle title fp fw ft) vs"
    by (rule Cons.IH [OF m(2) m2(2)])
  obtain e1 w1 where r1: "visible_entries so fp fw ft vs m titles w' = (e1, w1)" by fastforce
  obtain e2 w2 where r2: "visible_entries so fp fw ft vs m m2 w'' = (e2, w2)" by fastforce
  obtain shown reason where sh: "shown_title (title ?pid) = (shown, reason)" by fastforce
  have e: "e1 = map (entry_for bundle title fp fw ft) vs" "e2 = map (entry_for bundle title fp fw ft) vs"
    using ih1 ih2 by (simp_all add: r1 r2)
  have "entry_for bundle title fp fw ft v =
      (if ?pid = fp \<and> Some (window_number (vw_window v)) = fw
       then visible_entry v (bundle ?pid) ft None else visible_entry v (bundle ?pid) shown reason)"
    unfolding entry_for_def Let_def sh by simp
  then show ?case
    by (simp add: m(1) m2(1) sh r1 r2 e Let_def)
qed simp

subsection \<open>What leaves the provider\<close>

datatype entry = Offered emission | Acked nat

text \<open>The tick records of a log, and the sums of what they count.\<close>

fun offered :: "entry \<Rightarrow> record_draft list" where
  "offered (Offered em) = em_records em"
| "offered (Acked ack) = []"

definition ticks :: "entry list \<Rightarrow> record_draft list" where
  "ticks es = filter (\<lambda>d. dr_kind d = Tick) (concat (map offered es))"

definition counted :: "string \<Rightarrow> record_draft \<Rightarrow> 32 word" where
  "counted member d =
     (case json_get (dr_payload d) member of Some (JInt i) \<Rightarrow> word_of_int i | _ \<Rightarrow> 0)"

definition input_total :: "string \<Rightarrow> entry list \<Rightarrow> 32 word" where
  "input_total member es = sum_list (map (counted member) (ticks es))"

lemma ticks_append [simp]: "ticks (xs @ ys) = ticks xs @ ticks ys"
  by (simp add: ticks_def)

lemma ticks_Nil [simp]: "ticks [] = []"
  by (simp add: ticks_def)

lemma input_total_append [simp]: "input_total m (xs @ ys) = input_total m xs + input_total m ys"
  by (simp add: input_total_def)

lemma input_total_Nil [simp]: "input_total m [] = 0"
  by (simp add: input_total_def)

lemma counted_tick:
  "counted ''keys_delta'' (tick_record now s ti act delta) = ic_keys delta"
  "counted ''mouse_delta'' (tick_record now s ti act delta) = ic_mouse delta"
  by (simp_all add: counted_def tick_record_def tick_payload_def Let_def)

text \<open>Markers: what is sent of locking, unlocking, sleep and waking, and the acknowledgements.\<close>

fun is_marker :: "entry \<Rightarrow> bool" where
  "is_marker (Offered em) = list_ex (\<lambda>d. dr_kind d \<in> {Lock, Unlock, Sleep, Wake}) (em_records em)"
| "is_marker (Acked ack) = True"

fun markers_of :: "wake \<Rightarrow> entry list" where
  "markers_of (Received now ob) =
     (case signal_of (ob_event ob) of
        SignalMarker k \<Rightarrow> [Offered (emission_new [marker k (ob_at ob)])]
      | SignalSleep ack \<Rightarrow> [Offered (awaiting_commit [marker Sleep (ob_at ob)] None), Acked ack]
      | _ \<Rightarrow> [])"
| "markers_of _ = []"

lemma is_marker_sampled: "\<not> is_marker (Offered (emission_new [sample_record k ts s])) \<longleftrightarrow> k \<notin> {Lock, Unlock, Sleep, Wake}"
  by (simp add: emission_new_def sample_record_def)

text \<open>What is pending is for a focus or a state change.\<close>

definition pending_ok :: "window_state \<Rightarrow> bool" where
  "pending_ok st \<longleftrightarrow> (\<forall>p. ws_pending st = Some p \<longrightarrow> pd_kind p = Focus \<or> pd_kind p = StateChange)"

lemma signal_sample_kind: "signal_of ev = SignalSample k app \<Longrightarrow> k = Focus \<or> k = StateChange"
  by (cases ev) auto

lemma schedule_kind:
  "k \<in> {Focus, StateChange} \<Longrightarrow> pd_kind (schedule sch k app ts now) \<in> {Focus, StateChange}"
  by (auto simp: schedule_def Let_def split: option.split)

lemma signal_marker_kind: "signal_of ev = SignalMarker k \<Longrightarrow> k \<in> {Lock, Unlock, Wake}"
  by (cases ev) auto

text \<open>What one turn of the loop adds to the log of sources that keep one.\<close>

definition turn :: "nat \<Rightarrow> wake \<Rightarrow> window_state \<Rightarrow> window_state \<Rightarrow> entry list \<Rightarrow> bool" where
  "turn ti wk st st' new \<longleftrightarrow>
     filter is_marker new = markers_of wk \<and> pending_ok st' \<and>
     (ws_counters st' = ws_counters st \<and> ticks new = [] \<or>
      (\<exists>now s act cur. ws_counters st' = Some cur \<and>
         ticks new = [tick_record now s ti act (fst (advance (ws_counters st) cur))]))"

locale recorder =
  fixes so :: "'w sources" and log :: "'w \<Rightarrow> entry list"
  assumes windows_quiet: "log (snd (so_windows so w)) = log w"
    and displays_quiet: "log (snd (so_displays so w)) = log w"
    and frontmost_quiet: "log (snd (so_frontmost so w)) = log w"
    and bundle_quiet: "log (snd (so_bundle_id so pid w)) = log w"
    and cursor_quiet: "log (snd (so_cursor_display so ds w)) = log w"
    and focused_quiet: "log (snd (so_focused_window so pid w)) = log w"
    and title_quiet: "log (snd (so_window_title so pid w)) = log w"
    and activity_quiet: "log (snd (so_activity so w)) = log w"
    and rescan_quiet: "log (so_rescan so w) = log w"
    and details_quiet: "log (snd (so_details so b w)) = log w"
    and committed_quiet: "log (snd (so_committed so w)) = log w"
    and send_logged: "log (snd (so_send so em w)) = log w @ [Offered em]"
    and acknowledge_logged: "log (so_acknowledge so ack w) = log w @ [Acked ack]"
begin

lemmas quiet = windows_quiet displays_quiet frontmost_quiet bundle_quiet cursor_quiet focused_quiet
  title_quiet activity_quiet rescan_quiet details_quiet committed_quiet

lemma cached_quiet:
  "(\<And>w. log (snd (ask w)) = log w) \<Longrightarrow> log (snd (snd (cached ask pid cache w))) = log w"
  by (auto simp: cached_def Let_def split: option.split prod.split) (metis snd_conv)

lemma visible_entries_quiet: "log (snd (visible_entries so fp fw ft vs bundles titles w)) = log w"
proof (induction vs arbitrary: bundles titles w)
  case (Cons v vs)
  let ?pid = "owner_pid (vw_window v)"
  obtain b m w' where b: "cached (so_bundle_id so ?pid) ?pid bundles w = (b, m, w')" by (cases "cached (so_bundle_id so ?pid) ?pid bundles w")
  obtain t m2 w'' where t: "cached (so_window_title so ?pid) ?pid titles w' = (t, m2, w'')" by (cases "cached (so_window_title so ?pid) ?pid titles w'")
  have w': "log w' = log w"
    using cached_quiet [of "so_bundle_id so ?pid" ?pid bundles w] b by (simp add: bundle_quiet)
  have w'': "log w'' = log w'"
    using cached_quiet [of "so_window_title so ?pid" ?pid titles w'] t by (simp add: title_quiet)
  obtain e1 w1 where r1: "visible_entries so fp fw ft vs m titles w' = (e1, w1)" by fastforce
  obtain e2 w2 where r2: "visible_entries so fp fw ft vs m m2 w'' = (e2, w2)" by fastforce
  obtain shown reason where sh: "shown_title t = (shown, reason)" by fastforce
  show ?case
    using Cons.IH [of m titles w'] Cons.IH [of m m2 w''] w' w'' by (simp add: b t r1 r2 sh Let_def)
qed simp

lemma asked_quiet:
  "log (snd (application_asked so a w)) = log w"
  "log (snd (bundle_asked so b w)) = log w"
  "log (snd (display_asked so visible ds pid w)) = log w"
  "log (snd (details_asked so bid w)) = log w"
  using bundle_quiet [of "app_pid b" w] cursor_quiet [of ds w]
  by (auto simp: application_asked_def bundle_asked_def display_asked_def details_asked_def Let_def
      frontmost_quiet details_quiet split: option.split prod.split)

lemma sample_of_quiet: "log (snd (sample_of so windows displays a w)) = log w"
proof -
  obtain b w1 where 1: "bundle_asked so a w = (b, w1)" by fastforce
  obtain f w2 where 2: "so_focused_window so (app_pid a) w1 = (f, w2)" by fastforce
  obtain t p where tp: "title_path f = (t, p)" by fastforce
  obtain d w3 where 3: "display_asked so (visible_windows windows displays) displays (app_pid a) w2 = (d, w3)"
    by fastforce
  obtain m w4 where 4: "details_asked so b w3 = (m, w4)" by fastforce
  obtain es w5 where 5: "visible_entries so (app_pid a) (map_option window_number (front_window windows (app_pid a)))
      t (visible_windows windows displays) Map.empty Map.empty w4 = (es, w5)" by fastforce
  have "log w5 = log w"
    using asked_quiet(2) [of a w] focused_quiet [of "app_pid a" w1]
      asked_quiet(3) [of "visible_windows windows displays" displays "app_pid a" w2]
      asked_quiet(4) [of b w3] visible_entries_quiet 1 2 3 4 5 by (metis snd_conv)
  then show ?thesis by (simp add: sample_of_def 1 2 3 4 5 tp Let_def)
qed

lemma assemble_quiet: "log (snd (assemble so a w)) = log w"
proof -
  obtain ws w1 where 1: "so_windows so w = (ws, w1)" by fastforce
  obtain ds w2 where 2: "so_displays so w1 = (ds, w2)" by fastforce
  obtain app w3 where 3: "application_asked so a w2 = (app, w3)" by fastforce
  have "log w3 = log w"
    using windows_quiet [of w] displays_quiet [of w1] asked_quiet(1) [of a w2] 1 2 3 by simp
  then show ?thesis
    using sample_of_quiet by (auto simp: assemble_def 1 2 3 split: option.split prod.split) (metis snd_conv)
qed

lemma deliver_sleep_logged:
  "log (deliver_sleep so ts ack w) =
     log w @ [Offered (awaiting_commit [marker Sleep ts] None), Acked ack]"
proof -
  let ?em = "awaiting_commit [marker Sleep ts] None"
  obtain sent w1 where 1: "so_send so ?em w = (sent, w1)" by fastforce
  obtain c w2 where 2: "so_committed so w1 = (c, w2)" by fastforce
  have "log w1 = log w @ [Offered ?em]" "log w2 = log w1"
    using send_logged [of ?em w] committed_quiet [of w1] 1 2 by simp_all
  then show ?thesis by (simp add: deliver_sleep_def 1 2 acknowledge_logged)
qed

lemma step_logged:
  assumes step: "window_step so ti wk st w = (going, st', w')" and ok: "pending_ok st"
  shows "\<exists>new. log w' = log w @ new \<and> turn ti wk st st' new"
proof (cases wk)
  case EventsGone
  with step ok show ?thesis by (auto simp: window_step_def turn_def)
next
  case (Received now ob)
  show ?thesis
  proof (cases "signal_of (ob_event ob)")
    case (SignalSample k app)
    have "pd_kind (schedule (ws_pending st) k app (ob_at ob) now) \<in> {Focus, StateChange}"
      using schedule_kind signal_sample_kind [OF SignalSample] by blast
    with step Received SignalSample show ?thesis
      by (auto simp: window_step_def turn_def pending_ok_def)
  next
    case (SignalMarker k)
    let ?em = "emission_new [marker k (ob_at ob)]"
    obtain sent w1 where 1: "so_send so ?em w = (sent, w1)" by fastforce
    have "log w1 = log w @ [Offered ?em]" using send_logged [of ?em w] 1 by simp
    with step Received SignalMarker 1 ok signal_marker_kind [OF SignalMarker] show ?thesis
      by (auto simp: window_step_def turn_def emission_new_def marker_def ticks_def)
  next
    case (SignalSleep ack)
    with step Received ok deliver_sleep_logged [of "ob_at ob" ack w] show ?thesis
      by (auto simp: window_step_def turn_def awaiting_commit_def marker_def ticks_def)
  qed
next
  case Ticked
  obtain act w1 where 1: "so_activity so (so_rescan so w) = (act, w1)" by fastforce
  obtain s w2 where 2: "assemble so None w1 = (s, w2)" by fastforce
  have w2: "log w2 = log w"
    using rescan_quiet [of w] activity_quiet [of "so_rescan so w"] assemble_quiet [of None w1] 1 2 by simp
  show ?thesis
  proof (cases s)
    case None
    with step Ticked 1 2 w2 ok show ?thesis by (auto simp: window_step_def turn_def pending_ok_def)
  next
    case (Some smp)
    obtain delta prev where d: "advance (ws_counters st) (counters act) = (delta, prev)" by fastforce
    then have prev: "prev = Some (counters act)" by (auto simp: advance_def split: option.splits)
    let ?rec = "tick_record (so_now so w2) smp ti act delta"
    obtain sent w3 where 3: "so_send so (emission_new [?rec]) w2 = (sent, w3)" by fastforce
    have "log w3 = log w @ [Offered (emission_new [?rec])]"
      using send_logged [of "emission_new [?rec]" w2] 3 w2 by simp
    moreover have "w' = w3" "st' = st\<lparr>ws_sampling := SamplingYes, ws_counters := Some (counters act)\<rparr>"
      using step Ticked 1 2 3 Some d prev by (simp_all add: window_step_def report_def)
    moreover have "turn ti wk st (st\<lparr>ws_sampling := SamplingYes, ws_counters := Some (counters act)\<rparr>)
        [Offered (emission_new [?rec])]"
      unfolding turn_def using Ticked ok d
      by (auto simp: pending_ok_def emission_new_def ticks_def tick_record_def)
    ultimately show ?thesis by blast
  qed
next
  case Elapsed
  show ?thesis
  proof (cases "ws_pending st")
    case None
    with step Elapsed ok show ?thesis by (auto simp: window_step_def turn_def)
  next
    case (Some p)
    obtain s w1 where 1: "assemble so (pd_application p) w = (s, w1)" by fastforce
    have w1: "log w1 = log w" using assemble_quiet [of "pd_application p" w] 1 by simp
    have k: "pd_kind p = Focus \<or> pd_kind p = StateChange" using ok Some by (simp add: pending_ok_def)
    show ?thesis
    proof (cases s)
      case None
      with step Elapsed Some 1 w1 show ?thesis by (auto simp: window_step_def turn_def pending_ok_def)
    next
      case (Some smp)
      let ?rec = "sample_record (pd_kind p) (pd_ts p) smp"
      obtain sent w2 where 2: "so_send so (emission_new [?rec]) w1 = (sent, w2)" by fastforce
      have "log w2 = log w @ [Offered (emission_new [?rec])]"
        using send_logged [of "emission_new [?rec]" w1] 2 w1 by simp
      with step Elapsed \<open>ws_pending st = Some p\<close> 1 2 Some k show ?thesis
        by (auto simp: window_step_def turn_def pending_ok_def emission_new_def ticks_def sample_record_def)
    qed
  qed
qed

text \<open>What a run adds: the markers of the turns taken, and input that adds up.\<close>

lemma run_logged:
  assumes "window_run so ti wks st w = (going, st', w')" "pending_ok st"
  shows "\<exists>new n. log w' = log w @ new \<and> n \<le> length wks \<and> (if going then n = length wks else 0 < n) \<and>
           filter is_marker new = concat (map markers_of (take n wks)) \<and>
           (case ws_counters st of
              Some p \<Rightarrow> \<exists>q. ws_counters st' = Some q \<and>
                input_total ''keys_delta'' new = ic_keys q - ic_keys p \<and>
                input_total ''mouse_delta'' new = ic_mouse q - ic_mouse p
            | None \<Rightarrow> (case ticks new of
                []  \<Rightarrow> ws_counters st' = None
              | t # ts \<Rightarrow> counted ''keys_delta'' t = 0 \<and> counted ''mouse_delta'' t = 0))"
  using assms
proof (induction wks arbitrary: st w)
  case Nil
  then show ?case by (auto split: option.split intro!: exI [of _ "[]"])
next
  case (Cons wk wks)
  obtain g st1 w1 where step: "window_step so ti wk st w = (g, st1, w1)" by (cases "window_step so ti wk st w")
  from step_logged [OF step Cons.prems(2)] obtain new where new: "log w1 = log w @ new" "turn ti wk st st1 new"
    by blast
  have ok1: "pending_ok st1" and m1: "filter is_marker new = markers_of wk"
    using new(2) by (simp_all add: turn_def)
  have c1: "ws_counters st1 = ws_counters st \<and> ticks new = [] \<or>
      (\<exists>now s act cur. ws_counters st1 = Some cur \<and>
         ticks new = [tick_record now s ti act (fst (advance (ws_counters st) cur))])"
    using new(2) by (simp add: turn_def)
  have t1: "case ws_counters st of
      Some p \<Rightarrow> \<exists>q. ws_counters st1 = Some q \<and>
                input_total ''keys_delta'' new = ic_keys q - ic_keys p \<and>
                input_total ''mouse_delta'' new = ic_mouse q - ic_mouse p
    | None \<Rightarrow> (case ticks new of
                []  \<Rightarrow> ws_counters st1 = None
              | t # ts \<Rightarrow> counted ''keys_delta'' t = 0 \<and> counted ''mouse_delta'' t = 0)"
    using c1 by (auto simp: input_total_def counted_tick advance_def no_input_def split: option.split)
  show ?case
  proof (cases g)
    case False
    with step Cons.prems(1) have e: "going = False" "st' = st1" "w' = w1" by simp_all
    show ?thesis
      unfolding e by (intro exI [of _ new] exI [of _ "Suc 0"] conjI t1) (simp_all add: new(1) m1)
  next
    case True
    with step Cons.prems(1) have run: "window_run so ti wks st1 w1 = (going, st', w')" by simp
    from Cons.IH [OF run ok1] obtain rest n where r: "log w' = log w1 @ rest" "n \<le> length wks"
      "if going then n = length wks else 0 < n"
      "filter is_marker rest = concat (map markers_of (take n wks))"
      and t: "case ws_counters st1 of
          Some p \<Rightarrow> \<exists>q. ws_counters st' = Some q \<and>
            input_total ''keys_delta'' rest = ic_keys q - ic_keys p \<and>
            input_total ''mouse_delta'' rest = ic_mouse q - ic_mouse p
        | None \<Rightarrow> (case ticks rest of
            []  \<Rightarrow> ws_counters st' = None
          | t # ts \<Rightarrow> counted ''keys_delta'' t = 0 \<and> counted ''mouse_delta'' t = 0)" by blast
    have "case ws_counters st of
        Some p \<Rightarrow> \<exists>q. ws_counters st' = Some q \<and>
          input_total ''keys_delta'' (new @ rest) = ic_keys q - ic_keys p \<and>
          input_total ''mouse_delta'' (new @ rest) = ic_mouse q - ic_mouse p
      | None \<Rightarrow> (case ticks (new @ rest) of
          []  \<Rightarrow> ws_counters st' = None
        | t # ts \<Rightarrow> counted ''keys_delta'' t = 0 \<and> counted ''mouse_delta'' t = 0)"
    proof (cases "ws_counters st")
      case None
      with c1 t1 t show ?thesis by (auto split: list.splits)
    next
      case (Some p)
      with t1 obtain q where "ws_counters st1 = Some q"
        "input_total ''keys_delta'' new = ic_keys q - ic_keys p" "input_total ''mouse_delta'' new = ic_mouse q - ic_mouse p"
        by auto
      with t Some show ?thesis by auto
    qed
    with new(1) m1 r show ?thesis by (intro exI [of _ "new @ rest"] exI [of _ "Suc n"]) (simp split: if_splits)
  qed
qed

end

text \<open>Any sources with a log beside their world.\<close>

definition aside :: "('w \<Rightarrow> 'a \<times> 'w) \<Rightarrow> 'w \<times> 'l \<Rightarrow> 'a \<times> 'w \<times> 'l" where
  "aside ask wl = (let (a, w) = ask (fst wl) in (a, w, snd wl))"

definition logged :: "'w sources \<Rightarrow> ('w \<times> entry list) sources" where
  "logged so =
     \<lparr>so_windows = aside (so_windows so), so_displays = aside (so_displays so),
      so_frontmost = aside (so_frontmost so), so_bundle_id = (\<lambda>pid. aside (so_bundle_id so pid)),
      so_cursor_display = (\<lambda>ds. aside (so_cursor_display so ds)),
      so_focused_window = (\<lambda>pid. aside (so_focused_window so pid)),
      so_window_title = (\<lambda>pid. aside (so_window_title so pid)), so_activity = aside (so_activity so),
      so_rescan = (\<lambda>(w, l). (so_rescan so w, l)), so_details = (\<lambda>b. aside (so_details so b)),
      so_now = (\<lambda>(w, l). so_now so w),
      so_send = (\<lambda>em (w, l). let (sent, w) = so_send so em w in (sent, w, l @ [Offered em])),
      so_committed = aside (so_committed so),
      so_acknowledge = (\<lambda>ack (w, l). (so_acknowledge so ack w, l @ [Acked ack]))\<rparr>"

interpretation logging: recorder "logged so" snd for so
  by unfold_locales (auto simp: logged_def aside_def Let_def split: prod.split)


text \<open>
  What a log tells of locking, unlocking, sleep and waking: the records of these kinds with their instant
  and whether a receipt was asked for that waits for a shipment, and the acknowledgements of sleep; and
  what the events of macOS make due.
\<close>

datatype told = Told kind timestamp bool | Acknowledged_sleep nat

definition marker_kind :: "kind \<Rightarrow> bool" where
  "marker_kind k \<longleftrightarrow> k = Lock \<or> k = Unlock \<or> k = Sleep \<or> k = Wake"

fun tells :: "entry \<Rightarrow> told list" where
  "tells (Offered em) =
     map (\<lambda>d. Told (dr_kind d) (dr_ts d) (em_committed em \<and> em_ships_before_commit em))
       (filter (\<lambda>d. marker_kind (dr_kind d)) (em_records em))"
| "tells (Acked ack) = [Acknowledged_sleep ack]"

fun due :: "wake \<Rightarrow> told list" where
  "due (Received now ob) =
     (case ob_event ob of
        ScreenLocked \<Rightarrow> [Told Lock (ob_at ob) False]
      | ScreenUnlocked \<Rightarrow> [Told Unlock (ob_at ob) False]
      | DidWake \<Rightarrow> [Told Wake (ob_at ob) False]
      | WillSleep ack \<Rightarrow> [Told Sleep (ob_at ob) True, Acknowledged_sleep ack]
      | _ \<Rightarrow> [])"
| "due _ = []"

lemma tells_markers: "concat (map tells es) = concat (map tells (filter is_marker es))"
proof (induction es)
  case (Cons e es)
  have "tells e = []" if "\<not> is_marker e"
    using that by (cases e) (auto simp: list_ex_iff marker_kind_def filter_empty_conv)
  with Cons show ?case by simp
qed simp

lemma tells_markers_of: "concat (map tells (markers_of wk)) = due wk"
proof (cases wk)
  case (Received now ob)
  then show ?thesis
    by (cases "ob_event ob")
      (simp_all add: marker_def emission_new_def awaiting_commit_def marker_kind_def)
qed simp_all

lemma tells_due: "concat (map tells (concat (map markers_of wks))) = concat (map due wks)"
  by (induction wks) (simp_all add: tells_markers_of)

text \<open>
  C38. Locking, unlocking, sleep and waking are reported at once: over any run the records of these kinds
  offered to the runtime are one for each \<open>ScreenLocked\<close>, \<open>ScreenUnlocked\<close>, \<open>WillSleep\<close> and \<open>DidWake\<close> of the
  turns taken, in their order and with their instant; that of a sleep asks for a receipt after a shipment,
  and every request to sleep is acknowledged once, right after its record was offered, whether or not it
  was committed. Nothing of this waits for the debounce or for a tick.
\<close>

theorem markers_in_order:
  "case window_run (logged so) ti wks (window_start st) (w, []) of
     (going, st', w', es) \<Rightarrow>
       \<exists>n\<le>length wks. (if going then n = length wks else 0 < n) \<and>
         concat (map tells es) = concat (map due (take n wks))"
proof -
  obtain going st' w' es where run: "window_run (logged so) ti wks (window_start st) (w, []) = (going, st', w', es)"
    by (cases "window_run (logged so) ti wks (window_start st) (w, [])")
  have ok: "pending_ok (window_start st)" by (simp add: pending_ok_def window_start_def)
  from logging.run_logged [OF run ok] obtain n where n: "n \<le> length wks" "if going then n = length wks else 0 < n"
    "filter is_marker es = concat (map markers_of (take n wks))" by auto
  have "concat (map tells es) = concat (map due (take n wks))"
    unfolding tells_markers [of es] n(3) by (rule tells_due)
  with n(1,2) show ?thesis unfolding run prod.case by blast
qed

text \<open>Sources with nothing in front, whose runtime takes everything but commits no sleep record in time.\<close>

definition quiet_sources :: "unit sources" where
  "quiet_sources =
     \<lparr>so_windows = Pair [], so_displays = Pair [], so_frontmost = Pair None, so_bundle_id = (\<lambda>pid. Pair None),
      so_cursor_display = (\<lambda>ds. Pair None), so_focused_window = (\<lambda>pid. Pair FocusAbsent),
      so_window_title = (\<lambda>pid. Pair Ambiguous),
      so_activity = Pair \<lparr>idle_sec = 0, counters = no_input, mic_active = False, act_locked = False, act_asleep = False\<rparr>,
      so_rescan = id, so_details = (\<lambda>b. Pair []), so_now = (\<lambda>w. Timestamp 0), so_send = (\<lambda>em. Pair True),
      so_committed = Pair SleepTimeout, so_acknowledge = (\<lambda>ack. id)\<rparr>"

definition sample_wakes :: "wake list" where
  "sample_wakes =
     [Received 0 \<lparr>ob_at = Timestamp 1, ob_event = ScreenLocked\<rparr>, Ticked,
      Received 5 \<lparr>ob_at = Timestamp 2, ob_event = WillSleep 7\<rparr>,
      Received 9 \<lparr>ob_at = Timestamp 3, ob_event = DidWake\<rparr>]"

lemma sample_goes_on:
  "fst (window_run (logged quiet_sources) 30 sample_wakes (window_start window_new) ((), []))"
  by code_simp

theorem markers_in_order_witness:
  "case window_run (logged quiet_sources) 30 sample_wakes (window_start window_new) ((), []) of
     (going, st', w', es) \<Rightarrow>
       concat (map tells es) =
         [Told Lock (Timestamp 1) False, Told Sleep (Timestamp 2) True, Acknowledged_sleep 7, Told Wake (Timestamp 3) False]"
proof -
  obtain going st' w' es where
    run: "window_run (logged quiet_sources) 30 sample_wakes (window_start window_new) ((), []) = (going, st', w', es)"
    by (cases "window_run (logged quiet_sources) 30 sample_wakes (window_start window_new) ((), [])")
  have "going" using sample_goes_on unfolding run by simp
  with markers_in_order [where so = quiet_sources and ti = 30 and wks = sample_wakes and st = window_new and w = "()"] show ?thesis
    unfolding run prod.case by (simp add: sample_wakes_def)
qed

end
