(* ===== verification/Subprocess.thy ===== *)
theory Subprocess
  imports Json
begin

text \<open>
  Running a helper program with a deadline, \<open>run_with_deadline\<close> of \<open>src/src/extract/mod.rs\<close>. What
  becomes of the program is a \<open>subprocess\<close>; \<open>String::from_utf8_lossy\<close> is the parameter \<open>lossy\<close>.
\<close>

definition subprocess_deadline :: nat where "subprocess_deadline = 2"   \<comment> \<open>seconds\<close>

datatype subprocess =
    NotStarted
  | PassedDeadline
  | NotCompleted
  | Completed bool string string   \<comment> \<open>success, standard output, standard error, as bytes\<close>

record command_output =
  succeeded :: bool
  stdout :: string
  stderr :: string

definition run_with_deadline :: "(string \<Rightarrow> string) \<Rightarrow> subprocess \<Rightarrow> command_output option" where
  "run_with_deadline lossy child =
     (case child of
        Completed ok out err \<Rightarrow> Some \<lparr>succeeded = ok, stdout = lossy out, stderr = lossy err\<rparr>
      | _ \<Rightarrow> None)"

end
