(* ===== verification/Processes.thy ===== *)
theory Processes
  imports Screen
begin

text \<open>
  The process table, \<open>src/src/macos/processes.rs\<close>: which processes are the foreground of a terminal
  pane, and their arguments and environment as \<open>KERN_PROCARGS2\<close> lays them out. What the kernel answers
  is a \<open>kernel\<close>; bytes are characters, \<open>String::from_utf8_lossy\<close> is the parameter \<open>lossy\<close> and
  \<open>str::to_uppercase\<close> is \<open>upper\<close>.
\<close>

record process_args =
  pa_argv :: "string list"
  pa_env :: "string \<Rightarrow> string option"

record process =
  pr_pid :: int
  pr_pgid :: int
  pr_tdev :: int
  pr_tpgid :: int

record pane =
  pn_session :: string
  pn_pane :: string
  pn_pane_id :: string
  pn_argv :: "string list"
  pn_cwd :: "string option"

definition has_tty :: "process \<Rightarrow> bool" where
  "has_tty p \<longleftrightarrow> pr_tdev p \<noteq> - 1"

definition is_foreground :: "process \<Rightarrow> bool" where
  "is_foreground p \<longleftrightarrow> has_tty p \<and> pr_pgid p = pr_tpgid p"

definition leads_its_group :: "process \<Rightarrow> bool" where
  "leads_its_group p \<longleftrightarrow> pr_pid p = pr_pgid p"

definition no_args :: process_args where
  "no_args = \<lparr>pa_argv = [], pa_env = Map.empty\<rparr>"

subsection \<open>Arguments and environment\<close>

text \<open>A loop \<open>while cursor < buffer.len() && p(buffer[cursor]) { cursor += 1 }\<close>.\<close>

function advance_while :: "(char \<Rightarrow> bool) \<Rightarrow> string \<Rightarrow> nat \<Rightarrow> nat" where
  "advance_while p buffer cursor =
     (if cursor < length buffer \<and> p (buffer ! cursor) then advance_while p buffer (Suc cursor) else cursor)"
  by pat_completeness auto

termination by (relation "measure (\<lambda>(p, buffer, cursor). length buffer - cursor)") auto

declare advance_while.simps [simp del]

definition nul :: char where "nul = CHR 0x00"

text \<open>The string at a cursor and the cursor behind it.\<close>

definition next_string :: "(string \<Rightarrow> string) \<Rightarrow> string \<Rightarrow> nat \<Rightarrow> string option \<times> nat" where
  "next_string lossy buffer cursor =
     (let start = cursor
      in if start \<ge> length buffer then (None, cursor)
         else let stop = advance_while (\<lambda>c. c \<noteq> nul) buffer start
              in if stop = length buffer then (None, length buffer)
                 else (Some (lossy (take (stop - start) (drop start buffer))), Suc stop))"

text \<open>\<open>i32::from_ne_bytes\<close> on a little-endian machine.\<close>

definition i32_from_bytes :: "string \<Rightarrow> int" where
  "i32_from_bytes bs =
     as_i32 (int (of_char (bs ! 0)) + 2 ^ 8 * int (of_char (bs ! 1)) + 2 ^ 16 * int (of_char (bs ! 2)) +
             2 ^ 24 * int (of_char (bs ! 3)))"

text \<open>The arguments: \<open>False\<close> when the buffer ends before them.\<close>

fun take_argv ::
  "(string \<Rightarrow> string) \<Rightarrow> string \<Rightarrow> nat \<Rightarrow> nat \<Rightarrow> process_args \<Rightarrow> bool \<times> nat \<times> process_args" where
  "take_argv lossy buffer 0 cursor args = (True, cursor, args)"
| "take_argv lossy buffer (Suc n) cursor args =
     (case next_string lossy buffer cursor of
        (None, cursor) \<Rightarrow> (False, cursor, args)
      | (Some argument, cursor) \<Rightarrow>
          take_argv lossy buffer n cursor (args\<lparr>pa_argv := pa_argv args @ [argument]\<rparr>))"

definition split_once :: "char \<Rightarrow> string \<Rightarrow> (string \<times> string) option" where
  "split_once c s =
     (case dropWhile (\<lambda>d. d \<noteq> c) s of [] \<Rightarrow> None | _ # rest \<Rightarrow> Some (takeWhile (\<lambda>d. d \<noteq> c) s, rest))"

lemma advance_while_le: "cursor \<le> length buffer \<Longrightarrow> advance_while p buffer cursor \<le> length buffer"
proof (induction p buffer cursor rule: advance_while.induct)
  case (1 p buffer cursor)
  then show ?case by (subst advance_while.simps) auto
qed

lemma advance_while_ge: "cursor \<le> advance_while p buffer cursor"
proof (induction p buffer cursor rule: advance_while.induct)
  case (1 p buffer cursor)
  then show ?case
    by (cases "cursor < length buffer \<and> p (buffer ! cursor)")
      (auto simp: advance_while.simps [of p buffer cursor] dest: Suc_leD)
qed

lemma next_string_progress:
  assumes "next_string lossy buffer cursor = (Some s, cursor')"
  shows "length buffer - cursor' < length buffer - cursor"
  using assms advance_while_ge [of cursor "\<lambda>c. c \<noteq> nul" buffer]
  by (auto simp: next_string_def Let_def split: if_splits)

function take_env :: "(string \<Rightarrow> string) \<Rightarrow> string \<Rightarrow> nat \<Rightarrow> process_args \<Rightarrow> process_args" where
  "take_env lossy buffer cursor args =
     (case next_string lossy buffer cursor of
        (None, _) \<Rightarrow> args
      | (Some entry, cursor') \<Rightarrow>
          if entry = [] then args
          else case split_once CHR ''='' entry of
                 None \<Rightarrow> take_env lossy buffer cursor' args
               | Some (k, v) \<Rightarrow> take_env lossy buffer cursor' (args\<lparr>pa_env := (pa_env args)(k \<mapsto> v)\<rparr>))"
  by pat_completeness auto

termination
  by (relation "measure (\<lambda>(lossy, buffer, cursor, args). length buffer - cursor)")
    (auto dest: next_string_progress [OF sym])

declare take_env.simps [simp del]

definition parse_procargs :: "(string \<Rightarrow> string) \<Rightarrow> string \<Rightarrow> process_args" where
  "parse_procargs lossy buffer =
     (if length buffer < 4 then no_args
      else let argc = i32_from_bytes (take 4 buffer);
               cursor = advance_while (\<lambda>c. c \<noteq> nul) buffer 4;
               cursor = advance_while (\<lambda>c. c = nul) buffer cursor
           in case take_argv lossy buffer (nat (max argc 0)) cursor no_args of
                (False, _, args) \<Rightarrow> args
              | (True, cursor, args) \<Rightarrow> take_env lossy buffer cursor args)"

subsection \<open>The kernel\<close>

text \<open>
  What the kernel answers: the two calls of \<open>proc_listpids\<close>, the second with the buffer as it leaves
  it; per process the bytes read and the fields of \<open>proc_bsdinfo\<close>, the bytes read and the chunks of the
  working directory's path; the two calls of \<open>sysctl\<close>, with status, size and buffer.
\<close>

record kernel =
  ke_pids_size :: int
  ke_pids :: "nat \<Rightarrow> int \<times> int list"
  ke_bsdinfo_size :: int
  ke_bsdinfo :: "int \<Rightarrow> int \<times> (nat \<times> nat \<times> nat)"
  ke_vnodeinfo_size :: int
  ke_vnodeinfo :: "int \<Rightarrow> int \<times> string list"
  ke_args_size :: "int \<Rightarrow> int \<times> nat"
  ke_args :: "int \<Rightarrow> nat \<Rightarrow> int \<times> nat \<times> string"

definition pids :: "kernel \<Rightarrow> int list" where
  "pids ke =
     (if ke_pids_size ke \<le> 0 then []
      else case ke_pids ke (nat (ke_pids_size ke) div 4) of
             (bytes, found) \<Rightarrow>
               if bytes \<le> 0 then [] else filter (\<lambda>pid. 0 < pid) (take (nat bytes div 4) found))"

definition describe :: "kernel \<Rightarrow> int \<Rightarrow> process option" where
  "describe ke pid =
     (case ke_bsdinfo ke pid of
        (got, pgid, tdev, tpgid) \<Rightarrow>
          if got \<noteq> ke_bsdinfo_size ke then None
          else Some \<lparr>pr_pid = pid, pr_pgid = as_i32 (int pgid), pr_tdev = as_i32 (int tdev),
                     pr_tpgid = as_i32 (int tpgid)\<rparr>)"

definition process_list :: "kernel \<Rightarrow> process list" where
  "process_list ke = List.map_filter (describe ke) (pids ke)"

definition cwd :: "(string \<Rightarrow> string) \<Rightarrow> kernel \<Rightarrow> int \<Rightarrow> string option" where
  "cwd lossy ke pid =
     (case ke_vnodeinfo ke pid of
        (got, chunks) \<Rightarrow>
          if got \<noteq> ke_vnodeinfo_size ke then None
          else let path = takeWhile (\<lambda>c. c \<noteq> nul) (concat chunks)
               in if path = [] then None else Some (lossy path))"

definition read_args :: "(string \<Rightarrow> string) \<Rightarrow> kernel \<Rightarrow> int \<Rightarrow> process_args option" where
  "read_args lossy ke pid =
     (case ke_args_size ke pid of
        (probe, room) \<Rightarrow>
          if probe \<noteq> 0 \<or> room = 0 then None
          else case ke_args ke pid room of
                 (status, used, buffer) \<Rightarrow>
                   if status \<noteq> 0 then None else Some (parse_procargs lossy (take used buffer)))"

subsection \<open>Panes\<close>

definition pane_of :: "(string \<Rightarrow> string) \<Rightarrow> process \<Rightarrow> process_args \<Rightarrow> pane option" where
  "pane_of upper p args =
     (if pa_env args ''AGTERM_ENABLED'' \<noteq> Some ''1'' then None
      else case pa_env args ''AGTERM_SESSION_ID'' of
             None \<Rightarrow> None
           | Some session \<Rightarrow>
               if session = [] then None
               else if \<not> is_foreground p \<or> \<not> leads_its_group p then None
               else Some \<lparr>pn_session = upper session,
                          pn_pane = (case pa_env args ''AGTERM_PANE'' of None \<Rightarrow> ''left'' | Some s \<Rightarrow> s),
                          pn_pane_id = (case pa_env args ''AGTERM_PANE_ID'' of None \<Rightarrow> [] | Some s \<Rightarrow> s),
                          pn_argv = pa_argv args, pn_cwd = None\<rparr>)"

fun collect_panes :: "(string \<Rightarrow> string) \<Rightarrow> (string \<Rightarrow> string) \<Rightarrow> kernel \<Rightarrow> process list \<Rightarrow> pane list" where
  "collect_panes lossy upper ke [] = []"
| "collect_panes lossy upper ke (p # ps) =
     (if \<not> is_foreground p \<or> \<not> leads_its_group p then collect_panes lossy upper ke ps
      else case read_args lossy ke (pr_pid p) of
             None \<Rightarrow> collect_panes lossy upper ke ps
           | Some args \<Rightarrow>
               (case pane_of upper p args of
                  None \<Rightarrow> collect_panes lossy upper ke ps
                | Some pane \<Rightarrow>
                    pane\<lparr>pn_cwd := cwd lossy ke (pr_pid p)\<rparr> # collect_panes lossy upper ke ps))"

definition agterm_panes :: "(string \<Rightarrow> string) \<Rightarrow> (string \<Rightarrow> string) \<Rightarrow> kernel \<Rightarrow> pane list" where
  "agterm_panes lossy upper ke = collect_panes lossy upper ke (process_list ke)"

subsection \<open>What the kernel laid out is read back\<close>

text \<open>
  The layout: the count, the path of the executable, NULs up to the arguments, the arguments and the
  environment each ending in a NUL, then an empty string or the end.
\<close>

definition nul_ended :: "string list \<Rightarrow> string" where
  "nul_ended ss = concat (map (\<lambda>s. s @ [nul]) ss)"

definition le32 :: "nat \<Rightarrow> string" where
  "le32 n = map (\<lambda>i. char_of (n div 256 ^ i)) [0, 1, 2, 3]"

definition procargs :: "string \<Rightarrow> nat \<Rightarrow> string list \<Rightarrow> (string \<times> string) list \<Rightarrow> string \<Rightarrow> string" where
  "procargs path padding argv env rest =
     le32 (length argv) @ path @ replicate (Suc padding) nul @ nul_ended argv @
     nul_ended (map (\<lambda>(k, v). k @ ''='' @ v) env) @ rest"

definition plain :: "string \<Rightarrow> bool" where
  "plain s \<longleftrightarrow> nul \<notin> set s"

lemma i32_from_bytes_le32: "n < 2 ^ 31 \<Longrightarrow> i32_from_bytes (le32 n) = int n"
proof -
  assume n: "n < 2 ^ 31"
  define a b c d where "a = n mod 256" and "b = n div 256 mod 256" and "c = n div 65536 mod 256"
    and "d = n div 16777216"
  have d: "d < 128" using n by (simp add: d_def)
  have sum: "n = a + 256 * b + 65536 * c + 16777216 * d"
  proof -
    obtain x y where x: "x = n div 256" and y: "y = x div 256" by blast
    have "c = y mod 256" "d = y div 256" by (simp_all add: c_def d_def x y flip: div_mult2_eq)
    then have "y = c + 256 * d" by simp
    moreover have "x = b + 256 * y" by (simp add: b_def x y)
    moreover have "n = a + 256 * x" by (simp add: a_def x)
    ultimately show "n = a + 256 * b + 65536 * c + 16777216 * d" by simp
  qed
  have "i32_from_bytes (le32 n) = as_i32 (int (a + 256 * b + 65536 * c + 16777216 * d))"
    using d by (simp add: i32_from_bytes_def le32_def a_def b_def c_def d_def)
  also have "\<dots> = int n"
    unfolding sum [symmetric] as_i32_def sint_sbintrunc' using n by (simp add: signed_take_bit_int_eq_self)
  finally show ?thesis .
qed

lemma advance_while_split:
  assumes "list_all p xs" "ys = [] \<or> \<not> p (hd ys)"
  shows "advance_while p (pre @ xs @ ys) (length pre) = length pre + length xs"
  using assms
proof (induction xs arbitrary: pre)
  case Nil
  then show ?case by (subst advance_while.simps) (cases ys; auto)
next
  case (Cons x xs)
  have "advance_while p (pre @ (x # xs) @ ys) (length pre) = advance_while p ((pre @ [x]) @ xs @ ys) (length (pre @ [x]))"
    using Cons.prems by (subst advance_while.simps) (simp add: nth_append)
  then show ?case using Cons.IH [of "pre @ [x]"] Cons.prems by simp
qed

lemma next_string_at:
  assumes "plain s"
  shows "next_string lossy (pre @ s @ nul # post) (length pre) = (Some (lossy s), length (pre @ s @ [nul]))"
proof -
  have "advance_while (\<lambda>c. c \<noteq> nul) (pre @ s @ nul # post) (length pre) = length pre + length s"
    by (rule advance_while_split) (use assms in \<open>auto simp: plain_def list_all_iff\<close>)
  then show ?thesis by (simp add: next_string_def Let_def)
qed

lemma take_argv_at:
  assumes "list_all plain ss" "list_all (\<lambda>s. lossy s = s) ss"
  shows "take_argv lossy (pre @ nul_ended ss @ post) (length ss) (length pre) args =
           (True, length (pre @ nul_ended ss), args\<lparr>pa_argv := pa_argv args @ ss\<rparr>)"
  using assms
proof (induction ss arbitrary: pre args)
  case (Cons s ss)
  have "next_string lossy (pre @ s @ nul # nul_ended ss @ post) (length pre) = (Some (lossy s), length (pre @ s @ [nul]))"
    using Cons.prems by (intro next_string_at) simp
  with Cons.IH [of "pre @ s @ [nul]"] Cons.prems show ?case by (simp add: nul_ended_def)
qed (simp add: nul_ended_def)

lemma split_once_at: "CHR ''='' \<notin> set k \<Longrightarrow> split_once CHR ''='' (k @ ''='' @ v) = Some (k, v)"
  by (simp add: split_once_def dropWhile_append takeWhile_append)

text \<open>The members of a layout: no NULs in what ends in one, and valid text throughout.\<close>

definition laid_out :: "(string \<Rightarrow> string) \<Rightarrow> string \<Rightarrow> string list \<Rightarrow> (string \<times> string) list \<Rightarrow> bool" where
  "laid_out lossy path argv env \<longleftrightarrow>
     plain path \<and> list_all plain argv \<and> list_all (\<lambda>s. lossy s = s) argv \<and> length argv < 2 ^ 31 \<and>
     list_all (\<lambda>(k, v). plain (k @ ''='' @ v) \<and> lossy (k @ ''='' @ v) = k @ ''='' @ v \<and> CHR ''='' \<notin> set k) env \<and>
     lossy [] = []"

text \<open>The last value of a repeated name counts.\<close>

definition env_map :: "(string \<times> string) list \<Rightarrow> string \<Rightarrow> string option" where
  "env_map env = map_of (rev env)"

lemma take_env_at:
  assumes "list_all (\<lambda>(k, v). plain (k @ ''='' @ v) \<and> lossy (k @ ''='' @ v) = k @ ''='' @ v \<and> CHR ''='' \<notin> set k) env"
    and "rest = [] \<or> hd rest = nul" "lossy [] = []"
  shows "take_env lossy (pre @ nul_ended (map (\<lambda>(k, v). k @ ''='' @ v) env) @ rest) (length pre) args =
           args\<lparr>pa_env := pa_env args ++ env_map env\<rparr>"
  using assms(1)
proof (induction env arbitrary: pre args)
  case Nil
  show ?case
  proof (cases rest)
    case Nil
    then show ?thesis by (subst take_env.simps) (simp add: nul_ended_def next_string_def env_map_def)
  next
    case (Cons c post)
    have "next_string lossy (pre @ [] @ nul # post) (length pre) = (Some (lossy []), length (pre @ [] @ [nul]))"
      by (rule next_string_at) (simp add: plain_def)
    with Cons assms(2,3) show ?thesis
      by (subst take_env.simps) (simp add: nul_ended_def env_map_def)
  qed
next
  case (Cons e env)
  obtain k v where e: "e = (k, v)" by (cases e)
  let ?s = "k @ ''='' @ v"
  let ?tail = "nul_ended (map (\<lambda>(k, v). k @ ''='' @ v) env) @ rest"
  have "next_string lossy (pre @ ?s @ nul # ?tail) (length pre) = (Some ?s, length (pre @ ?s @ [nul]))"
    using Cons.prems e next_string_at [of ?s lossy pre ?tail] by simp
  moreover have "split_once CHR ''='' ?s = Some (k, v)" using Cons.prems e split_once_at by simp
  moreover have "take_env lossy ((pre @ ?s @ [nul]) @ ?tail) (length (pre @ ?s @ [nul])) (args\<lparr>pa_env := (pa_env args)(k \<mapsto> v)\<rparr>) =
      args\<lparr>pa_env := (pa_env args)(k \<mapsto> v) ++ env_map env\<rparr>"
    using Cons.IH [of "pre @ ?s @ [nul]"] Cons.prems by simp
  ultimately show ?case
    by (subst take_env.simps) (simp add: nul_ended_def e env_map_def map_add_assoc [symmetric] map_add_upd_left)
qed

text \<open>
  C19. A process's arguments and environment are read back as the kernel laid them out behind the path
  of the executable and any padding, whatever follows them, as long as the first argument is not empty:
  every argument in order, empty ones included, and for every name the last value it was given.
\<close>

theorem procargs_roundtrip:
  assumes "laid_out lossy path argv env" "argv \<noteq> []" "hd argv \<noteq> []" "rest = [] \<or> hd rest = nul"
  shows "parse_procargs lossy (procargs path padding argv env rest) = \<lparr>pa_argv = argv, pa_env = env_map env\<rparr>"
proof -
  let ?args = "nul_ended argv"
  let ?env = "nul_ended (map (\<lambda>(k, v). k @ ''='' @ v) env) @ rest"
  let ?nuls = "replicate (Suc padding) nul"
  let ?n = "le32 (length argv)"
  define buffer where "buffer = procargs path padding argv env rest"
  have n: "length ?n = 4" by (simp add: le32_def)
  have count: "i32_from_bytes (take 4 buffer) = int (length argv)"
    using assms(1) n i32_from_bytes_le32 by (simp add: buffer_def procargs_def laid_out_def)
  have "advance_while (\<lambda>c. c \<noteq> nul) (?n @ path @ (?nuls @ ?args @ ?env)) (length ?n) = length ?n + length path"
    by (rule advance_while_split) (use assms(1) in \<open>auto simp: laid_out_def plain_def list_all_iff\<close>)
  then have path: "advance_while (\<lambda>c. c \<noteq> nul) buffer 4 = 4 + length path"
    by (simp add: buffer_def procargs_def n)
  have first: "hd (?args @ ?env) \<noteq> nul" "?args \<noteq> []"
    using assms(1,2,3) by (cases argv; cases "hd argv"; auto simp: laid_out_def plain_def nul_ended_def)+
  have "advance_while (\<lambda>c. c = nul) ((?n @ path) @ ?nuls @ (?args @ ?env)) (length (?n @ path)) =
      length (?n @ path) + length ?nuls"
    by (rule advance_while_split) (use first in \<open>auto simp: list_all_iff\<close>)
  then have nuls: "advance_while (\<lambda>c. c = nul) buffer (4 + length path) = length (?n @ path @ ?nuls)"
    by (simp add: buffer_def procargs_def n)
  have parts: "buffer = (?n @ path @ ?nuls) @ ?args @ ?env" by (simp add: buffer_def procargs_def)
  have argv: "take_argv lossy buffer (length argv) (length (?n @ path @ ?nuls)) no_args =
      (True, length ((?n @ path @ ?nuls) @ ?args), no_args\<lparr>pa_argv := argv\<rparr>)"
    unfolding parts using assms(1) take_argv_at [of argv lossy "?n @ path @ ?nuls" ?env no_args]
    by (simp add: laid_out_def no_args_def)
  have env: "take_env lossy buffer (length ((?n @ path @ ?nuls) @ ?args)) (no_args\<lparr>pa_argv := argv\<rparr>) =
      \<lparr>pa_argv = argv, pa_env = env_map env\<rparr>"
    using take_env_at [of lossy env rest "(?n @ path @ ?nuls) @ ?args" "no_args\<lparr>pa_argv := argv\<rparr>"] assms(1,4)
    by (simp add: parts laid_out_def no_args_def)
  have "\<not> length buffer < 4" by (simp add: parts n)
  then show ?thesis
    unfolding buffer_def [symmetric] parse_procargs_def
    by (simp only: Let_def if_False count path nuls argv env nat_int max_absorb1 of_nat_0_le_iff prod.case bool.case)
qed

theorem procargs_roundtrip_witness:
  "parse_procargs id (procargs ''/bin/rx'' 3 [''rx'', ''plan.md''] [(''PWD'', ''/a=b''), (''AGTERM_ENABLED'', ''1'')] [nul]) =
     \<lparr>pa_argv = [''rx'', ''plan.md''], pa_env = env_map [(''PWD'', ''/a=b''), (''AGTERM_ENABLED'', ''1'')]\<rparr>"
  by (rule procargs_roundtrip) (simp_all add: laid_out_def plain_def nul_def)

text \<open>
  A first argument that is empty cannot be told from the padding: it is skipped, and the first entry of
  the environment is read as the last argument.
\<close>

lemma empty_first_argument:
  assumes "laid_out lossy path (argv @ [k @ ''='' @ v]) env" "argv \<noteq> []" "hd argv \<noteq> []" "rest = [] \<or> hd rest = nul"
  shows "parse_procargs lossy (procargs path padding ([] # argv) ((k, v) # env) rest) =
           \<lparr>pa_argv = argv @ [k @ ''='' @ v], pa_env = env_map env\<rparr>"
proof -
  have "procargs path padding ([] # argv) ((k, v) # env) rest = procargs path (Suc padding) (argv @ [k @ ''='' @ v]) env rest"
    by (simp add: procargs_def nul_ended_def replicate_app_Cons_same)
  then show ?thesis using procargs_roundtrip [OF assms(1) _ _ assms(4)] assms(2,3) by simp
qed

end
