(* ===== verification/Extractors.thy ===== *)
theory Extractors
  imports Subprocess Processes Claude_Files
begin

text \<open>
  The extractors, \<open>src/src/extract\<close>: the browser's active tab (\<open>dia.rs\<close>) and the terminal's active
  session (\<open>agterm.rs\<close>), each as details of a focused window. Programs are run through
  \<open>run_with_deadline\<close>; the JSON library, the process table and which files exist are parameters. Texts
  are their UTF-8 bytes.
\<close>

definition dia_bundle_id :: string where "dia_bundle_id = ''company.thebrowser.dia''"
definition agterm_bundle_id :: string where "agterm_bundle_id = ''com.umputun.agterm''"

datatype extractor = Dia | Agterm

definition extractor_for_bundle_id :: "string \<Rightarrow> extractor option" where
  "extractor_for_bundle_id b =
     (if b = dia_bundle_id then Some Dia else if b = agterm_bundle_id then Some Agterm else None)"

text \<open>The characters of a text: a byte from 0x80 to 0xBF goes on with the character before it.\<close>

definition continues :: "char \<Rightarrow> bool" where
  "continues c \<longleftrightarrow> 0x80 \<le> byte c \<and> byte c < 0xC0"

function chars :: "string \<Rightarrow> string list" where
  "chars [] = []"
| "chars (c # s) = (c # takeWhile continues s) # chars (dropWhile continues s)"
  by pat_completeness auto

termination by (relation "measure length") (auto simp: length_dropWhile_le less_Suc_eq_le)

text \<open>\<open>split_once\<close> at the last of a character.\<close>

definition rsplit_once :: "char \<Rightarrow> string \<Rightarrow> (string \<times> string) option" where
  "rsplit_once c s = (case split_once c (rev s) of None \<Rightarrow> None | Some (after, before) \<Rightarrow> Some (rev before, rev after))"

definition ascii_lower :: "char \<Rightarrow> char" where
  "ascii_lower c = (if 65 \<le> byte c \<and> byte c \<le> 90 then char_of (byte c + 32) else c)"

definition eq_ignore_ascii_case :: "string \<Rightarrow> string \<Rightarrow> bool" where
  "eq_ignore_ascii_case s t \<longleftrightarrow> map ascii_lower s = map ascii_lower t"

subsection \<open>The browser tab\<close>

definition osascript :: string where "osascript = ''/usr/bin/osascript''"
definition field_separator :: char where "field_separator = CHR 0x1F"
definition automation_denied :: int where "automation_denied = - 1743"
definition no_front_window :: int where "no_front_window = - 1728"
definition apple_event_timeout :: int where "apple_event_timeout = - 1712"

datatype script_error =
    AutomationDenied
  | NoFrontWindow
  | AppleEventTimeout
  | UnknownError "int option"

definition trailing_code :: "string \<Rightarrow> int option" where
  "trailing_code err =
     Option.bind (strip_suffix '')'' (trim_end err)) (\<lambda>s.
     Option.bind (rsplit_once CHR ''('' s) (\<lambda>(before, code).
       parse_signed 32 code))"

definition script_error_of :: "string \<Rightarrow> script_error" where
  "script_error_of err =
     (case trailing_code err of
        None \<Rightarrow> UnknownError None
      | Some code \<Rightarrow>
          if code = automation_denied then AutomationDenied
          else if code = no_front_window then NoFrontWindow
          else if code = apple_event_timeout then AppleEventTimeout
          else UnknownError (Some code))"

definition parse_tab :: "string \<Rightarrow> obj" where
  "parse_tab out =
     (let out = trim_end_matches (\<lambda>c. c = CHR 0x0A \<or> c = CHR 0x0D) out
      in if out = [] then []
         else case split_char field_separator out of
                [url, tab, profile, pinned] \<Rightarrow>
                  if url = [] then []
                  else let d = obj_insert ''url'' (JString url) [];
                           d = (if tab \<noteq> [] then obj_insert ''tab'' (JString tab) d else d);
                           d = (if profile \<noteq> [] then obj_insert ''profile'' (JString profile) d else d)
                       in if pinned = ''true'' then obj_insert ''pinned'' (JBool True) d
                          else if pinned = ''false'' then obj_insert ''pinned'' (JBool False) d
                          else d
              | _ \<Rightarrow> [])"

text \<open>The details, and the error that is logged.\<close>

definition details_from :: "command_output \<Rightarrow> obj \<times> script_error option" where
  "details_from out =
     (if \<not> succeeded out then ([], Some (script_error_of (stderr out))) else (parse_tab (stdout out), None))"

definition active_tab :: "(string \<Rightarrow> string) \<Rightarrow> subprocess \<Rightarrow> obj" where
  "active_tab lossy script =
     (case run_with_deadline lossy script of None \<Rightarrow> [] | Some out \<Rightarrow> fst (details_from out))"

subsection \<open>The terminal's tree\<close>

definition program :: string where "program = ''agtermctl''"
definition bundled_program :: string where
  "bundled_program = ''/Applications/agterm.app/Contents/MacOS/agtermctl''"
definition left_surface :: string where "left_surface = ''left''"
definition quick_surface :: string where "quick_surface = ''quick''"
definition dashboard_surface :: string where "dashboard_surface = ''dashboard''"
definition surface_address :: string where "surface_address = ''surface:''"
definition command_limit :: nat where "command_limit = 512"

record surface =
  su_kind :: string
  su_active :: bool
  su_visible :: bool

record session =
  se_id :: string
  se_name :: string
  se_active :: bool
  se_cwd :: "string option"
  se_foreground :: "string list option"
  se_surfaces :: "surface list"

record workspace =
  ws_name :: string
  ws_active :: bool
  ws_sessions :: "session list"

record term_screen =
  quick_visible :: bool
  zoomed_surface_of :: "string option"
  dashboard_members :: "string list option"

text \<open>
  What \<open>serde\<close> derives for a struct: its members from an object, or by position from an array that has
  no more than they are.
\<close>

definition struct_members :: "string list \<Rightarrow> json \<Rightarrow> (string \<Rightarrow> json option) option" where
  "struct_members names v =
     (case v of
        JObject m \<Rightarrow> Some (obj_get m)
      | JArray xs \<Rightarrow> if length xs \<le> length names then Some (map_of (zip names xs)) else None
      | _ \<Rightarrow> None)"

definition array_of :: "(json \<Rightarrow> 'a option) \<Rightarrow> json \<Rightarrow> 'a list option" where
  "array_of read v = (case v of JArray xs \<Rightarrow> those (map read xs) | _ \<Rightarrow> None)"

definition read_surface :: "json \<Rightarrow> surface option" where
  "read_surface v =
     Option.bind (struct_members [''kind'', ''active'', ''visible''] v) (\<lambda>m.
     Option.bind (default_field [] as_str (m ''kind'')) (\<lambda>kind.
     Option.bind (default_field False as_bool (m ''active'')) (\<lambda>active.
     Option.bind (default_field False as_bool (m ''visible'')) (\<lambda>visible.
       Some \<lparr>su_kind = kind, su_active = active, su_visible = visible\<rparr>))))"

definition read_session :: "json \<Rightarrow> session option" where
  "read_session v =
     Option.bind (struct_members [''id'', ''name'', ''active'', ''cwd'', ''foreground'', ''surfaces''] v) (\<lambda>m.
     Option.bind (default_field [] as_str (m ''id'')) (\<lambda>id.
     Option.bind (Option.bind (m ''name'') as_str) (\<lambda>name.
     Option.bind (default_field False as_bool (m ''active'')) (\<lambda>active.
     Option.bind (optional_field as_str (m ''cwd'')) (\<lambda>cwd.
     Option.bind (optional_field (array_of as_str) (m ''foreground'')) (\<lambda>foreground.
     Option.bind (default_field [] (array_of read_surface) (m ''surfaces'')) (\<lambda>surfaces.
       Some \<lparr>se_id = id, se_name = name, se_active = active, se_cwd = cwd, se_foreground = foreground,
             se_surfaces = surfaces\<rparr>)))))))"

definition read_workspace :: "json \<Rightarrow> workspace option" where
  "read_workspace v =
     Option.bind (struct_members [''name'', ''active'', ''sessions''] v) (\<lambda>m.
     Option.bind (Option.bind (m ''name'') as_str) (\<lambda>name.
     Option.bind (default_field False as_bool (m ''active'')) (\<lambda>active.
     Option.bind (default_field [] (array_of read_session) (m ''sessions'')) (\<lambda>sessions.
       Some \<lparr>ws_name = name, ws_active = active, ws_sessions = sessions\<rparr>))))"

definition read_screen :: "(string \<Rightarrow> json option) \<Rightarrow> term_screen option" where
  "read_screen m =
     Option.bind (default_field False as_bool (m ''quickVisible'')) (\<lambda>quick.
     Option.bind (optional_field as_str (m ''zoomedSurface'')) (\<lambda>zoomed.
     Option.bind (optional_field (array_of as_str) (m ''dashboardMembers'')) (\<lambda>members.
       Some \<lparr>quick_visible = quick, zoomed_surface_of = zoomed, dashboard_members = members\<rparr>)))"

text \<open>The tree, whose screen is flattened into it: an object only.\<close>

definition read_tree :: "json \<Rightarrow> (workspace list \<times> term_screen) option" where
  "read_tree v =
     (case v of
        JObject m \<Rightarrow>
          Option.bind (default_field [] (array_of read_workspace) (obj_get m ''workspaces'')) (\<lambda>workspaces.
          Option.bind (read_screen (obj_get m)) (\<lambda>screen. Some (workspaces, screen)))
      | _ \<Rightarrow> None)"

definition read_response :: "json \<Rightarrow> (workspace list \<times> term_screen) option" where
  "read_response v =
     Option.bind (struct_members [''result''] v) (\<lambda>m.
     Option.bind (m ''result'') (\<lambda>result.
     Option.bind (struct_members [''tree''] result) (\<lambda>m.
     Option.bind (m ''tree'') read_tree)))"

subsection \<open>The session on screen\<close>

definition active_surface :: "surface list \<Rightarrow> string option" where
  "active_surface ss = map_option su_kind (find (\<lambda>s. su_active s \<and> su_visible s) ss)"

definition zoomed_surface :: "string \<Rightarrow> string \<Rightarrow> string option" where
  "zoomed_surface zoomed i =
     (if zoomed = quick_surface then Some quick_surface
      else Option.bind (strip_prefix surface_address zoomed) (\<lambda>address.
           Option.bind (rsplit_once CHR '':'' address) (\<lambda>(zoomed_session, kind).
             if kind = [] \<or> \<not> eq_ignore_ascii_case zoomed_session i then None else Some kind)))"

definition dashboard_open :: "string list option \<Rightarrow> bool" where
  "dashboard_open members = (case members of None \<Rightarrow> False | Some ms \<Rightarrow> ms \<noteq> [])"

definition surface_on_screen :: "term_screen \<Rightarrow> string \<Rightarrow> surface list \<Rightarrow> string option" where
  "surface_on_screen sc i surfaces =
     (if quick_visible sc then Some quick_surface
      else if dashboard_open (dashboard_members sc) then Some dashboard_surface
      else case zoomed_surface_of sc of
             None \<Rightarrow> active_surface surfaces
           | Some zoomed \<Rightarrow> zoomed_surface zoomed i)"

text \<open>The loop of \<open>pane_on\<close>: the only pane that matches.\<close>

fun sole_pane :: "string \<Rightarrow> string \<Rightarrow> pane list \<Rightarrow> pane option \<Rightarrow> pane option" where
  "sole_pane i surf [] found = found"
| "sole_pane i surf (p # ps) found =
     (if pn_session p \<noteq> i \<or> pn_pane p \<noteq> surf then sole_pane i surf ps found
      else if found \<noteq> None then None
      else sole_pane i surf ps (Some p))"

definition pane_on :: "(string \<Rightarrow> string) \<Rightarrow> pane list \<Rightarrow> string \<Rightarrow> string \<Rightarrow> pane option" where
  "pane_on upper panes i surf = sole_pane (upper i) surf panes None"

definition ellipsis :: string where "ellipsis = [CHR 0xE2, CHR 0x80, CHR 0xA6]"

definition command_line :: "string list \<Rightarrow> string option" where
  "command_line argv =
     (let command = join '' '' argv
      in if command = [] then None
         else if length (chars command) \<le> command_limit then Some command
         else Some (concat (take command_limit (chars command)) @ ellipsis))"

definition status_glyphs :: "string list" where
  "status_glyphs =
     map (\<lambda>(b, c). [CHR 0xE2, b, c])
       [(CHR 0x9C, CHR 0xB3), (CHR 0x9C, CHR 0xA2), (CHR 0x9C, CHR 0xB6), (CHR 0x9C, CHR 0xBB),
        (CHR 0x9C, CHR 0xBD), (CHR 0x97, CHR 0x90), (CHR 0x97, CHR 0x93), (CHR 0x97, CHR 0x91),
        (CHR 0x97, CHR 0x92), (CHR 0x97, CHR 0x8F), (CHR 0x97, CHR 0x8B)]"

definition session_identity :: "string \<Rightarrow> string" where
  "session_identity name =
     (let name = trim name
      in case chars name of
           [] \<Rightarrow> []
         | first # rest \<Rightarrow> if first \<notin> set status_glyphs then name else trim_start (concat rest))"

definition nonempty_file_name :: "string \<Rightarrow> string option" where
  "nonempty_file_name command =
     (case file_name command of None \<Rightarrow> None | Some name \<Rightarrow> if name = [] then None else Some name)"

definition compose :: "(string \<Rightarrow> string) \<Rightarrow> string \<Rightarrow> session \<Rightarrow> pane list \<Rightarrow> term_screen \<Rightarrow> obj" where
  "compose upper ws s panes sc =
     (let d = obj_insert ''workspace'' (JString ws) [];
          d = obj_insert ''session'' (JString (session_identity (se_name s))) d;
          surf = surface_on_screen sc (se_id s) (se_surfaces s);
          d = (case surf of None \<Rightarrow> d | Some kind \<Rightarrow> obj_insert ''surface'' (JString kind) d);
          on_screen = Option.bind surf (pane_on upper panes (se_id s));
          on_left = (surf = Some left_surface);
          d = (case Option.bind on_screen (\<lambda>p. command_line (pn_argv p)) of
                 None \<Rightarrow> d | Some command \<Rightarrow> obj_insert ''command'' (JString command) d);
          cwd = (case Option.bind on_screen pn_cwd of
                   Some c \<Rightarrow> Some c
                 | None \<Rightarrow> if on_left then se_cwd s else None);
          d = (case cwd of None \<Rightarrow> d | Some c \<Rightarrow> if c \<noteq> [] then obj_insert ''cwd'' (JString c) d else d)
      in if \<not> on_left then d
         else case se_foreground s of
                None \<Rightarrow> d
              | Some [] \<Rightarrow> d
              | Some (command # _) \<Rightarrow>
                  (case nonempty_file_name command of
                     None \<Rightarrow> d
                   | Some command \<Rightarrow> obj_insert ''foreground'' (JString command) d))"

definition parse_tree :: "(string \<Rightarrow> json option) \<Rightarrow> (string \<Rightarrow> string) \<Rightarrow> string \<Rightarrow> pane list \<Rightarrow> obj" where
  "parse_tree parse upper out panes =
     (case Option.bind (parse out) read_response of
        None \<Rightarrow> []
      | Some (workspaces, sc) \<Rightarrow>
          (case find ws_active workspaces of
             None \<Rightarrow> []
           | Some ws \<Rightarrow>
               (case find se_active (ws_sessions ws) of
                  None \<Rightarrow> []
                | Some s \<Rightarrow> compose upper (ws_name ws) s panes sc)))"

definition resolve_program :: "string option \<Rightarrow> (string \<Rightarrow> bool) \<Rightarrow> string option" where
  "resolve_program path is_file =
     (case Option.bind path (\<lambda>p. find is_file (map (\<lambda>dir. path_join dir program) (split_char CHR '':'' p))) of
        Some candidate \<Rightarrow> Some candidate
      | None \<Rightarrow> if is_file bundled_program then Some bundled_program else None)"

text \<open>What the extractors find: the environment, the programs run, the process table.\<close>

record extract_env =
  xe_path :: "string option"
  xe_is_file :: "string \<Rightarrow> bool"
  xe_run :: "string \<Rightarrow> string list \<Rightarrow> subprocess"
  xe_script :: string
  xe_kernel :: kernel
  xe_parse :: "string \<Rightarrow> json option"
  xe_lossy :: "string \<Rightarrow> string"
  xe_upper :: "string \<Rightarrow> string"

definition active_session :: "extract_env \<Rightarrow> obj" where
  "active_session xe =
     (case resolve_program (xe_path xe) (xe_is_file xe) of
        None \<Rightarrow> []
      | Some prog \<Rightarrow>
          (case run_with_deadline (xe_lossy xe) (xe_run xe prog [''tree'', ''--json'']) of
             None \<Rightarrow> []
           | Some out \<Rightarrow>
               if \<not> succeeded out then []
               else parse_tree (xe_parse xe) (xe_upper xe) (stdout out)
                      (agterm_panes (xe_lossy xe) (xe_upper xe) (xe_kernel xe))))"

definition extractor_details :: "extract_env \<Rightarrow> extractor \<Rightarrow> obj" where
  "extractor_details xe x =
     (case x of
        Dia \<Rightarrow> active_tab (xe_lossy xe) (xe_run xe osascript [''-e'', xe_script xe])
      | Agterm \<Rightarrow> active_session xe)"

definition details_for_focused :: "extract_env \<Rightarrow> string \<Rightarrow> obj" where
  "details_for_focused xe bundle =
     (case extractor_for_bundle_id bundle of None \<Rightarrow> [] | Some x \<Rightarrow> extractor_details xe x)"

end
