(* ===== verification/Mac_Bindings.thy ===== *)
theory Mac_Bindings
  imports Windows_Provider Extractors
begin

text \<open>
  What the daemon reads of macOS: \<open>src/src/macos/ax.rs\<close>, the readers of \<open>window_list.rs\<close>,
  \<open>activity.rs\<close> and \<open>screen.rs\<close>, and \<open>MacSources\<close> of \<open>src/src/providers/windows.rs\<close>, which is these
  as a record of sources. The calls into macOS are the record \<open>mac\<close>, one for every instant; a question
  takes an instant, so two questions need not get the same answer. What the calls return, Core
  Foundation values, is a datatype, and the code's downcasts are matches on it. An element of the
  accessibility tree is a number. The world keeps a trace of what accessibility was asked.
\<close>

subsection \<open>Core Foundation values\<close>

datatype cf =
    CfString string
  | CfNumber "int option"              \<comment> \<open>as an \<open>i64\<close>, if it is one\<close>
  | CfBoolean bool
  | CfArray "cf option list"
  | CfDictionary "(string \<times> cf) list"
  | CfElement nat                      \<comment> \<open>an accessibility element\<close>
  | CfOther

record ns_application =
  na_pid :: int
  na_name :: "string option"
  na_bundle :: "string option"
  na_regular :: bool

datatype event_type = KeyDown | LeftMouseDown | RightMouseDown | OtherMouseDown | ScrollWheel

datatype audio_selector = DefaultInputDevice | RunningSomewhere

text \<open>A status of 0 is success. The window information is that of all windows or of those on screen.\<close>

record mac =
  ma_trusted :: bool
  ma_system_wide :: nat
  ma_application :: "int \<Rightarrow> nat"
  ma_attribute :: "nat \<Rightarrow> string \<Rightarrow> int \<times> cf option"
  ma_element_pid :: "nat \<Rightarrow> int \<times> int"
  ma_window_info :: "bool \<Rightarrow> cf option list option"
  ma_rect :: "(string \<times> cf) list \<Rightarrow> rect option"
  ma_running :: "int \<Rightarrow> ns_application option"
  ma_active_displays :: "int \<times> rect list"
  ma_online_displays :: "int \<times> bool list"    \<comment> \<open>asleep or not\<close>
  ma_session :: "(string \<times> cf) list option"
  ma_idle :: "rat option"                     \<comment> \<open>\<open>None\<close> when not finite\<close>
  ma_counter :: "event_type \<Rightarrow> 32 word"
  ma_system_audio :: nat
  ma_audio :: "nat \<Rightarrow> audio_selector \<Rightarrow> int \<times> nat"
  ma_cursor :: "(rat \<times> rat) option"
  ma_url :: "string \<Rightarrow> url option"
  ma_extract :: extract_env

datatype ax_call = TimeoutSet nat | AttributeAsked nat string

record 'c mac_world =
  mw_time :: nat
  mw_trace :: "ax_call list"
  mw_channel :: 'c

definition ask :: "(nat \<Rightarrow> mac) \<Rightarrow> (mac \<Rightarrow> 'a) \<Rightarrow> 'c mac_world \<Rightarrow> 'a \<times> 'c mac_world" where
  "ask m q w = (q (m (mw_time w)), w\<lparr>mw_time := mw_time w + 1\<rparr>)"

definition traced :: "ax_call \<Rightarrow> 'c mac_world \<Rightarrow> 'c mac_world" where
  "traced c w = w\<lparr>mw_trace := mw_trace w @ [c]\<rparr>"

subsection \<open>Accessibility\<close>

definition attribute_windows :: string where "attribute_windows = ''AXWindows''"
definition attribute_title :: string where "attribute_title = ''AXTitle''"
definition attribute_focused_window :: string where "attribute_focused_window = ''AXFocusedWindow''"
definition attribute_document :: string where "attribute_document = ''AXDocument''"
definition attribute_focused_application :: string where
  "attribute_focused_application = ''AXFocusedApplication''"

text \<open>In milliseconds. Where it cannot be set the code only says so.\<close>

definition messaging_timeout_millis :: nat where "messaging_timeout_millis = 400"

definition apply_messaging_timeout :: "nat \<Rightarrow> 'c mac_world \<Rightarrow> 'c mac_world" where
  "apply_messaging_timeout e w = traced (TimeoutSet e) w"

definition copy_attribute :: "(nat \<Rightarrow> mac) \<Rightarrow> nat \<Rightarrow> string \<Rightarrow> 'c mac_world \<Rightarrow> cf option \<times> 'c mac_world" where
  "copy_attribute m e attr w =
     (let ((status, v), w) = ask m (\<lambda>a. ma_attribute a e attr) (traced (AttributeAsked e attr) w)
      in (if status \<noteq> 0 then None else v, w))"

definition attribute_string :: "(nat \<Rightarrow> mac) \<Rightarrow> nat \<Rightarrow> string \<Rightarrow> 'c mac_world \<Rightarrow> string option \<times> 'c mac_world" where
  "attribute_string m e attr w =
     (let (v, w) = copy_attribute m e attr w
      in (case v of Some (CfString s) \<Rightarrow> Some s | _ \<Rightarrow> None, w))"

definition attribute_element :: "(nat \<Rightarrow> mac) \<Rightarrow> nat \<Rightarrow> string \<Rightarrow> 'c mac_world \<Rightarrow> nat option \<times> 'c mac_world" where
  "attribute_element m e attr w =
     (let (v, w) = copy_attribute m e attr w
      in case v of
           Some (CfElement x) \<Rightarrow> (Some x, apply_messaging_timeout x w)
         | _ \<Rightarrow> (None, w))"

fun take_elements :: "cf option list \<Rightarrow> 'c mac_world \<Rightarrow> nat list \<times> 'c mac_world" where
  "take_elements [] w = ([], w)"
| "take_elements (Some (CfElement x) # vs) w =
     (let (xs, w) = take_elements vs (apply_messaging_timeout x w) in (x # xs, w))"
| "take_elements (v # vs) w = take_elements vs w"

definition attribute_elements :: "(nat \<Rightarrow> mac) \<Rightarrow> nat \<Rightarrow> string \<Rightarrow> 'c mac_world \<Rightarrow> nat list \<times> 'c mac_world" where
  "attribute_elements m e attr w =
     (let (v, w) = copy_attribute m e attr w
      in case v of
           Some (CfArray vs) \<Rightarrow> take_elements vs w
         | _ \<Rightarrow> ([], w))"

definition pid_of :: "int \<Rightarrow> int \<Rightarrow> int option" where
  "pid_of status pid = (if status \<noteq> 0 then None else if pid \<le> 0 then None else Some pid)"

definition element_pid :: "(nat \<Rightarrow> mac) \<Rightarrow> nat \<Rightarrow> 'c mac_world \<Rightarrow> int option \<times> 'c mac_world" where
  "element_pid m e w = (let ((status, pid), w) = ask m (\<lambda>a. ma_element_pid a e) w in (pid_of status pid, w))"

definition focused_application_of :: "(nat \<Rightarrow> mac) \<Rightarrow> nat \<Rightarrow> 'c mac_world \<Rightarrow> int option \<times> 'c mac_world" where
  "focused_application_of m system_wide w =
     (let (e, w) = attribute_element m system_wide attribute_focused_application w
      in case e of None \<Rightarrow> (None, w) | Some e \<Rightarrow> element_pid m e w)"

definition focused_application :: "(nat \<Rightarrow> mac) \<Rightarrow> 'c mac_world \<Rightarrow> int option \<times> 'c mac_world" where
  "focused_application m w =
     (let (system_wide, w) = ask m ma_system_wide w
      in focused_application_of m system_wide (apply_messaging_timeout system_wide w))"

definition ax_for_pid :: "(nat \<Rightarrow> mac) \<Rightarrow> int \<Rightarrow> 'c mac_world \<Rightarrow> nat \<times> 'c mac_world" where
  "ax_for_pid m pid w =
     (let (e, w) = ask m (\<lambda>a. ma_application a pid) w in (e, apply_messaging_timeout e w))"

definition ax_windows :: "(nat \<Rightarrow> mac) \<Rightarrow> nat \<Rightarrow> 'c mac_world \<Rightarrow> nat list \<times> 'c mac_world" where
  "ax_windows m e = attribute_elements m e attribute_windows"

definition ax_focused_window :: "(nat \<Rightarrow> mac) \<Rightarrow> nat \<Rightarrow> 'c mac_world \<Rightarrow> nat option \<times> 'c mac_world" where
  "ax_focused_window m e = attribute_element m e attribute_focused_window"

definition ax_title :: "(nat \<Rightarrow> mac) \<Rightarrow> nat \<Rightarrow> 'c mac_world \<Rightarrow> string option \<times> 'c mac_world" where
  "ax_title m e = attribute_string m e attribute_title"

definition ax_document :: "(nat \<Rightarrow> mac) \<Rightarrow> nat \<Rightarrow> 'c mac_world \<Rightarrow> string option \<times> 'c mac_world" where
  "ax_document m e = attribute_string m e attribute_document"

subsection \<open>The window server\<close>

definition dictionary_string :: "(string \<times> cf) list \<Rightarrow> string \<Rightarrow> string option" where
  "dictionary_string d k = (case map_of d k of Some (CfString s) \<Rightarrow> Some s | _ \<Rightarrow> None)"

definition dictionary_i64 :: "(string \<times> cf) list \<Rightarrow> string \<Rightarrow> int option" where
  "dictionary_i64 d k = (case map_of d k of Some (CfNumber n) \<Rightarrow> n | _ \<Rightarrow> None)"

definition dictionary_rect :: "((string \<times> cf) list \<Rightarrow> rect option) \<Rightarrow> (string \<times> cf) list \<Rightarrow> string \<Rightarrow> rect option" where
  "dictionary_rect rect_of d k = (case map_of d k of Some (CfDictionary r) \<Rightarrow> rect_of r | _ \<Rightarrow> None)"

text \<open>The keys of a window's dictionary are constants of macOS; here they are called what it calls them.\<close>

definition raw_of :: "mac \<Rightarrow> cf option \<Rightarrow> raw_window option" where
  "raw_of a entry =
     (case entry of
        Some (CfDictionary d) \<Rightarrow>
          Some \<lparr>raw_pid = dictionary_i64 d ''kCGWindowOwnerPID'', raw_number = dictionary_i64 d ''kCGWindowNumber'',
                raw_layer = dictionary_i64 d ''kCGWindowLayer'',
                raw_bounds = dictionary_rect (ma_rect a) d ''kCGWindowBounds'',
                raw_owner = dictionary_string d ''kCGWindowOwnerName''\<rparr>
      | _ \<Rightarrow> None)"

definition windows_of :: "bool \<Rightarrow> mac \<Rightarrow> window_entry list" where
  "windows_of on_screen a = windows_matching (map_option (map (raw_of a)) (ma_window_info a on_screen))"

definition window_list :: "(nat \<Rightarrow> mac) \<Rightarrow> 'c mac_world \<Rightarrow> window_entry list \<times> 'c mac_world" where
  "window_list m = ask m (windows_of True)"

definition every_window :: "(nat \<Rightarrow> mac) \<Rightarrow> 'c mac_world \<Rightarrow> window_entry list \<times> 'c mac_world" where
  "every_window m = ask m (windows_of False)"

definition running_application_of :: "ns_application \<Rightarrow> running_application" where
  "running_application_of a = \<lparr>app_pid = na_pid a, app_name = na_name a, app_bundle = na_bundle a\<rparr>"

definition application_for_pid :: "mac \<Rightarrow> int \<Rightarrow> running_application option" where
  "application_for_pid a pid = map_option running_application_of (ma_running a pid)"

definition bundle_id_for_pid :: "mac \<Rightarrow> int \<Rightarrow> string option" where
  "bundle_id_for_pid a pid = Option.bind (ma_running a pid) na_bundle"

definition is_regular_application :: "mac \<Rightarrow> int \<Rightarrow> bool" where
  "is_regular_application a pid = (case ma_running a pid of None \<Rightarrow> False | Some n \<Rightarrow> na_regular n)"

text \<open>The applications asked about in one search are those of one instant.\<close>

definition frontmost_application :: "(nat \<Rightarrow> mac) \<Rightarrow> 'c mac_world \<Rightarrow> running_application option \<times> 'c mac_world" where
  "frontmost_application m w =
     (let (focused, w) = focused_application m w;
          (windows, w) = window_list m w;
          (app_of, w) = ask m application_for_pid w
      in (frontmost_of focused windows app_of, w))"

subsection \<open>Activity\<close>

definition idle_seconds :: "mac \<Rightarrow> int" where
  "idle_seconds a = truncate_idle (ma_idle a)"

definition input_counters_now :: "mac \<Rightarrow> input_counters" where
  "input_counters_now a =
     input_counters_of (ma_counter a KeyDown)
       (map (ma_counter a) [LeftMouseDown, RightMouseDown, OtherMouseDown, ScrollWheel])"

definition audio_property_u32 :: "mac \<Rightarrow> nat \<Rightarrow> audio_selector \<Rightarrow> nat option" where
  "audio_property_u32 a object selector =
     (let (status, v) = ma_audio a object selector in if status \<noteq> 0 then None else Some v)"

definition default_input_device :: "mac \<Rightarrow> nat option" where
  "default_input_device a =
     (case audio_property_u32 a (ma_system_audio a) DefaultInputDevice of
        None \<Rightarrow> None
      | Some device \<Rightarrow> if device = 0 then None else Some device)"

definition mic_active_now :: "mac \<Rightarrow> bool" where
  "mic_active_now a =
     microphone_active (default_input_device a) (\<lambda>d. audio_property_u32 a d RunningSomewhere)"

definition screen_is_locked_key :: string where "screen_is_locked_key = ''CGSSessionScreenIsLocked''"

definition screen_locked_now :: "mac \<Rightarrow> bool" where
  "screen_locked_now a =
     screen_locked (map_option (\<lambda>d. case map_of d screen_is_locked_key of
         Some (CfBoolean b) \<Rightarrow> Some b | _ \<Rightarrow> None) (ma_session a))"

definition displays_asleep_now :: "mac \<Rightarrow> bool" where
  "displays_asleep_now a = displays_asleep (fst (ma_online_displays a)) (snd (ma_online_displays a))"

definition cursor_display_index :: "display_entry list \<Rightarrow> mac \<Rightarrow> nat option" where
  "cursor_display_index ds a = Option.bind (ma_cursor a) (\<lambda>(x, y). display_index_at x y ds)"

subsection \<open>The sources\<close>

definition focused_window_of :: "(nat \<Rightarrow> mac) \<Rightarrow> int \<Rightarrow> 'c mac_world \<Rightarrow> focused_window \<times> 'c mac_world" where
  "focused_window_of m pid w =
     (let (trusted, w) = ask m ma_trusted w
      in if \<not> trusted then (mac_focused_window (ma_url (m (mw_time w))) False None, w)
         else let (e, w) = ax_for_pid m pid w;
                  (window, w) = ax_focused_window m e w
              in case window of
                   None \<Rightarrow> (mac_focused_window (ma_url (m (mw_time w))) True None, w)
                 | Some window \<Rightarrow>
                     let (title, w) = ax_title m window w;
                         (document, w) = ax_document m window w
                     in (mac_focused_window (ma_url (m (mw_time w))) True (Some (title, document)), w))"

text \<open>Only the title of a sole window is asked for.\<close>

definition window_title_of :: "(nat \<Rightarrow> mac) \<Rightarrow> int \<Rightarrow> 'c mac_world \<Rightarrow> window_title \<times> 'c mac_world" where
  "window_title_of m pid w =
     (let (trusted, w) = ask m ma_trusted w
      in if \<not> trusted then (TitleUnavailable, w)
         else let (e, w) = ax_for_pid m pid w;
                  (windows, w) = ax_windows m e w
              in if length windows \<noteq> 1 then (Ambiguous, w)
                 else let (title, w) = ax_title m (hd windows) w in (Sole title, w))"

definition activity_of :: "(nat \<Rightarrow> mac) \<Rightarrow> 'c mac_world \<Rightarrow> activity \<times> 'c mac_world" where
  "activity_of m w =
     (let (idle, w) = ask m idle_seconds w;
          (cs, w) = ask m input_counters_now w;
          (mic, w) = ask m mic_active_now w;
          (locked, w) = ask m screen_locked_now w;
          (asleep, w) = ask m displays_asleep_now w
      in (\<lparr>idle_sec = idle, counters = cs, mic_active = mic, act_locked = locked, act_asleep = asleep\<rparr>, w))"

text \<open>The rest of what the window provider uses: its channel, the handle of the event thread, the clock.\<close>

record 'c channel =
  ch_rescan :: "'c \<Rightarrow> 'c"
  ch_now :: "nat \<Rightarrow> timestamp"
  ch_send :: "emission \<Rightarrow> 'c \<Rightarrow> bool \<times> 'c"
  ch_committed :: "'c \<Rightarrow> sleep_wait \<times> 'c"
  ch_acknowledge :: "nat \<Rightarrow> 'c \<Rightarrow> 'c"

definition on_channel :: "('c \<Rightarrow> 'a \<times> 'c) \<Rightarrow> 'c mac_world \<Rightarrow> 'a \<times> 'c mac_world" where
  "on_channel f w = (let (x, c) = f (mw_channel w) in (x, w\<lparr>mw_channel := c\<rparr>))"

definition mac_sources :: "(nat \<Rightarrow> mac) \<Rightarrow> 'c channel \<Rightarrow> 'c mac_world sources" where
  "mac_sources m ch =
     \<lparr>so_windows = window_list m,
      so_displays = ask m (\<lambda>a. display_list (fst (ma_active_displays a)) (snd (ma_active_displays a))),
      so_frontmost = frontmost_application m,
      so_bundle_id = (\<lambda>pid. ask m (\<lambda>a. bundle_id_for_pid a pid)),
      so_cursor_display = (\<lambda>ds. ask m (cursor_display_index ds)),
      so_focused_window = focused_window_of m,
      so_window_title = window_title_of m,
      so_activity = activity_of m,
      so_rescan = (\<lambda>w. w\<lparr>mw_channel := ch_rescan ch (mw_channel w)\<rparr>),
      so_details = (\<lambda>b. ask m (\<lambda>a. details_for_focused (ma_extract a) b)),
      so_now = (\<lambda>w. ch_now ch (mw_time w)),
      so_send = (\<lambda>em. on_channel (ch_send ch em)),
      so_committed = on_channel (ch_committed ch),
      so_acknowledge = (\<lambda>n w. w\<lparr>mw_channel := ch_acknowledge ch n (mw_channel w)\<rparr>)\<rparr>"

end
