(* ===== verification/Mac_Props.thy ===== *)
theory Mac_Props
  imports Mac_Bindings
begin

text \<open>
  How the window provider treats other applications: accessibility calls go into them and may block, so
  no element is asked before its timeout was set, and a turn asks at most a number of questions that
  depends on how many applications are on the screen, not on how many windows they have.
\<close>

subsection \<open>Traces\<close>

text \<open>Every question is put to an element whose timeout is set: one of \<open>es\<close>, or set earlier in the trace.\<close>

fun timed :: "nat list \<Rightarrow> ax_call list \<Rightarrow> bool" where
  "timed es [] = True"
| "timed es (TimeoutSet e # tr) = timed (e # es) tr"
| "timed es (AttributeAsked e attr # tr) = (e \<in> set es \<and> timed es tr)"

fun is_asked :: "ax_call \<Rightarrow> bool" where
  "is_asked (TimeoutSet e) = False"
| "is_asked (AttributeAsked e attr) = True"

definition asked :: "ax_call list \<Rightarrow> nat" where
  "asked tr = length (filter is_asked tr)"

lemma asked_simps [simp]:
  "asked [] = 0" "asked (TimeoutSet e # tr) = asked tr" "asked (AttributeAsked e attr # tr) = Suc (asked tr)"
  "asked (tr @ tr') = asked tr + asked tr'"
  by (simp_all add: asked_def)

lemma timed_more: "timed es tr \<Longrightarrow> set es \<subseteq> set fs \<Longrightarrow> timed fs tr"
proof (induction es tr arbitrary: fs rule: timed.induct)
  case (2 es e tr)
  then have "set (e # es) \<subseteq> set (e # fs)" by auto
  from "2.IH" [OF _ this] 2 show ?case by simp
qed auto

lemma timed_append: "timed es tr \<Longrightarrow> timed es tr' \<Longrightarrow> timed es (tr @ tr')"
proof (induction es tr rule: timed.induct)
  case (2 es e tr)
  then show ?case using timed_more [of es tr' "e # es"] by auto
qed auto

text \<open>From \<open>w\<close> to \<open>w'\<close> at most \<open>n\<close> questions were asked, each in time.\<close>

definition polite :: "nat \<Rightarrow> 'c mac_world \<Rightarrow> 'c mac_world \<Rightarrow> bool" where
  "polite n w w' \<longleftrightarrow> (\<exists>tr. mw_trace w' = mw_trace w @ tr \<and> timed [] tr \<and> asked tr \<le> n)"

named_theorems polite_intros

lemma polite_refl [polite_intros]: "polite n w w"
  by (auto simp: polite_def)

lemma polite_trans: "polite a w w1 \<Longrightarrow> polite b w1 w2 \<Longrightarrow> polite (a + b) w w2"
proof -
  assume "polite a w w1" "polite b w1 w2"
  then obtain tr tr' where "mw_trace w1 = mw_trace w @ tr" "timed [] tr" "asked tr \<le> a"
    "mw_trace w2 = mw_trace w1 @ tr'" "timed [] tr'" "asked tr' \<le> b" by (auto simp: polite_def)
  then show ?thesis
    unfolding polite_def by (intro exI [of _ "tr @ tr'"]) (simp add: timed_append)
qed

lemma polite_mono: "polite a w w' \<Longrightarrow> a \<le> b \<Longrightarrow> polite b w w'"
  by (auto simp: polite_def intro: le_trans)

lemma polite_same: "mw_trace w' = mw_trace w \<Longrightarrow> polite n w w'"
  by (simp add: polite_def)

subsection \<open>The questions\<close>

lemma ask_sel [simp]:
  "mw_trace (snd (ask m q w)) = mw_trace w" "mw_channel (snd (ask m q w)) = mw_channel w"
  by (simp_all add: ask_def)

lemma traced_sel [simp]: "mw_trace (traced c w) = mw_trace w @ [c]" "mw_time (traced c w) = mw_time w"
  by (simp_all add: traced_def)

lemma copy_attribute_trace: "mw_trace (snd (copy_attribute m e attr w)) = mw_trace w @ [AttributeAsked e attr]"
  by (simp add: copy_attribute_def Let_def ask_def split: prod.split)

lemma attribute_string_trace: "mw_trace (snd (attribute_string m e attr w)) = mw_trace w @ [AttributeAsked e attr]"
  using copy_attribute_trace [of m e attr w] by (auto simp: attribute_string_def Let_def split: prod.splits)

lemma attribute_element_trace:
  assumes "attribute_element m e attr w = (x, w')"
  shows "mw_trace w' = mw_trace w @ AttributeAsked e attr # (case x of None \<Rightarrow> [] | Some x \<Rightarrow> [TimeoutSet x])"
  using assms copy_attribute_trace [of m e attr w]
  by (auto simp: attribute_element_def apply_messaging_timeout_def Let_def split: prod.splits option.splits cf.splits)

lemma take_elements_trace:
  "take_elements vs w = (xs, w') \<Longrightarrow> mw_trace w' = mw_trace w @ map TimeoutSet xs"
  by (induction vs w arbitrary: xs w' rule: take_elements.induct)
    (auto simp: apply_messaging_timeout_def Let_def split: prod.splits)

lemma attribute_elements_trace:
  assumes "attribute_elements m e attr w = (xs, w')"
  shows "mw_trace w' = mw_trace w @ AttributeAsked e attr # map TimeoutSet xs"
  using assms copy_attribute_trace [of m e attr w]
  by (auto simp: attribute_elements_def Let_def dest!: take_elements_trace split: prod.splits option.splits cf.splits)

lemma ax_for_pid_trace: "ax_for_pid m pid w = (e, w') \<Longrightarrow> mw_trace w' = mw_trace w @ [TimeoutSet e]"
  by (auto simp: ax_for_pid_def ask_def apply_messaging_timeout_def)

lemma timed_timeouts: "timed es (map TimeoutSet xs @ tr) = timed (rev xs @ es) tr"
  by (induction xs arbitrary: es) auto

lemma asked_timeouts [simp]: "asked (map TimeoutSet xs) = 0"
  by (induction xs) auto

lemma focused_application_polite: "polite 1 w (snd (focused_application m w))"
proof -
  let ?s = "ma_system_wide (m (mw_time w))" and ?w = "apply_messaging_timeout (ma_system_wide (m (mw_time w))) (snd (ask m ma_system_wide w))"
  obtain x w1 where e: "attribute_element m ?s attribute_focused_application ?w = (x, w1)" by fastforce
  have "mw_trace (snd (focused_application m w)) = mw_trace w1"
    using e by (auto simp: focused_application_def focused_application_of_def element_pid_def ask_def Let_def
        split: option.split prod.split)
  with attribute_element_trace [OF e] show ?thesis
    by (auto simp: polite_def apply_messaging_timeout_def split: option.split)
qed

lemma frontmost_polite [polite_intros]: "polite 1 w (snd (frontmost_application m w))"
proof -
  obtain f w1 where f: "focused_application m w = (f, w1)" by fastforce
  have "mw_trace (snd (frontmost_application m w)) = mw_trace w1"
    by (simp add: frontmost_application_def f window_list_def ask_def)
  with focused_application_polite [of w m] f show ?thesis by (simp add: polite_def)
qed

lemma focused_window_polite [polite_intros]: "polite 3 w (snd (focused_window_of m pid w))"
proof (cases "ma_trusted (m (mw_time w))")
  case False
  then show ?thesis by (simp add: focused_window_of_def ask_def polite_same)
next
  case True
  let ?w = "snd (ask m ma_trusted w)"
  obtain e w1 where e: "ax_for_pid m pid ?w = (e, w1)" by fastforce
  obtain x w2 where x: "attribute_element m e attribute_focused_window w1 = (x, w2)" by fastforce
  note tr = ax_for_pid_trace [OF e] attribute_element_trace [OF x]
  show ?thesis
  proof (cases x)
    case None
    with True e x tr show ?thesis
      by (simp add: focused_window_of_def ask_def ax_focused_window_def polite_def)
  next
    case (Some win)
    obtain t w3 where t: "attribute_string m win attribute_title w2 = (t, w3)" by fastforce
    obtain d w4 where d: "attribute_string m win attribute_document w3 = (d, w4)" by fastforce
    have "mw_trace (snd (focused_window_of m pid w)) = mw_trace w4"
      using True e x Some t d
      by (simp add: focused_window_of_def ask_def ax_focused_window_def ax_title_def ax_document_def Let_def)
    with tr Some attribute_string_trace [of m win attribute_title w2] attribute_string_trace [of m win attribute_document w3]
      t d show ?thesis by (simp add: polite_def)
  qed
qed

lemma window_title_polite [polite_intros]: "polite 2 w (snd (window_title_of m pid w))"
proof (cases "ma_trusted (m (mw_time w))")
  case False
  then show ?thesis by (simp add: window_title_of_def ask_def polite_same)
next
  case True
  let ?w = "snd (ask m ma_trusted w)"
  obtain e w1 where e: "ax_for_pid m pid ?w = (e, w1)" by fastforce
  obtain xs w2 where x: "attribute_elements m e attribute_windows w1 = (xs, w2)" by fastforce
  note tr = ax_for_pid_trace [OF e] attribute_elements_trace [OF x]
  show ?thesis
  proof (cases "length xs = 1")
    case False
    with True e x tr timed_timeouts [of "[e]" xs "[]"] show ?thesis
      by (simp add: window_title_of_def ask_def ax_windows_def polite_def)
  next
    case one: True
    then obtain v where v: "xs = [v]" by (auto simp: length_Suc_conv)
    obtain t w3 where t: "attribute_string m v attribute_title w2 = (t, w3)" by fastforce
    have "mw_trace (snd (window_title_of m pid w)) = mw_trace w3"
      using True e x v t by (simp add: window_title_of_def ask_def ax_windows_def ax_title_def Let_def)
    with tr v attribute_string_trace [of m v attribute_title w2] t show ?thesis by (simp add: polite_def)
  qed
qed

lemma mac_sources_polite [polite_intros]:
  "polite 0 w (snd (so_displays (mac_sources m ch) w))"
  "polite 1 w (snd (so_frontmost (mac_sources m ch) w))"
  "polite 0 w (snd (so_bundle_id (mac_sources m ch) pid w))"
  "polite 0 w (snd (so_cursor_display (mac_sources m ch) ds w))"
  "polite 3 w (snd (so_focused_window (mac_sources m ch) pid w))"
  "polite 2 w (snd (so_window_title (mac_sources m ch) pid w))"
  "polite 0 w (snd (so_activity (mac_sources m ch) w))"
  "polite 0 w (so_rescan (mac_sources m ch) w)"
  "polite 0 w (snd (so_details (mac_sources m ch) b w))"
  "polite 0 w (snd (so_send (mac_sources m ch) em w))"
  "polite 0 w (snd (so_committed (mac_sources m ch) w))"
  "polite 0 w (so_acknowledge (mac_sources m ch) ack w)"
  by (simp_all add: mac_sources_def polite_intros del: One_nat_def)
    (simp_all add: polite_same ask_def activity_of_def on_channel_def Let_def split: prod.split)

subsection \<open>A sample\<close>

lemma cached_polite:
  assumes "\<And>w. polite n w (snd (ask_for w))" and "cached ask_for pid cache w = (x, cache', w')"
  shows "polite (if pid \<in> dom cache then 0 else n) w w' \<and> dom cache' = insert pid (dom cache)"
  using assms(1) [of w] assms(2) by (auto simp: cached_def Let_def polite_refl split: option.splits prod.splits)

definition pids_shown :: "visible_window list \<Rightarrow> int set" where
  "pids_shown vs = (\<lambda>v. owner_pid (vw_window v)) ` set vs"

lemma visible_entries_polite:
  "polite (2 * card (pids_shown vs - dom titles)) w
     (snd (visible_entries (mac_sources m ch) fp fw ft vs bundles titles w))"
proof (induction vs arbitrary: bundles titles w)
  case Nil
  then show ?case by (simp add: polite_refl)
next
  case (Cons v vs)
  let ?so = "mac_sources m ch" and ?pid = "owner_pid (vw_window v)"
  obtain b bs w1 where b: "cached (so_bundle_id ?so ?pid) ?pid bundles w = (b, bs, w1)"
    by (cases "cached (so_bundle_id ?so ?pid) ?pid bundles w")
  obtain t ts w2 where t: "cached (so_window_title ?so ?pid) ?pid titles w1 = (t, ts, w2)"
    by (cases "cached (so_window_title ?so ?pid) ?pid titles w1")
  from cached_polite [OF _ b, of 0] mac_sources_polite(3) have p1: "polite 0 w w1"
    by (auto split: if_splits)
  from cached_polite [OF mac_sources_polite(6) t] have
    p2: "polite (if ?pid \<in> dom titles then 0 else 2) w1 w2" "dom ts = insert ?pid (dom titles)" by auto
  have fin: "finite (pids_shown (v # vs) - dom titles)" by (simp add: pids_shown_def)
  have sub: "pids_shown vs - dom titles \<subseteq> pids_shown (v # vs) - dom titles" by (auto simp: pids_shown_def)
  obtain e1 u1 where r1: "visible_entries ?so fp fw ft vs bs titles w1 = (e1, u1)" by fastforce
  obtain e2 u2 where r2: "visible_entries ?so fp fw ft vs bs ts w2 = (e2, u2)" by fastforce
  obtain sh rs where sh: "shown_title t = (sh, rs)" by fastforce
  have asleep: "polite (2 * card (pids_shown (v # vs) - dom titles)) w u1"
    using polite_trans [OF p1 Cons.IH [of titles w1 bs]] card_mono [OF fin sub] r1
    by (auto intro: polite_mono)
  have "(if ?pid \<in> dom titles then 0 else 2) + 2 * card (pids_shown vs - dom ts) \<le>
      2 * card (pids_shown (v # vs) - dom titles)"
  proof (cases "?pid \<in> dom titles")
    case True
    with p2(2) card_mono [OF fin sub] show ?thesis by (simp add: insert_absorb)
  next
    case False
    have "pids_shown (v # vs) - dom titles = insert ?pid (pids_shown vs - dom ts)" "?pid \<notin> pids_shown vs - dom ts"
      using False p2(2) by (auto simp: pids_shown_def)
    then show ?thesis using False by (simp add: pids_shown_def)
  qed
  with polite_trans [OF p1 polite_trans [OF p2(1) Cons.IH [of ts w2 bs]]] r2
  have awake: "polite (2 * card (pids_shown (v # vs) - dom titles)) w u2"
    by (auto intro: polite_mono)
  from asleep awake show ?case by (simp add: b t r1 r2 sh Let_def)
qed

text \<open>The applications that own a window of the ordinary layer on the screen.\<close>

definition on_screen_pids :: "mac \<Rightarrow> int set" where
  "on_screen_pids a = owner_pid ` set (filter (\<lambda>w. layer w = 0) (windows_of True a))"

lemma visible_windows_sub:
  "(\<lambda>v. owner_pid (vw_window v)) ` set (visible_windows ws ds) \<subseteq> owner_pid ` set (filter (\<lambda>w. layer w = 0) ws)"
  by (induction ws ds rule: visible_windows.induct) (auto split: option.split)

lemma assemble_polite:
  "polite (4 + 2 * card (on_screen_pids (m (mw_time w)))) w (snd (assemble (mac_sources m ch) activated w))"
proof -
  let ?so = "mac_sources m ch"
  obtain ws w1 where 1: "so_windows ?so w = (ws, w1)" by fastforce
  have ws: "ws = windows_of True (m (mw_time w))" "polite 0 w w1"
    using 1 by (auto simp: mac_sources_def window_list_def ask_def polite_same)
  obtain ds w2 where 2: "so_displays ?so w1 = (ds, w2)" by fastforce
  obtain app w3 where 3: "application_asked ?so activated w2 = (app, w3)" by fastforce
  have p2: "polite 0 w1 w2" using mac_sources_polite(1) [of w1 m ch] 2 by simp
  have p3: "polite 1 w2 w3"
    using 3 mac_sources_polite(2) [of w2 m ch]
    by (auto simp: application_asked_def polite_refl split: option.splits if_splits)
  have p: "polite 1 w w3" using polite_trans [OF ws(2) polite_trans [OF p2 p3]] by simp
  show ?thesis
  proof (cases app)
    case None
    with p show ?thesis by (simp add: assemble_def 1 2 3 polite_mono)
  next
    case (Some a)
    let ?vs = "visible_windows ws ds"
    obtain b w4 where 4: "bundle_asked ?so a w3 = (b, w4)" by fastforce
    obtain f w5 where 5: "so_focused_window ?so (app_pid a) w4 = (f, w5)" by fastforce
    obtain t q where tq: "title_path f = (t, q)" by fastforce
    obtain d w6 where 6: "display_asked ?so ?vs ds (app_pid a) w5 = (d, w6)" by fastforce
    obtain de w7 where 7: "details_asked ?so b w6 = (de, w7)" by fastforce
    obtain es w8 where 8: "visible_entries ?so (app_pid a) (map_option window_number (front_window ws (app_pid a)))
        t ?vs Map.empty Map.empty w7 = (es, w8)" by fastforce
    have p4: "polite 0 w3 w4" using 4 mac_sources_polite(3) [of w3 m ch "app_pid a"]
      by (auto simp: bundle_asked_def Let_def polite_refl split: option.splits prod.splits)
    have p5: "polite 3 w4 w5" using mac_sources_polite(5) [of w4 m ch "app_pid a"] 5 by simp
    have p6: "polite 0 w5 w6" using 6 mac_sources_polite(4) [of w5 m ch ds]
      by (auto simp: display_asked_def Let_def polite_refl split: option.splits prod.splits)
    have p7: "polite 0 w6 w7" using 7 mac_sources_polite(9) [of w6 m ch b]
      by (auto simp: details_asked_def polite_refl split: if_splits)
    have "finite (on_screen_pids (m (mw_time w)))" by (simp add: on_screen_pids_def)
    then have "card (pids_shown ?vs) \<le> card (on_screen_pids (m (mw_time w)))"
      using visible_windows_sub [of ws ds] ws(1) by (intro card_mono) (simp_all add: pids_shown_def on_screen_pids_def)
    moreover have "polite (2 * card (pids_shown ?vs - dom (Map.empty :: int \<rightharpoonup> window_title))) w7 w8"
      using visible_entries_polite [where m = m and ch = ch and fp = "app_pid a" and ft = t and vs = ?vs
        and fw = "map_option window_number (front_window ws (app_pid a))" and bundles = Map.empty
        and titles = Map.empty and w = w7] unfolding 8 snd_conv .
    ultimately have p8: "polite (2 * card (on_screen_pids (m (mw_time w)))) w7 w8"
      by (auto intro: polite_mono)
    have "polite (4 + 2 * card (on_screen_pids (m (mw_time w)))) w w8"
      using polite_trans [OF p polite_trans [OF p4 polite_trans [OF p5 polite_trans [OF p6 polite_trans [OF p7 p8]]]]]
      by simp
    then show ?thesis
      by (simp add: assemble_def 1 2 3 Some sample_of_def 4 5 tq 6 7 8 Let_def)
  qed
qed

text \<open>
  C5. A turn of the window provider does not hang in another application: whatever macOS answers from one
  question to the next, every attribute is asked of an element whose messaging timeout was set earlier in
  that turn, and a turn asks at most four attributes and two more for each application that owns an
  ordinary window on the screen when it looks (on a tick after the five readings of activity), however
  many windows it has. With the timeout of 400 milliseconds that bounds the time a turn is kept waiting.
\<close>

theorem turn_never_hangs:
  "case window_step (mac_sources m ch) ti wk st w of
     (going, st', w') \<Rightarrow>
       \<exists>tr. mw_trace w' = mw_trace w @ tr \<and> timed [] tr \<and>
         asked tr \<le> 4 + 2 * card (on_screen_pids (m (mw_time w + (if wk = Ticked then 5 else 0))))"
proof -
  let ?so = "mac_sources m ch" and ?B = "\<lambda>t. 4 + 2 * card (on_screen_pids (m t))"
  let ?t = "mw_time w + (if wk = Ticked then 5 else 0)"
  have send: "polite n w (snd (so_send ?so em w))" for n em w
    using polite_mono [OF mac_sources_polite(10)] by blast
  have sleep: "polite n w (deliver_sleep ?so ts ack w)" for n ts ack w
  proof -
    obtain sent w1 where 1: "so_send ?so (awaiting_commit [marker Sleep ts] None) w = (sent, w1)" by fastforce
    obtain wt w2 where 2: "so_committed ?so w1 = (wt, w2)" by fastforce
    have "polite 0 w w1" "polite 0 w1 w2" "polite 0 w1 (so_acknowledge ?so ack w1)" "polite 0 w2 (so_acknowledge ?so ack w2)"
      using send [of 0 w "awaiting_commit [marker Sleep ts] None"] 1 mac_sources_polite(11) [of w1 m ch] 2
        mac_sources_polite(12) by auto
    then have "polite (0 + (0 + 0)) w (deliver_sleep ?so ts ack w)"
      using polite_trans [of 0 w w1 0] polite_trans [of 0 w1 w2 0] by (simp add: deliver_sleep_def 1 2 Let_def)
    then show ?thesis by (rule polite_mono) simp
  qed
  have "polite (?B ?t) w (snd (snd (window_step ?so ti wk st w)))"
  proof (cases wk)
    case (Received now ob)
    with sleep send show ?thesis
      by (cases "signal_of (ob_event ob)") (auto simp: window_step_def Let_def polite_refl split: prod.split, metis snd_conv)
  next
    case EventsGone
    then show ?thesis by (auto simp: window_step_def polite_refl)
  next
    case Ticked
    obtain act w1 where 1: "so_activity ?so (so_rescan ?so w) = (act, w1)" by fastforce
    have p: "polite 0 w w1"
      using polite_trans [OF mac_sources_polite(8) mac_sources_polite(7), of w m ch m ch] 1 by simp
    have t: "mw_time w1 = ?t" using 1 Ticked by (auto simp: mac_sources_def activity_of_def ask_def)
    obtain s w2 where 2: "assemble ?so None w1 = (s, w2)" by fastforce
    have p2: "polite (?B ?t) w w2" using polite_trans [OF p assemble_polite [of m w1 ch None]] 2 t by simp
    show ?thesis
    proof (cases s)
      case None
      with Ticked 1 2 p2 show ?thesis by (auto simp: window_step_def Let_def)
    next
      case (Some a)
      have "polite (?B ?t) w (snd (so_send ?so em w2))" for em
        using polite_trans [OF p2 send [of 0 w2 em]] by simp
      with Ticked 1 2 Some show ?thesis
        by (auto simp: window_step_def Let_def split: prod.split) (metis snd_conv)
    qed
  next
    case Elapsed
    show ?thesis
    proof (cases "ws_pending st")
      case None
      with Elapsed show ?thesis by (auto simp: window_step_def polite_refl)
    next
      case (Some p)
      obtain s w2 where 2: "assemble ?so (pd_application p) w = (s, w2)" by fastforce
      have p2: "polite (?B (mw_time w)) w w2" using assemble_polite [of m w ch "pd_application p"] 2 by simp
      have "polite (?B (mw_time w)) w (snd (so_send ?so em w2))" for em
        using polite_trans [OF p2 send [of 0 w2 em]] by simp
      with Elapsed Some 2 p2 show ?thesis
        by (cases s) (auto simp: window_step_def Let_def split: prod.split, metis snd_conv)
    qed
  qed
  then show ?thesis by (auto simp: polite_def split: prod.split)
qed

end
