(* ===== verification/Events.thy ===== *)
theory Events
  imports Windows_Provider
begin

text \<open>
  The event thread, \<open>src/src/macos/events.rs\<close>: the callbacks macOS runs on its run loop, what they send
  to the window provider, and which applications it observes. A callback is a constructor of
  \<open>callback\<close> with what macOS hands it; a run of the loop is a fold over callbacks. The time stamp of an
  event is the clock at its sending: \<open>clk n\<close> for the \<open>n\<close>-th event sent. An acknowledgement is named by
  the number of the event that carries it. The maps \<open>observers\<close> and \<open>refused\<close> are sets of process ids;
  the order in which the code iterates over them makes no difference to what it does.
\<close>

definition test_events_var :: string where "test_events_var = ''NIKKI_TEST_EVENTS''"
definition screen_locked_notification :: string where
  "screen_locked_notification = ''com.apple.screenIsLocked''"
definition screen_unlocked_notification :: string where
  "screen_unlocked_notification = ''com.apple.screenIsUnlocked''"

datatype ax_notification =
    AxApplicationActivated
  | AxApplicationDeactivated
  | AxFocusedWindowChanged
  | AxTitleChanged
  | AxWindowCreated
  | AxUiElementDestroyed

definition ax_notifications :: "(string \<times> ax_notification) list" where
  "ax_notifications =
     [(''AXApplicationActivated'', AxApplicationActivated),
      (''AXApplicationDeactivated'', AxApplicationDeactivated),
      (''AXFocusedWindowChanged'', AxFocusedWindowChanged),
      (''AXTitleChanged'', AxTitleChanged),
      (''AXWindowCreated'', AxWindowCreated),
      (''AXUIElementDestroyed'', AxUiElementDestroyed)]"

datatype sleep_flush = FlushAcknowledged | FlushBudgetExpired | FlushAbandoned

datatype injected = InjectedEvent mac_event | InjectedSleep

subsection \<open>From notifications to events\<close>

definition screen_event_from_name :: "string \<Rightarrow> mac_event option" where
  "screen_event_from_name name =
     (if name = screen_locked_notification then Some ScreenLocked
      else if name = screen_unlocked_notification then Some ScreenUnlocked
      else None)"

fun first_named :: "(string \<times> ax_notification) list \<Rightarrow> string \<Rightarrow> ax_notification option" where
  "first_named [] name = None"
| "first_named ((candidate, n) # rest) name = (if candidate = name then Some n else first_named rest name)"

definition ax_notification_from_name :: "string \<Rightarrow> ax_notification option" where
  "ax_notification_from_name name = first_named ax_notifications name"

fun ax_event :: "ax_notification \<Rightarrow> int \<Rightarrow> (int \<Rightarrow> running_application option) \<Rightarrow> mac_event option" where
  "ax_event AxApplicationActivated pid application_of =
     Some (ApplicationActivated
       (case application_of pid of
          Some a \<Rightarrow> a
        | None \<Rightarrow> \<lparr>app_pid = pid, app_name = None, app_bundle = None\<rparr>))"
| "ax_event AxApplicationDeactivated pid application_of = None"
| "ax_event AxFocusedWindowChanged pid application_of = Some (FocusedWindowChanged pid)"
| "ax_event AxTitleChanged pid application_of = Some (TitleChanged pid)"
| "ax_event AxWindowCreated pid application_of = Some (WindowCreated pid)"
| "ax_event AxUiElementDestroyed pid application_of = Some (WindowDestroyed pid)"

subsection \<open>Scripted events\<close>

definition pid_event :: "(int \<Rightarrow> mac_event) \<Rightarrow> string list \<Rightarrow> injected option" where
  "pid_event ev fs =
     (case fs of [] \<Rightarrow> None | f # fs \<Rightarrow> map_option (\<lambda>pid. InjectedEvent (ev pid)) (parse_signed 32 f))"

definition activated_event :: "string list \<Rightarrow> injected option" where
  "activated_event fs =
     (case fs of
        [] \<Rightarrow> None
      | f # fs \<Rightarrow>
          map_option (\<lambda>pid. InjectedEvent (ApplicationActivated
              \<lparr>app_pid = pid, app_name = (case fs of [] \<Rightarrow> None | n # fs \<Rightarrow> Some n),
               app_bundle = (case fs of n # b # fs \<Rightarrow> Some b | _ \<Rightarrow> None)\<rparr>))
            (parse_signed 32 f))"

definition scripted_event :: "string \<Rightarrow> injected option" where
  "scripted_event line =
     (case split_char (CHR 0x09) line of
        [] \<Rightarrow> None
      | name # fs \<Rightarrow>
          if name = ''application_activated'' then activated_event fs
          else if name = ''focused_window_changed'' then pid_event FocusedWindowChanged fs
          else if name = ''title_changed'' then pid_event TitleChanged fs
          else if name = ''window_created'' then pid_event WindowCreated fs
          else if name = ''window_destroyed'' then pid_event WindowDestroyed fs
          else if name = ''displays_reconfigured'' then Some (InjectedEvent DisplaysReconfigured)
          else if name = ''screen_locked'' then Some (InjectedEvent ScreenLocked)
          else if name = ''screen_unlocked'' then Some (InjectedEvent ScreenUnlocked)
          else if name = ''did_wake'' then Some (InjectedEvent DidWake)
          else if name = ''will_sleep'' then Some InjectedSleep
          else None)"

text \<open>\<open>str::lines\<close>: at newlines, without a carriage return before them and without an empty last line.\<close>

definition strip_cr :: "string \<Rightarrow> string" where
  "strip_cr s = (case strip_suffix [CHR 0x0D] s of None \<Rightarrow> s | Some r \<Rightarrow> r)"

definition text_lines :: "string \<Rightarrow> string list" where
  "text_lines s =
     (let parts = split_char (CHR 0x0A) s
      in map strip_cr (if last parts = [] then butlast parts else parts))"

definition scripted_line :: "string \<Rightarrow> injected option" where
  "scripted_line line =
     (let line = trim_end_matches (\<lambda>c. c = CHR 0x0D) line
      in if trim line = [] then None else scripted_event line)"

definition scripted_events :: "string option \<Rightarrow> injected list" where
  "scripted_events content =
     (case content of None \<Rightarrow> [] | Some s \<Rightarrow> List.map_filter scripted_line (text_lines s))"

subsection \<open>The thread\<close>

record event_state =
  ev_alive :: bool                  \<comment> \<open>the receiver has not been dropped\<close>
  ev_sent :: "observed list"
  ev_injected :: "injected list"
  ev_rescan :: bool
  ev_register :: bool
  ev_observers :: "int set"
  ev_refused :: "int set"

definition event_start :: "bool \<Rightarrow> injected list \<Rightarrow> event_state" where
  "event_start register scripted =
     \<lparr>ev_alive = True, ev_sent = [], ev_injected = scripted, ev_rescan = register, ev_register = register,
      ev_observers = {}, ev_refused = {}\<rparr>"

text \<open>\<open>EventThread::spawn\<close>: a scripted file replaces the system's events.\<close>

definition spawn :: "string option option \<Rightarrow> event_state" where
  "spawn script =
     (case script of
        None \<Rightarrow> event_start True []
      | Some content \<Rightarrow> event_start False (scripted_events content))"

definition emit :: "(nat \<Rightarrow> timestamp) \<Rightarrow> mac_event \<Rightarrow> event_state \<Rightarrow> event_state" where
  "emit clk ev st =
     (if ev_alive st
      then st\<lparr>ev_sent := ev_sent st @ [\<lparr>ob_at = clk (length (ev_sent st)), ob_event = ev\<rparr>]\<rparr>
      else st)"

definition request_rescan :: "event_state \<Rightarrow> event_state" where
  "request_rescan st = st\<lparr>ev_rescan := True\<rparr>"

text \<open>How waiting for an acknowledgement ends: received, timed out, or the other end dropped.\<close>

datatype waited = GotAck | TimedOut | Disconnected

definition deliver_will_sleep ::
  "(nat \<Rightarrow> timestamp) \<Rightarrow> waited \<Rightarrow> event_state \<Rightarrow> sleep_flush \<times> event_state" where
  "deliver_will_sleep clk answer st =
     (if \<not> ev_alive st then (FlushAbandoned, st)
      else (case answer of
              GotAck \<Rightarrow> FlushAcknowledged
            | TimedOut \<Rightarrow> FlushBudgetExpired
            | Disconnected \<Rightarrow> FlushAbandoned,
            emit clk (WillSleep (length (ev_sent st))) st))"

record observer_plan =
  pl_attach :: "int list"
  pl_detach :: "int list"
  pl_forget :: "int list"

fun plan_attach :: "int list \<Rightarrow> int list \<Rightarrow> int list \<Rightarrow> int list \<Rightarrow> int list" where
  "plan_attach attached refused [] acc = acc"
| "plan_attach attached refused (pid # present) acc =
     (if pid \<in> set attached \<or> pid \<in> set refused \<or> pid \<in> set acc then plan_attach attached refused present acc
      else plan_attach attached refused present (acc @ [pid]))"

definition observer_plan_of :: "int list \<Rightarrow> int list \<Rightarrow> int list \<Rightarrow> observer_plan" where
  "observer_plan_of attached refused present =
     \<lparr>pl_attach = plan_attach attached refused present [],
      pl_detach = filter (\<lambda>pid. pid \<notin> set present) attached,
      pl_forget = filter (\<lambda>pid. pid \<notin> set present) refused\<rparr>"

fun collect_pids :: "(int \<Rightarrow> bool) \<Rightarrow> window_entry list \<Rightarrow> int list \<Rightarrow> int list" where
  "collect_pids is_app [] pids = pids"
| "collect_pids is_app (w # ws) pids =
     (if layer w \<noteq> 0 \<or> owner_pid w \<in> set pids then collect_pids is_app ws pids
      else if \<not> is_app (owner_pid w) then collect_pids is_app ws pids
      else collect_pids is_app ws (pids @ [owner_pid w]))"

definition application_pids :: "window_entry list \<Rightarrow> (int \<Rightarrow> bool) \<Rightarrow> int list" where
  "application_pids windows is_app = collect_pids is_app windows []"

text \<open>
  What accessibility answers during one rescan: whether it is trusted, whether an observer of a process
  can be made, and which notifications the process accepts.
\<close>

record accessibility =
  ac_trusted :: bool
  ac_observer :: "int \<Rightarrow> bool"
  ac_accepts :: "int \<Rightarrow> string \<Rightarrow> bool"

definition registration_created :: "accessibility \<Rightarrow> int \<Rightarrow> bool" where
  "registration_created ac pid \<longleftrightarrow>
     ac_observer ac pid \<and> length (filter (\<lambda>(name, _). ac_accepts ac pid name) ax_notifications) \<noteq> 0"

fun attach_all :: "accessibility \<Rightarrow> int list \<Rightarrow> event_state \<Rightarrow> event_state" where
  "attach_all ac [] st = st"
| "attach_all ac (pid # pids) st =
     (if \<not> registration_created ac pid
      then attach_all ac pids (st\<lparr>ev_refused := insert pid (ev_refused st)\<rparr>)
      else attach_all ac pids (st\<lparr>ev_observers := insert pid (ev_observers st)\<rparr>))"

definition rescan_observers :: "accessibility \<Rightarrow> int list \<Rightarrow> event_state \<Rightarrow> event_state" where
  "rescan_observers ac present st =
     (if \<not> ac_trusted ac then st
      else let plan = observer_plan_of (sorted_list_of_set (ev_observers st))
                        (sorted_list_of_set (ev_refused st)) present;
               st = st\<lparr>ev_observers := ev_observers st - set (pl_detach plan)\<rparr>;
               st = st\<lparr>ev_refused := ev_refused st - set (pl_forget plan)\<rparr>
           in attach_all ac (pl_attach plan) st)"

text \<open>The injected items, each sleep with how waiting for it ends.\<close>

fun deliver_injected :: "(nat \<Rightarrow> timestamp) \<Rightarrow> (nat \<Rightarrow> waited) \<Rightarrow> injected list \<Rightarrow> event_state \<Rightarrow> event_state" where
  "deliver_injected clk answer [] st = st"
| "deliver_injected clk answer (item # items) st =
     deliver_injected clk answer items
       (case item of
          InjectedEvent ev \<Rightarrow> emit clk ev st
        | InjectedSleep \<Rightarrow> snd (deliver_will_sleep clk (answer (length (ev_sent st))) st))"

definition perform_source ::
  "(nat \<Rightarrow> timestamp) \<Rightarrow> (nat \<Rightarrow> waited) \<Rightarrow> accessibility \<Rightarrow> window_entry list \<Rightarrow> (int \<Rightarrow> bool) \<Rightarrow>
     event_state \<Rightarrow> event_state" where
  "perform_source clk answer ac every_window is_regular st =
     (let drained = ev_injected st;
          st = deliver_injected clk answer drained (st\<lparr>ev_injected := []\<rparr>)
      in if \<not> ev_rescan st then st
         else let st = st\<lparr>ev_rescan := False\<rparr>
              in if \<not> ev_register st then st
                 else rescan_observers ac (application_pids every_window is_regular) st)"

datatype callback =
    Activation "running_application option"
  | SleepNotice waited
  | WakeNotice
  | ScreenNotice string
  | DisplayNotice bool                    \<comment> \<open>a reconfiguration begins\<close>
  | AxNotice string "int option" "int \<Rightarrow> running_application option"
  | RescanRequest
  | SourcePerformed "nat \<Rightarrow> waited" accessibility "window_entry list" "int \<Rightarrow> bool"
  | ReceiverDropped

definition on_ax_notification ::
  "(nat \<Rightarrow> timestamp) \<Rightarrow> string \<Rightarrow> int option \<Rightarrow> (int \<Rightarrow> running_application option) \<Rightarrow>
     event_state \<Rightarrow> event_state" where
  "on_ax_notification clk name pid application_of st =
     (case ax_notification_from_name name of
        None \<Rightarrow> st
      | Some n \<Rightarrow>
          (case pid of
             None \<Rightarrow> st
           | Some pid \<Rightarrow>
               (case ax_event n pid application_of of None \<Rightarrow> st | Some ev \<Rightarrow> emit clk ev st)))"

definition on_display_reconfigured :: "(nat \<Rightarrow> timestamp) \<Rightarrow> bool \<Rightarrow> event_state \<Rightarrow> event_state" where
  "on_display_reconfigured clk begins st = (if begins then st else emit clk DisplaysReconfigured st)"

definition event_step :: "(nat \<Rightarrow> timestamp) \<Rightarrow> callback \<Rightarrow> event_state \<Rightarrow> event_state" where
  "event_step clk cb st =
     (case cb of
        Activation a \<Rightarrow>
          (case a of None \<Rightarrow> st | Some a \<Rightarrow> emit clk (ApplicationActivated a) (request_rescan st))
      | SleepNotice answer \<Rightarrow> snd (deliver_will_sleep clk answer st)
      | WakeNotice \<Rightarrow> emit clk DidWake st
      | ScreenNotice name \<Rightarrow> (case screen_event_from_name name of None \<Rightarrow> st | Some ev \<Rightarrow> emit clk ev st)
      | DisplayNotice begins \<Rightarrow> on_display_reconfigured clk begins st
      | AxNotice name pid application_of \<Rightarrow> on_ax_notification clk name pid application_of st
      | RescanRequest \<Rightarrow> request_rescan st
      | SourcePerformed answer ac windows is_regular \<Rightarrow> perform_source clk answer ac windows is_regular st
      | ReceiverDropped \<Rightarrow> st\<lparr>ev_alive := False\<rparr>)"

definition event_loop :: "(nat \<Rightarrow> timestamp) \<Rightarrow> callback list \<Rightarrow> event_state \<Rightarrow> event_state" where
  "event_loop clk cbs st = foldl (\<lambda>st cb. event_step clk cb st) st cbs"

subsection \<open>The plan and its execution\<close>

lemma set_plan_attach:
  "set (plan_attach attached refused present acc) =
     set acc \<union> {pid \<in> set present. pid \<notin> set attached \<and> pid \<notin> set refused}"
  by (induction attached refused present acc rule: plan_attach.induct) auto

lemma distinct_plan_attach:
  "distinct acc \<Longrightarrow> distinct (plan_attach attached refused present acc)"
  by (induction attached refused present acc rule: plan_attach.induct) auto

lemma attach_all_state:
  "attach_all ac pids st =
     st\<lparr>ev_observers := ev_observers st \<union> {pid \<in> set pids. registration_created ac pid},
        ev_refused := ev_refused st \<union> {pid \<in> set pids. \<not> registration_created ac pid}\<rparr>"
  by (induction ac pids st rule: attach_all.induct) (auto intro!: event_state.equality)

text \<open>The two sets are finite and disjoint.\<close>

definition observers_ok :: "event_state \<Rightarrow> bool" where
  "observers_ok st \<longleftrightarrow>
     finite (ev_observers st) \<and> finite (ev_refused st) \<and> ev_observers st \<inter> ev_refused st = {}"

lemma rescan_observers_trusted:
  assumes "observers_ok st" "ac_trusted ac"
  shows "rescan_observers ac present st =
           st\<lparr>ev_observers := ev_observers st \<inter> set present \<union>
                {pid \<in> set present. pid \<notin> ev_refused st \<and> pid \<notin> ev_observers st \<and> registration_created ac pid},
              ev_refused := ev_refused st \<inter> set present \<union>
                {pid \<in> set present. pid \<notin> ev_refused st \<and> pid \<notin> ev_observers st \<and> \<not> registration_created ac pid}\<rparr>"
  using assms
  by (auto simp: rescan_observers_def observer_plan_of_def attach_all_state set_plan_attach observers_ok_def
      Let_def intro!: event_state.equality)

lemma emit_sel [simp]:
  "ev_observers (emit clk ev st) = ev_observers st" "ev_refused (emit clk ev st) = ev_refused st"
  "ev_rescan (emit clk ev st) = ev_rescan st" "ev_register (emit clk ev st) = ev_register st"
  "ev_injected (emit clk ev st) = ev_injected st" "ev_alive (emit clk ev st) = ev_alive st"
  by (simp_all add: emit_def)

lemma sleep_sel [simp]:
  "ev_observers (snd (deliver_will_sleep clk answer st)) = ev_observers st"
  "ev_refused (snd (deliver_will_sleep clk answer st)) = ev_refused st"
  "ev_rescan (snd (deliver_will_sleep clk answer st)) = ev_rescan st"
  "ev_register (snd (deliver_will_sleep clk answer st)) = ev_register st"
  by (simp_all add: deliver_will_sleep_def)

lemma injected_sel [simp]:
  "ev_observers (deliver_injected clk answer items st) = ev_observers st"
  "ev_refused (deliver_injected clk answer items st) = ev_refused st"
  "ev_rescan (deliver_injected clk answer items st) = ev_rescan st"
  "ev_register (deliver_injected clk answer items st) = ev_register st"
  by (induction items arbitrary: st) (auto split: injected.split)

lemma rescan_observers_ok:
  assumes ok: "observers_ok st"
  shows "observers_ok (rescan_observers ac present st)"
proof (cases "ac_trusted ac")
  case True
  with ok show ?thesis by (auto simp: rescan_observers_trusted) (auto simp: observers_ok_def)
qed (simp add: rescan_observers_def ok)

lemma observers_ok_cong:
  "ev_observers st' = ev_observers st \<Longrightarrow> ev_refused st' = ev_refused st \<Longrightarrow> observers_ok st \<Longrightarrow> observers_ok st'"
  by (simp add: observers_ok_def)

lemma event_step_ok:
  assumes "observers_ok st"
  shows "observers_ok (event_step clk cb st)"
proof (cases cb)
  case (SourcePerformed answer ac windows is_regular)
  let ?st = "deliver_injected clk answer (ev_injected st) (st\<lparr>ev_injected := []\<rparr>)"
  have "observers_ok ?st" "observers_ok (?st\<lparr>ev_rescan := False\<rparr>)"
    using assms by (auto simp: observers_ok_def)
  with SourcePerformed show ?thesis
    by (simp add: event_step_def perform_source_def Let_def rescan_observers_ok)
qed (use assms in \<open>auto simp: event_step_def on_ax_notification_def on_display_reconfigured_def observers_ok_def request_rescan_def split: option.split\<close>)

lemma event_loop_ok: "observers_ok st \<Longrightarrow> observers_ok (event_loop clk cbs st)"
  unfolding event_loop_def by (induction cbs arbitrary: st) (auto simp: event_step_ok)

lemma observers_ok_spawn: "observers_ok (spawn script)"
  by (simp add: spawn_def event_start_def observers_ok_def split: option.split)

lemma set_collect_pids:
  "set (collect_pids p ws acc) = set acc \<union> {owner_pid w |w. w \<in> set ws \<and> layer w = 0 \<and> p (owner_pid w)}"
  by (induction p ws acc rule: collect_pids.induct) auto

lemma distinct_collect_pids: "distinct acc \<Longrightarrow> distinct (collect_pids p ws acc)"
  by (induction p ws acc rule: collect_pids.induct) auto

text \<open>
  C39. After any run of the event thread, when the run loop's source is performed: if a rescan is asked
  for and possible, the applications observed and those that refused are together exactly the regular
  applications that own an ordinary window; an application keeps its observer, and one that refused is
  not asked again, for as long as it stays; what is newly observed is what accepted. Otherwise nothing
  changes. No application is ever both observed and refused, and no request is left over.
\<close>

theorem observers_follow_windows:
  "let st = event_loop clk cbs (spawn script);
       st' = event_step clk (SourcePerformed answer ac windows is_regular) st;
       present = {owner_pid w |w. w \<in> set windows \<and> layer w = 0 \<and> is_regular (owner_pid w)}
   in ev_observers st' \<inter> ev_refused st' = {} \<and> \<not> ev_rescan st' \<and>
      (if ev_rescan st \<and> ev_register st \<and> ac_trusted ac
       then ev_observers st' \<union> ev_refused st' = present \<and>
            ev_observers st \<inter> present \<subseteq> ev_observers st' \<and> ev_refused st \<inter> present \<subseteq> ev_refused st' \<and>
            ev_observers st' - ev_observers st =
              {pid \<in> present. pid \<notin> ev_observers st \<and> pid \<notin> ev_refused st \<and> registration_created ac pid}
       else ev_observers st' = ev_observers st \<and> ev_refused st' = ev_refused st)"
proof -
  define st where "st = event_loop clk cbs (spawn script)"
  define st1 where "st1 = deliver_injected clk answer (ev_injected st) (st\<lparr>ev_injected := []\<rparr>)"
  let ?cb = "SourcePerformed answer ac windows is_regular"
  define present where "present = {owner_pid w |w. w \<in> set windows \<and> layer w = 0 \<and> is_regular (owner_pid w)}"
  have ok: "observers_ok st" unfolding st_def by (rule event_loop_ok) (rule observers_ok_spawn)
  have same: "ev_observers st1 = ev_observers st" "ev_refused st1 = ev_refused st"
    "ev_rescan st1 = ev_rescan st" "ev_register st1 = ev_register st" by (simp_all add: st1_def)
  have ok1: "observers_ok (st1\<lparr>ev_rescan := False\<rparr>)" using ok same by (simp add: observers_ok_def)
  have disjoint: "ev_observers (event_step clk ?cb st) \<inter> ev_refused (event_step clk ?cb st) = {}"
    using event_step_ok [OF ok, of clk ?cb] by (simp add: observers_ok_def)
  have pids: "set (application_pids windows is_regular) = present"
    by (simp add: application_pids_def set_collect_pids present_def)
  have step: "event_step clk ?cb st =
      (if \<not> ev_rescan st then st1
       else if \<not> ev_register st then st1\<lparr>ev_rescan := False\<rparr>
       else rescan_observers ac (application_pids windows is_regular) (st1\<lparr>ev_rescan := False\<rparr>))"
    using same by (simp add: event_step_def perform_source_def Let_def st1_def)
  let ?st' = "event_step clk ?cb st" and ?asked = "ev_rescan st \<and> ev_register st \<and> ac_trusted ac"
  have yes: "?st' = st1\<lparr>ev_rescan := False,
        ev_observers := ev_observers st \<inter> present \<union>
          {pid \<in> present. pid \<notin> ev_refused st \<and> pid \<notin> ev_observers st \<and> registration_created ac pid},
        ev_refused := ev_refused st \<inter> present \<union>
          {pid \<in> present. pid \<notin> ev_refused st \<and> pid \<notin> ev_observers st \<and> \<not> registration_created ac pid}\<rparr>"
    if ?asked
    using that unfolding step by (simp add: rescan_observers_trusted [OF ok1] pids same)
  have no: "ev_observers ?st' = ev_observers st \<and> ev_refused ?st' = ev_refused st \<and> \<not> ev_rescan ?st'" if "\<not> ?asked"
    using that same unfolding step by (auto simp: rescan_observers_def)
  show ?thesis
    unfolding Let_def st_def [symmetric] present_def [symmetric]
    by (cases ?asked) (use disjoint yes no in auto)
qed

end
