(* ===== verification/Event_Sources.thy ===== *)
theory Event_Sources
  imports Events Mac_Bindings
begin

text \<open>
  What the event thread registers with macOS, \<open>src/src/macos/events.rs\<close>: \<open>run_event_loop\<close> with the
  system's sources, the observers that come and go with the applications, and the references to the
  inbox that keep it alive for the callbacks. The registry is what macOS holds for the thread; a step of
  \<open>Events\<close> is run together with what it does to the registry.
\<close>

subsection \<open>The registry\<close>

datatype token = ActivationToken | SleepToken | WakeToken | ScreenToken string

datatype run_source = MainSource | ObserverSource int

record registry =
  rg_workspace :: "token set"              \<comment> \<open>at the workspace's notification centre\<close>
  rg_distributed :: "token set"            \<comment> \<open>at the distributed one\<close>
  rg_display :: bool                       \<comment> \<open>the callback for displays\<close>
  rg_run_loop :: "run_source set"
  rg_notes :: "(int \<times> string) set"         \<comment> \<open>accessibility notifications of an application\<close>
  rg_inboxes :: nat                        \<comment> \<open>references to the inbox\<close>

definition idle_registry :: "nat \<Rightarrow> registry" where
  "idle_registry r =
     \<lparr>rg_workspace = {}, rg_distributed = {}, rg_display = False, rg_run_loop = {}, rg_notes = {}, rg_inboxes = r\<rparr>"

subsection \<open>The system's sources\<close>

record system_sources =
  ss_tokens :: "token list"
  ss_display :: bool

definition no_sources :: system_sources where
  "no_sources = \<lparr>ss_tokens = [], ss_display = False\<rparr>"

text \<open>\<open>addObserverForName\<close>: the block is registered, with the reference it captured.\<close>

definition observe_workspace :: "token \<Rightarrow> system_sources \<times> registry \<Rightarrow> system_sources \<times> registry" where
  "observe_workspace t = (\<lambda>(ss, rg).
     (ss\<lparr>ss_tokens := ss_tokens ss @ [t]\<rparr>,
      rg\<lparr>rg_workspace := insert t (rg_workspace rg), rg_inboxes := rg_inboxes rg + 1\<rparr>))"

definition observe_distributed :: "token \<Rightarrow> system_sources \<times> registry \<Rightarrow> system_sources \<times> registry" where
  "observe_distributed t = (\<lambda>(ss, rg).
     (ss\<lparr>ss_tokens := ss_tokens ss @ [t]\<rparr>,
      rg\<lparr>rg_distributed := insert t (rg_distributed rg), rg_inboxes := rg_inboxes rg + 1\<rparr>))"

text \<open>The reference for the display callback is given up when it is refused.\<close>

definition observe_displays :: "int \<Rightarrow> system_sources \<times> registry \<Rightarrow> system_sources \<times> registry" where
  "observe_displays status = (\<lambda>(ss, rg).
     let rg = rg\<lparr>rg_inboxes := rg_inboxes rg + 1\<rparr>
     in if status = 0 then (ss\<lparr>ss_display := True\<rparr>, rg\<lparr>rg_display := True\<rparr>)
        else (ss, rg\<lparr>rg_inboxes := rg_inboxes rg - 1\<rparr>))"

definition register_system_sources :: "int \<Rightarrow> registry \<Rightarrow> system_sources \<times> registry" where
  "register_system_sources status rg =
     (let s = observe_workspace ActivationToken (no_sources, rg);
          s = observe_workspace SleepToken s;
          s = observe_workspace WakeToken s;
          s = foldl (\<lambda>s name. observe_distributed (ScreenToken name) s) s
                [screen_locked_notification, screen_unlocked_notification]
      in observe_displays status s)"

text \<open>\<open>removeObserver\<close> frees the block of a token that is there.\<close>

definition forget_token :: "registry \<Rightarrow> token \<Rightarrow> registry" where
  "forget_token rg t =
     (let rg = (if t \<in> rg_workspace rg
                then rg\<lparr>rg_workspace := rg_workspace rg - {t}, rg_inboxes := rg_inboxes rg - 1\<rparr> else rg)
      in if t \<in> rg_distributed rg
         then rg\<lparr>rg_distributed := rg_distributed rg - {t}, rg_inboxes := rg_inboxes rg - 1\<rparr> else rg)"

definition drop_system_sources :: "system_sources \<Rightarrow> registry \<Rightarrow> registry" where
  "drop_system_sources ss rg =
     (if ss_tokens ss = [] \<and> \<not> ss_display ss then rg
      else let rg = foldl forget_token rg (ss_tokens ss)
           in if \<not> ss_display ss then rg
              else rg\<lparr>rg_display := False, rg_inboxes := rg_inboxes rg - 1\<rparr>)"

subsection \<open>Observers\<close>

definition accepted_names :: "accessibility \<Rightarrow> int \<Rightarrow> string list" where
  "accepted_names ac pid = filter (ac_accepts ac pid) (map fst ax_notifications)"

text \<open>Where nothing is accepted the observer is released again, and the reference with it.\<close>

definition create_registration :: "accessibility \<Rightarrow> int \<Rightarrow> registry \<Rightarrow> bool \<times> registry" where
  "create_registration ac pid rg =
     (if \<not> ac_observer ac pid then (False, rg)
      else let names = accepted_names ac pid
           in if length names = 0 then (False, rg)
              else (True, rg\<lparr>rg_notes := rg_notes rg \<union> Pair pid ` set names,
                             rg_run_loop := insert (ObserverSource pid) (rg_run_loop rg),
                             rg_inboxes := rg_inboxes rg + 1\<rparr>))"

text \<open>
  Dropping an observer: what cannot be removed by name goes when the observer is released at the end.
\<close>

definition drop_registration :: "int \<Rightarrow> registry \<Rightarrow> registry" where
  "drop_registration pid rg =
     rg\<lparr>rg_notes := {note \<in> rg_notes rg. fst note \<noteq> pid},
        rg_run_loop := rg_run_loop rg - {ObserverSource pid}, rg_inboxes := rg_inboxes rg - 1\<rparr>"

fun attach_registered :: "accessibility \<Rightarrow> int list \<Rightarrow> event_state \<times> registry \<Rightarrow> event_state \<times> registry" where
  "attach_registered ac [] s = s"
| "attach_registered ac (pid # ps) (st, rg) =
     (case create_registration ac pid rg of
        (False, rg) \<Rightarrow> attach_registered ac ps (st\<lparr>ev_refused := insert pid (ev_refused st)\<rparr>, rg)
      | (True, rg) \<Rightarrow> attach_registered ac ps (st\<lparr>ev_observers := insert pid (ev_observers st)\<rparr>, rg))"

definition rescan_registered :: "accessibility \<Rightarrow> int list \<Rightarrow> event_state \<times> registry \<Rightarrow> event_state \<times> registry" where
  "rescan_registered ac present = (\<lambda>(st, rg).
     if \<not> ac_trusted ac then (st, rg)
     else let plan = observer_plan_of (sorted_list_of_set (ev_observers st))
                       (sorted_list_of_set (ev_refused st)) present;
              rg = foldl (\<lambda>rg pid. drop_registration pid rg) rg (pl_detach plan);
              st = st\<lparr>ev_observers := ev_observers st - set (pl_detach plan)\<rparr>;
              st = st\<lparr>ev_refused := ev_refused st - set (pl_forget plan)\<rparr>
          in attach_registered ac (pl_attach plan) (st, rg))"

subsection \<open>The thread\<close>

definition perform_registered ::
  "(nat \<Rightarrow> timestamp) \<Rightarrow> (nat \<Rightarrow> waited) \<Rightarrow> accessibility \<Rightarrow> window_entry list \<Rightarrow> (int \<Rightarrow> bool) \<Rightarrow>
     event_state \<times> registry \<Rightarrow> event_state \<times> registry" where
  "perform_registered clk answer ac all_windows is_regular = (\<lambda>(st, rg).
     let drained = ev_injected st;
         st = deliver_injected clk answer drained (st\<lparr>ev_injected := []\<rparr>)
     in if \<not> ev_rescan st then (st, rg)
        else let st = st\<lparr>ev_rescan := False\<rparr>
             in if \<not> ev_register st then (st, rg)
                else rescan_registered ac (application_pids all_windows is_regular) (st, rg))"

definition step_registered :: "(nat \<Rightarrow> timestamp) \<Rightarrow> event_state \<times> registry \<Rightarrow> callback \<Rightarrow> event_state \<times> registry" where
  "step_registered clk s cb =
     (case cb of
        SourcePerformed answer ac windows is_regular \<Rightarrow> perform_registered clk answer ac windows is_regular s
      | _ \<Rightarrow> (event_step clk cb (fst s), snd s))"

text \<open>
  \<open>run_event_loop\<close> up to the run loop, in it, and after it. The state holds one more reference; it is
  dropped last, its reference before its observers.
\<close>

definition loop_entered :: "bool \<Rightarrow> injected list \<Rightarrow> int \<Rightarrow> registry \<Rightarrow> system_sources \<times> event_state \<times> registry" where
  "loop_entered register scripted status rg =
     (let rg = rg\<lparr>rg_inboxes := rg_inboxes rg + 1\<rparr>;
          rg = rg\<lparr>rg_run_loop := insert MainSource (rg_run_loop rg)\<rparr>;
          (ss, rg) = (if register then register_system_sources status rg else (no_sources, rg))
      in (ss, event_start register scripted, rg))"

definition loop_run :: "(nat \<Rightarrow> timestamp) \<Rightarrow> callback list \<Rightarrow> event_state \<times> registry \<Rightarrow> event_state \<times> registry" where
  "loop_run clk cbs s = foldl (step_registered clk) s cbs"

definition loop_left :: "system_sources \<Rightarrow> event_state \<times> registry \<Rightarrow> registry" where
  "loop_left ss = (\<lambda>(st, rg).
     let rg = drop_system_sources ss rg;
         rg = rg\<lparr>rg_run_loop := rg_run_loop rg - {MainSource}\<rparr>;
         rg = rg\<lparr>rg_inboxes := rg_inboxes rg - 1\<rparr>
     in foldl (\<lambda>rg pid. drop_registration pid rg) rg (sorted_list_of_set (ev_observers st)))"

text \<open>Whether the thread gets its run loop, and whether anyone waits for it to be published.\<close>

definition run_event_loop ::
  "(nat \<Rightarrow> timestamp) \<Rightarrow> bool \<Rightarrow> bool \<Rightarrow> bool \<Rightarrow> injected list \<Rightarrow> int \<Rightarrow> callback list \<Rightarrow> registry \<Rightarrow> registry" where
  "run_event_loop clk available published register scripted status cbs rg =
     (if \<not> available then rg
      else let (ss, s) = loop_entered register scripted status rg;
               s = (if published then loop_run clk cbs s else s)
           in loop_left ss s)"

text \<open>\<open>EventThread::start\<close>: the thread may not start, or not get its run loop.\<close>

definition thread_start :: "string option \<Rightarrow> bool \<Rightarrow> string + unit" where
  "thread_start refused available =
     (case refused of
        Some e \<Rightarrow> Inl e
      | None \<Rightarrow> if \<not> available then Inl ''the event thread could not take its run loop'' else Inr ())"

text \<open>The application an activation is about, from the objects of the notification.\<close>

datatype ns_object = NsRunningApplication ns_application | NsOther

definition activated_application :: "(string \<times> ns_object) list option \<Rightarrow> running_application option" where
  "activated_application user_info =
     Option.bind user_info (\<lambda>info. Option.bind (map_of info ''NSWorkspaceApplicationKey'') (\<lambda>object.
       case object of NsRunningApplication a \<Rightarrow> Some (running_application_of a) | NsOther \<Rightarrow> None))"

subsection \<open>The states are those of the event thread\<close>

lemma create_registration_fst: "fst (create_registration ac pid rg) = registration_created ac pid"
  by (auto simp: create_registration_def registration_created_def accepted_names_def Let_def ax_notifications_def)

lemma attach_registered_fst: "fst (attach_registered ac ps s) = attach_all ac ps (fst s)"
proof (induction ac ps s rule: attach_registered.induct)
  case (2 ac pid ps st rg)
  then show ?case
    using create_registration_fst [of ac pid rg] by (cases "create_registration ac pid rg") (auto split: bool.splits)
qed simp

lemma step_registered_fst: "fst (step_registered clk s cb) = event_step clk cb (fst s)"
proof (cases cb)
  case (SourcePerformed answer ac windows is_regular)
  then show ?thesis
    by (cases s) (simp add: step_registered_def event_step_def perform_registered_def perform_source_def
        rescan_registered_def rescan_observers_def attach_registered_fst Let_def)
qed (simp_all add: step_registered_def)

lemma loop_run_fst: "fst (loop_run clk cbs s) = event_loop clk cbs (fst s)"
  unfolding loop_run_def event_loop_def
  by (induction cbs arbitrary: s) (simp_all add: step_registered_fst)

subsection \<open>What is registered is backed\<close>

text \<open>
  While the thread runs: the registrations are those of the sources and of the observed applications,
  and each has a reference of its own, beside the \<open>r\<close> held elsewhere and the one of the state.
\<close>

definition tokens_ok :: "system_sources \<Rightarrow> registry \<Rightarrow> bool" where
  "tokens_ok ss rg \<longleftrightarrow>
     distinct (ss_tokens ss) \<and> rg_workspace rg \<union> rg_distributed rg = set (ss_tokens ss) \<and>
     rg_workspace rg \<inter> rg_distributed rg = {} \<and> rg_display rg = ss_display ss"

definition backed :: "system_sources \<Rightarrow> nat \<Rightarrow> event_state \<Rightarrow> registry \<Rightarrow> bool" where
  "backed ss r st rg \<longleftrightarrow>
     observers_ok st \<and> tokens_ok ss rg \<and> fst ` rg_notes rg = ev_observers st \<and>
     rg_run_loop rg = insert MainSource (ObserverSource ` ev_observers st) \<and>
     rg_inboxes rg = r + 1 + length (ss_tokens ss) + (if ss_display ss then 1 else 0) + card (ev_observers st)"

lemma backed_cong:
  "ev_observers st' = ev_observers st \<Longrightarrow> ev_refused st' = ev_refused st \<Longrightarrow> backed ss r st' rg = backed ss r st rg"
  by (simp add: backed_def observers_ok_def)

lemma drop_registrations:
  "foldl (\<lambda>rg pid. drop_registration pid rg) rg ps =
     rg\<lparr>rg_notes := {note \<in> rg_notes rg. fst note \<notin> set ps},
        rg_run_loop := rg_run_loop rg - ObserverSource ` set ps, rg_inboxes := rg_inboxes rg - length ps\<rparr>"
  by (induction ps arbitrary: rg) (auto simp: drop_registration_def intro!: registry.equality)

lemma attach_backed:
  assumes "backed ss r st rg" "distinct ps" "set ps \<inter> (ev_observers st \<union> ev_refused st) = {}"
  shows "case attach_registered ac ps (st, rg) of (st', rg') \<Rightarrow> backed ss r st' rg'"
  using assms
proof (induction ps arbitrary: st rg)
  case (Cons pid ps)
  show ?case
  proof (cases "registration_created ac pid")
    case False
    then have c: "create_registration ac pid rg = (False, rg)"
      using create_registration_fst [of ac pid rg] by (auto simp: create_registration_def Let_def split: if_splits)
    have "backed ss r (st\<lparr>ev_refused := insert pid (ev_refused st)\<rparr>) rg"
      using Cons.prems by (auto simp: backed_def observers_ok_def)
    with Cons.IH [OF this] Cons.prems(2,3) show ?thesis by (simp add: c)
  next
    case True
    let ?st = "st\<lparr>ev_observers := insert pid (ev_observers st)\<rparr>"
    obtain rg1 where c: "create_registration ac pid rg = (True, rg1)"
      using create_registration_fst [of ac pid rg] True by (metis prod.collapse)
    then have rg1: "rg_inboxes rg1 = rg_inboxes rg + 1" "rg_run_loop rg1 = insert (ObserverSource pid) (rg_run_loop rg)"
      "rg_notes rg1 = rg_notes rg \<union> Pair pid ` set (accepted_names ac pid)" "accepted_names ac pid \<noteq> []"
      "rg_workspace rg1 = rg_workspace rg" "rg_distributed rg1 = rg_distributed rg" "rg_display rg1 = rg_display rg"
      by (auto simp: create_registration_def Let_def split: if_splits)
    have "fst ` rg_notes rg1 = insert pid (ev_observers st)"
      using rg1(3,4) Cons.prems(1) by (cases "accepted_names ac pid") (auto simp: backed_def image_Un image_image)
    then have "backed ss r ?st rg1"
      using Cons.prems rg1 by (auto simp: backed_def observers_ok_def tokens_ok_def)
    with Cons.IH [OF this] Cons.prems(2,3) show ?thesis by (auto simp: c)
  qed
qed simp

lemma rescan_backed:
  assumes "backed ss r st rg"
  shows "case rescan_registered ac present (st, rg) of (st', rg') \<Rightarrow> backed ss r st' rg'"
proof (cases "ac_trusted ac")
  case False
  with assms show ?thesis by (simp add: rescan_registered_def)
next
  case True
  define plan where "plan = observer_plan_of (sorted_list_of_set (ev_observers st))
    (sorted_list_of_set (ev_refused st)) present"
  let ?st = "st\<lparr>ev_observers := ev_observers st - set (pl_detach plan),
    ev_refused := ev_refused st - set (pl_forget plan)\<rparr>"
  let ?rg = "foldl (\<lambda>rg pid. drop_registration pid rg) rg (pl_detach plan)"
  have fin: "finite (ev_observers st)" "finite (ev_refused st)"
    using assms by (auto simp: backed_def observers_ok_def)
  have plan: "set (pl_detach plan) \<subseteq> ev_observers st" "distinct (pl_detach plan)" "distinct (pl_attach plan)"
    "set (pl_attach plan) \<inter> (ev_observers st \<union> ev_refused st) = {}"
    using fin by (auto simp: plan_def observer_plan_of_def set_plan_attach distinct_plan_attach)
  have size: "card (ev_observers st - set (pl_detach plan)) = card (ev_observers st) - length (pl_detach plan)"
    "length (pl_detach plan) \<le> card (ev_observers st)"
    using card_Diff_subset [OF _ plan(1)] card_mono [OF fin(1) plan(1)] plan(2) by (simp_all add: distinct_card)
  have obs: "fst ` rg_notes rg = ev_observers st" using assms by (simp add: backed_def)
  have notes': "fst ` {note \<in> rg_notes rg. fst note \<notin> set (pl_detach plan)} = ev_observers st - set (pl_detach plan)"
    unfolding obs [symmetric] by blast
  have sources: "insert MainSource (ObserverSource ` ev_observers st) - ObserverSource ` set (pl_detach plan) =
      insert MainSource (ObserverSource ` (ev_observers st - set (pl_detach plan)))" by auto
  have "observers_ok ?st" using assms by (auto simp: backed_def observers_ok_def)
  then have "backed ss r ?st ?rg"
    using assms size notes' sources by (simp add: backed_def tokens_ok_def drop_registrations)
  moreover have "set (pl_attach plan) \<inter> (ev_observers ?st \<union> ev_refused ?st) = {}" using plan(4) by auto
  ultimately have "case attach_registered ac (pl_attach plan) (?st, ?rg) of (st', rg') \<Rightarrow> backed ss r st' rg'"
    by (rule attach_backed [OF _ plan(3)])
  with True show ?thesis by (simp add: rescan_registered_def Let_def plan_def)
qed

lemma event_step_sets:
  assumes "\<And>answer ac windows is_regular. cb \<noteq> SourcePerformed answer ac windows is_regular"
  shows "ev_observers (event_step clk cb st) = ev_observers st \<and> ev_refused (event_step clk cb st) = ev_refused st"
  using assms
  by (cases cb) (auto simp: event_step_def on_ax_notification_def on_display_reconfigured_def request_rescan_def
      split: option.split)

lemma step_backed:
  assumes "backed ss r (fst s) (snd s)"
  shows "backed ss r (fst (step_registered clk s cb)) (snd (step_registered clk s cb))"
proof (cases "\<exists>answer ac windows is_regular. cb = SourcePerformed answer ac windows is_regular")
  case True
  then obtain answer ac windows is_regular where cb: "cb = SourcePerformed answer ac windows is_regular" by blast
  obtain st rg where s: "s = (st, rg)" by fastforce
  define st2 where "st2 = deliver_injected clk answer (ev_injected st) (st\<lparr>ev_injected := []\<rparr>)"
  have same: "ev_observers st2 = ev_observers st" "ev_refused st2 = ev_refused st" by (simp_all add: st2_def)
  have 1: "backed ss r st2 rg" "backed ss r (st2\<lparr>ev_rescan := False\<rparr>) rg"
    using assms s same backed_cong [of st2 st] backed_cong [of "st2\<lparr>ev_rescan := False\<rparr>" st] by simp_all
  define out where "out = rescan_registered ac (application_pids windows is_regular) (st2\<lparr>ev_rescan := False\<rparr>, rg)"
  have "backed ss r (fst out) (snd out)"
    using rescan_backed [OF 1(2), of ac "application_pids windows is_regular"] by (simp add: out_def split_def)
  moreover have "step_registered clk s cb \<in> {(st2, rg), (st2\<lparr>ev_rescan := False\<rparr>, rg), out}"
    unfolding step_registered_def perform_registered_def cb s callback.case prod.case Let_def
      st2_def [symmetric] out_def [symmetric] by (cases "ev_rescan st2"; cases "ev_register st2"; simp)
  ultimately show ?thesis using 1 by (elim insertE emptyE) (simp_all only: fst_conv snd_conv)
next
  case False
  then have "step_registered clk s cb = (event_step clk cb (fst s), snd s)"
    by (cases cb) (auto simp: step_registered_def)
  moreover have "backed ss r (event_step clk cb (fst s)) (snd s)"
    using assms event_step_sets [of cb clk "fst s"] False backed_cong [of "event_step clk cb (fst s)" "fst s"] by auto
  ultimately show ?thesis by simp
qed

lemma loop_run_backed:
  "backed ss r (fst s) (snd s) \<Longrightarrow> backed ss r (fst (loop_run clk cbs s)) (snd (loop_run clk cbs s))"
  unfolding loop_run_def by (induction cbs arbitrary: s) (simp_all add: step_backed)

lemma loop_entered_backed:
  assumes "loop_entered register scripted status (idle_registry r) = (ss, st, rg)"
  shows "backed ss r st rg"
  using assms
  by (auto simp: loop_entered_def Let_def backed_def tokens_ok_def observers_ok_def event_start_def idle_registry_def
      register_system_sources_def observe_workspace_def observe_distributed_def observe_displays_def no_sources_def
      screen_locked_notification_def screen_unlocked_notification_def split: if_splits)

lemma forget_tokens:
  assumes "distinct ts" "set ts \<subseteq> rg_workspace rg \<union> rg_distributed rg" "rg_workspace rg \<inter> rg_distributed rg = {}"
  shows "foldl forget_token rg ts =
    rg\<lparr>rg_workspace := rg_workspace rg - set ts, rg_distributed := rg_distributed rg - set ts,
       rg_inboxes := rg_inboxes rg - length ts\<rparr>"
  using assms
proof (induction ts arbitrary: rg)
  case (Cons t ts)
  have "forget_token rg t = rg\<lparr>rg_workspace := rg_workspace rg - {t}, rg_distributed := rg_distributed rg - {t},
      rg_inboxes := rg_inboxes rg - 1\<rparr>"
    using Cons.prems by (auto simp: forget_token_def Let_def intro!: registry.equality)
  moreover have "set ts \<subseteq> rg_workspace (forget_token rg t) \<union> rg_distributed (forget_token rg t)"
    "rg_workspace (forget_token rg t) \<inter> rg_distributed (forget_token rg t) = {}"
    using Cons.prems calculation by auto
  ultimately show ?case
    using Cons.IH [of "forget_token rg t"] Cons.prems(1) by (simp add: Diff_insert2 [symmetric])
qed simp

lemma drop_sources:
  assumes "tokens_ok ss rg"
  shows "drop_system_sources ss rg =
    rg\<lparr>rg_workspace := {}, rg_distributed := {}, rg_display := False,
       rg_inboxes := rg_inboxes rg - (length (ss_tokens ss) + (if ss_display ss then 1 else 0))\<rparr>"
  using assms forget_tokens [of "ss_tokens ss" rg]
  by (auto simp: drop_system_sources_def tokens_ok_def Let_def intro!: registry.equality)

lemma loop_left_idle:
  assumes "backed ss r st rg"
  shows "loop_left ss (st, rg) = idle_registry r"
proof -
  have fin: "finite (ev_observers st)" using assms by (simp add: backed_def observers_ok_def)
  have "fst ` rg_notes rg = ev_observers st" using assms by (simp add: backed_def)
  then have gone: "{note \<in> rg_notes rg. fst note \<notin> ev_observers st} = {}" by blast
  show ?thesis
    using assms fin gone
    by (simp add: loop_left_def drop_sources backed_def drop_registrations idle_registry_def Let_def)
qed

text \<open>
  C18. The event thread leaves nothing behind and no callback dangling. At any point of its run, whatever
  macOS accepts and refuses, its accessibility notifications are those of the applications it observes,
  its run loop has their sources and its own, and every registration that can still call back (blocks,
  the display callback, observers) has a reference to the inbox of its own. When the thread is done,
  however it ended, it has given back every registration and every reference it took.
\<close>

theorem thread_leaves_nothing:
  "case loop_entered register scripted status (idle_registry r) of
     (ss, s) \<Rightarrow>
       (case loop_run clk cbs s of
          (st, rg) \<Rightarrow>
            fst ` rg_notes rg = ev_observers st \<and>
            rg_run_loop rg = insert MainSource (ObserverSource ` ev_observers st) \<and>
            rg_inboxes rg = r + 1 + card (rg_workspace rg) + card (rg_distributed rg) +
              (if rg_display rg then 1 else 0) + card (ev_observers st)) \<and>
       run_event_loop clk available published register scripted status cbs (idle_registry r) = idle_registry r"
proof -
  obtain ss st0 rg0 where enter: "loop_entered register scripted status (idle_registry r) = (ss, st0, rg0)"
    by (metis prod_cases3)
  have b0: "backed ss r st0 rg0" by (rule loop_entered_backed [OF enter])
  obtain st rg where run: "loop_run clk cbs (st0, rg0) = (st, rg)" by fastforce
  have b: "backed ss r st rg" using loop_run_backed [of ss r "(st0, rg0)" clk cbs] b0 run by simp
  have "finite (rg_workspace rg)" "finite (rg_distributed rg)"
    "card (rg_workspace rg) + card (rg_distributed rg) = length (ss_tokens ss)"
  proof -
    have t: "rg_workspace rg \<union> rg_distributed rg = set (ss_tokens ss)" "rg_workspace rg \<inter> rg_distributed rg = {}"
      "distinct (ss_tokens ss)" using b by (auto simp: backed_def tokens_ok_def)
    then show fin: "finite (rg_workspace rg)" "finite (rg_distributed rg)"
      by (metis List.finite_set finite_Un)+
    show "card (rg_workspace rg) + card (rg_distributed rg) = length (ss_tokens ss)"
      using card_Un_disjoint [OF fin t(2)] t(1,3) by (simp add: distinct_card)
  qed
  with b b0 loop_left_idle enter run show ?thesis
    by (auto simp: run_event_loop_def backed_def tokens_ok_def)
qed

end
