(* ===== verification/Http_Transport.thy ===== *)
theory Http_Transport
  imports Ship
begin

text \<open>
  The transport over HTTP, \<open>HttpTransport\<close> of \<open>src/src/runtime/ship.rs\<close>. The client, \<open>reqwest\<close>, is a
  parameter: it sends a request and gives back an error, or a status and the body, whose reading may
  itself fail.
\<close>

definition connect_timeout_secs :: nat where "connect_timeout_secs = 10"
definition request_timeout_secs :: nat where "request_timeout_secs = 30"

record http_request =
  rq_url :: url
  rq_headers :: "(string \<times> string) list"
  rq_body :: string

type_synonym 'w http_client = "http_request \<Rightarrow> 'w \<Rightarrow> (string + nat \<times> (string + string)) \<times> 'w"

definition http_post :: "'w http_client \<Rightarrow> url \<Rightarrow> string \<Rightarrow> 'w \<Rightarrow> (string + http_response) \<times> 'w" where
  "http_post client url body w =
     (case client \<lparr>rq_url = url, rq_headers = [(''content-type'', ''application/json'')], rq_body = body\<rparr> w of
        (Inl e, w) \<Rightarrow> (Inl e, w)
      | (Inr (status, read), w) \<Rightarrow>
          (case read of
             Inl e \<Rightarrow> (Inl e, w)
           | Inr text \<Rightarrow> (Inr \<lparr>hr_status = status, hr_body = text\<rparr>, w)))"

text \<open>The shipper's transport.\<close>

definition http_transport ::
  "'w http_client \<Rightarrow> url \<Rightarrow> (string \<Rightarrow> service_response option) \<Rightarrow> ('w \<Rightarrow> timestamp) \<Rightarrow> 'w transport" where
  "http_transport client url parse clk =
     \<lparr>tr_post = http_post client url, tr_parse = parse, tr_clock = clk\<rparr>"

text \<open>
  A response is acted on only when it was read to its end: a body cut off is an error like no answer, and
  an error keeps the batch.
\<close>

lemma unread_response_keeps:
  assumes "client \<lparr>rq_url = url, rq_headers = [(''content-type'', ''application/json'')], rq_body = body\<rparr> w = (r, w')"
    and "case r of Inl e \<Rightarrow> True | Inr (status, read) \<Rightarrow> \<exists>e. read = Inl e"
  shows "\<exists>e. http_post client url body w = (Inl e, w')"
  using assms by (auto simp: http_post_def split: sum.splits prod.splits)

end
