(* ===== verification/Browser_History.thy ===== *)
theory Browser_History
  imports Claude_Provider Subprocess
begin

text \<open>
  The browser history provider, \<open>src/src/providers/browser_history.rs\<close>: resolving a profile, cloning its
  history, reading the visits after a position page by page, and the polls. A snapshot of the history
  database is a \<open>history\<close>: its \<open>visits\<close> rows, the cells of its \<open>urls\<close> rows by id, and which queries
  fail. The file system, the programs run and the JSON library are the fields of a \<open>poll_env\<close>, one per
  poll.
\<close>

definition user_data_relative :: string where
  "user_data_relative = ''Library/Application Support/Dia/User Data''"
definition local_state_file :: string where "local_state_file = ''Local State''"
definition history_file :: string where "history_file = ''History''"
definition history_journal_file :: string where "history_journal_file = ''History-journal''"
definition snapshot_dir :: string where "snapshot_dir = ''history-snapshot''"
definition page_limit :: nat where "page_limit = 5000"
definition clone_program :: string where "clone_program = ''/bin/cp''"
definition clone_flag :: string where "clone_flag = ''-c''"
definition webkit_epoch_offset_millis :: int where "webkit_epoch_offset_millis = 11644473600000"

definition user_data_dir :: "string \<Rightarrow> string" where
  "user_data_dir home = path_join home user_data_relative"

subsection \<open>The database\<close>

text \<open>A cell of a text column: NULL, a text, or something that is no text.\<close>

datatype cell = NullCell | TextCell string | OtherCell

text \<open>A row of \<open>visits\<close>; a column that holds no integer is \<open>None\<close>. The id is the primary key.\<close>

record raw_visit =
  rv_id :: int
  rv_time :: "int option"
  rv_transition :: "int option"
  rv_duration :: "int option"
  rv_url :: int

record history =
  hi_visits :: "raw_visit list"
  hi_urls :: "int \<Rightarrow> (cell \<times> cell) option"    \<comment> \<open>url and title\<close>
  hi_max_fails :: bool
  hi_page_fails :: "int \<Rightarrow> bool"

record visit_row =
  vr_id :: int
  vr_time :: int
  vr_transition :: int
  vr_duration :: int
  vr_url :: string
  vr_title :: "string option"

definition text_cell :: "cell \<Rightarrow> string option option" where
  "text_cell c = (case c of NullCell \<Rightarrow> Some None | TextCell s \<Rightarrow> Some (Some s) | OtherCell \<Rightarrow> None)"

text \<open>The join, in the order of the ids: a visit whose url row is missing is not in it.\<close>

definition joined :: "history \<Rightarrow> (raw_visit \<times> cell \<times> cell) list" where
  "joined h =
     List.map_filter (\<lambda>v. map_option (Pair v) (hi_urls h (rv_url v))) (sort_key rv_id (hi_visits h))"

definition read_row :: "raw_visit \<times> cell \<times> cell \<Rightarrow> visit_row option" where
  "read_row row =
     (case row of
        (v, u, t) \<Rightarrow>
          (case (text_cell u, rv_time v, rv_transition v, rv_duration v, text_cell t) of
             (Some url, Some time, Some transition, Some duration, Some title) \<Rightarrow>
               Some \<lparr>vr_id = rv_id v, vr_time = time, vr_transition = transition, vr_duration = duration,
                     vr_url = (case url of None \<Rightarrow> [] | Some s \<Rightarrow> s), vr_title = title\<rparr>
           | _ \<Rightarrow> None))"

text \<open>\<open>None\<close> is an error of SQLite.\<close>

definition highest_visit_id :: "history \<Rightarrow> int option" where
  "highest_visit_id h =
     (if hi_max_fails h then None
      else Some (if hi_visits h = [] then 0 else Max (rv_id ` set (hi_visits h))))"

definition read_page :: "history \<Rightarrow> int \<Rightarrow> nat \<Rightarrow> visit_row list option" where
  "read_page h from limit =
     (if hi_page_fails h from then None
      else those (map read_row (take limit (filter (\<lambda>row. from < rv_id (fst row)) (joined h)))))"

subsection \<open>Records\<close>

definition digest :: "(string \<Rightarrow> string) \<Rightarrow> visit_row \<Rightarrow> string" where
  "digest sha row =
     key sha [case vr_title row of None \<Rightarrow> [] | Some t \<Rightarrow> t, dec_int (vr_transition row), dec_int (vr_duration row)]"

text \<open>Division of \<open>i64\<close> truncates towards zero.\<close>

definition trunc_div :: "int \<Rightarrow> int \<Rightarrow> int" where
  "trunc_div a b = sgn a * sgn b * (\<bar>a\<bar> div \<bar>b\<bar>)"

definition unix_millis :: "int \<Rightarrow> int" where
  "unix_millis visit_time = trunc_div visit_time 1000 - webkit_epoch_offset_millis"

definition duration_millis :: "int \<Rightarrow> int" where
  "duration_millis visit_duration = trunc_div visit_duration 1000"

definition visit_record :: "string \<Rightarrow> nat \<Rightarrow> visit_row \<Rightarrow> record_draft" where
  "visit_record profile generation row =
     (let p = obj_insert ''url'' (JString (vr_url row)) [];
          p = (case vr_title row of
                 Some t \<Rightarrow> if t \<noteq> [] then obj_insert ''title'' (JString t) p else p
               | None \<Rightarrow> p);
          p = obj_insert ''profile'' (JString profile) p;
          p = obj_insert ''transition'' (JInt (vr_transition row)) p;
          p = obj_insert ''visit_id'' (JInt (vr_id row)) p;
          p = obj_insert ''duration_ms'' (JInt (duration_millis (vr_duration row))) p
      in \<lparr>dr_provider = BrowserHistory, dr_kind = Visit, dr_ts = Timestamp (unix_millis (vr_time row)),
          dr_degraded = False, dr_payload = JObject p,
          dr_key = BrowserVisit profile generation (vr_id row)\<rparr>)"

subsection \<open>The state of a profile\<close>

text \<open>\<open>shipped\<close> is a \<open>BTreeMap\<close>: pairs in the order of their keys.\<close>

record history_state =
  hs_cursor :: int
  hs_generation :: nat
  hs_shipped :: "(int \<times> string) list"

fun bt_insert :: "int \<Rightarrow> string \<Rightarrow> (int \<times> string) list \<Rightarrow> (int \<times> string) list" where
  "bt_insert k v [] = [(k, v)]"
| "bt_insert k v ((k', v') # m) =
     (if k < k' then (k, v) # (k', v') # m else if k = k' then (k, v) # m else (k', v') # bt_insert k v m)"

definition fresh_state :: "int \<Rightarrow> history_state" where
  "fresh_state highest = \<lparr>hs_cursor = max highest 0, hs_generation = 1, hs_shipped = []\<rparr>"

definition regenerated :: "history_state \<Rightarrow> int \<Rightarrow> history_state" where
  "regenerated st highest =
     \<lparr>hs_cursor = max highest 0, hs_generation = succ64 (hs_generation st), hs_shipped = []\<rparr>"

definition encode_history :: "history_state \<Rightarrow> json" where
  "encode_history st =
     JObject [(''cursor'', JInt (hs_cursor st)), (''generation'', JInt (int (hs_generation st))),
              (''shipped'', JObject (map (\<lambda>(k, v). (dec_int k, JString v)) (hs_shipped st)))]"

text \<open>A key of the map as JSON has it: the decimal text of an \<open>i64\<close>, nothing else.\<close>

definition int_key :: "string \<Rightarrow> int option" where
  "int_key s =
     (case parse_signed 64 s of None \<Rightarrow> None | Some i \<Rightarrow> if dec_int i = s then Some i else None)"

fun shipped_from :: "obj \<Rightarrow> (int \<times> string) list \<Rightarrow> (int \<times> string) list option" where
  "shipped_from [] m = Some m"
| "shipped_from ((k, v) # rest) m =
     (case (int_key k, as_str v) of
        (Some i, Some s) \<Rightarrow> shipped_from rest (bt_insert i s m)
      | _ \<Rightarrow> None)"

definition shipped_field :: "json \<Rightarrow> (int \<times> string) list option" where
  "shipped_field v = (case v of JObject m \<Rightarrow> shipped_from m [] | _ \<Rightarrow> None)"

definition decode_history :: "json option \<Rightarrow> history_state option" where
  "decode_history v =
     (case v of
        Some (JObject m) \<Rightarrow>
          (case (Option.bind (obj_get m ''cursor'') (json_signed 64),
                 Option.bind (obj_get m ''generation'') (json_unsigned 64),
                 default_field [] shipped_field (obj_get m ''shipped'')) of
             (Some c, Some g, Some s) \<Rightarrow> Some \<lparr>hs_cursor = c, hs_generation = g, hs_shipped = s\<rparr>
           | _ \<Rightarrow> None)
      | _ \<Rightarrow> None)"

subsection \<open>Collecting\<close>

record poll_outcome =
  po_records :: "record_draft list"
  po_state :: history_state

text \<open>The rows of a page, from a position on, with what is shipped and collected so far.\<close>

fun take_rows ::
  "(string \<Rightarrow> string) \<Rightarrow> string \<Rightarrow> nat \<Rightarrow> visit_row list \<Rightarrow>
     int \<times> (int \<times> string) list \<times> record_draft list \<Rightarrow> int \<times> (int \<times> string) list \<times> record_draft list" where
  "take_rows sha profile generation [] acc = acc"
| "take_rows sha profile generation (row # rows) (position, shipped, records) =
     (if vr_url row = [] then take_rows sha profile generation rows (vr_id row, shipped, records)
      else if map_of shipped (vr_id row) = Some (digest sha row)
      then take_rows sha profile generation rows (vr_id row, shipped, records)
      else take_rows sha profile generation rows
             (vr_id row, bt_insert (vr_id row) (digest sha row) shipped,
              records @ [visit_record profile generation row]))"

partial_function (option) collect_loop ::
  "(string \<Rightarrow> string) \<Rightarrow> string \<Rightarrow> nat \<Rightarrow> history \<Rightarrow> nat \<Rightarrow>
     int \<times> (int \<times> string) list \<times> record_draft list \<Rightarrow>
     (int \<times> (int \<times> string) list \<times> record_draft list) option option" where
  "collect_loop sha profile generation h page acc =
     (case read_page h (fst acc) page of
        None \<Rightarrow> Some None
      | Some rows \<Rightarrow>
          if length rows < page then Some (Some (take_rows sha profile generation rows acc))
          else collect_loop sha profile generation h page (take_rows sha profile generation rows acc))"

definition state_for :: "history_state option \<Rightarrow> int \<Rightarrow> history_state" where
  "state_for st highest =
     (case st of
        None \<Rightarrow> fresh_state highest
      | Some s \<Rightarrow> if highest < hs_cursor s then regenerated s highest else s)"

definition collected ::
  "int \<Rightarrow> history_state \<Rightarrow> int \<times> (int \<times> string) list \<times> record_draft list \<Rightarrow> poll_outcome" where
  "collected revisit_window st acc =
     (case acc of
        (position, shipped, records) \<Rightarrow>
          let cursor = max (hs_cursor st) position
          in \<lparr>po_records = records,
              po_state = \<lparr>hs_cursor = cursor, hs_generation = hs_generation st,
                          hs_shipped = filter (\<lambda>(i, d). cursor - revisit_window < i) shipped\<rparr>\<rparr>)"

text \<open>The outer \<open>None\<close> is not returning, the inner one an error.\<close>

definition collect ::
  "(string \<Rightarrow> string) \<Rightarrow> history \<Rightarrow> string \<Rightarrow> int \<Rightarrow> history_state option \<Rightarrow> nat \<Rightarrow> poll_outcome option option" where
  "collect sha h profile revisit_window st page =
     (case highest_visit_id h of
        None \<Rightarrow> Some None
      | Some highest \<Rightarrow>
          let st = state_for st highest;
              start = max (hs_cursor st - revisit_window) 0
          in map_option (map_option (collected revisit_window st))
               (collect_loop sha profile (hs_generation st) h page (start, hs_shipped st, [])))"

subsection \<open>One poll\<close>

text \<open>
  What a poll finds: the text of \<open>Local State\<close> or why it cannot be read; its \<open>profile.info_cache\<close>, in
  the order of the map, or why it does not parse; whether the snapshot directory can be made; what
  becomes of a \<open>cp\<close> from one path to another; which paths are files; the clone as SQLite opens it, and
  the answer of its \<open>quick_check\<close>.
\<close>

record poll_env =
  pe_local_state :: "(string, string) res"
  pe_info_cache :: "string \<Rightarrow> (string, obj) res"
  pe_private_dir :: bool
  pe_copy :: "string \<Rightarrow> string list \<Rightarrow> subprocess"
  pe_lossy :: "string \<Rightarrow> string"
  pe_is_file :: "string \<Rightarrow> bool"
  pe_open :: "history option"
  pe_check :: "string option"

fun find_profile :: "obj \<Rightarrow> string \<Rightarrow> string list \<Rightarrow> (string list, string) res" where
  "find_profile [] profile known = Inl known"
| "find_profile ((directory, entry) # rest) profile known =
     (case json_get entry ''name'' of
        None \<Rightarrow> find_profile rest profile known
      | Some name \<Rightarrow>
          (case as_str name of
             None \<Rightarrow> find_profile rest profile known
           | Some name \<Rightarrow>
               if name = profile then Inr directory else find_profile rest profile (known @ [name])))"

definition listed :: "string list \<Rightarrow> string" where
  "listed known = (if known = [] then ''none'' else join '', '' known)"

definition resolve_directory :: "(string \<Rightarrow> (string, obj) res) \<Rightarrow> string \<Rightarrow> string \<Rightarrow> (string, string) res" where
  "resolve_directory info_cache content profile =
     (case info_cache content of
        Inl e \<Rightarrow> Inl (''is not valid json: '' @ e)
      | Inr cache \<Rightarrow>
          (case find_profile cache profile [] of
             Inr directory \<Rightarrow> Inr directory
           | Inl known \<Rightarrow>
               Inl (''holds no profile named `'' @ profile @ ''`; the profiles that exist are '' @ listed known)))"

definition directory_for :: "poll_env \<Rightarrow> string \<Rightarrow> string \<Rightarrow> (string, string) res" where
  "directory_for pe user_data profile =
     (let path = path_join user_data local_state_file
      in case pe_local_state pe of
           Inl source \<Rightarrow> Inl (path @ '' could not be read: '' @ source)
         | Inr content \<Rightarrow>
             (case resolve_directory (pe_info_cache pe) content profile of
                Inr directory \<Rightarrow> Inr directory
              | Inl reason \<Rightarrow> Inl (path @ '' '' @ reason)))"

definition clone_file :: "poll_env \<Rightarrow> string \<Rightarrow> string \<Rightarrow> bool" where
  "clone_file pe source destination =
     (case run_with_deadline (pe_lossy pe) (pe_copy pe clone_program [clone_flag, source, destination]) of
        None \<Rightarrow> False
      | Some out \<Rightarrow> succeeded out)"

definition clone_history :: "poll_env \<Rightarrow> string \<Rightarrow> string \<Rightarrow> string option" where
  "clone_history pe source snapshot =
     (if \<not> pe_private_dir pe then None
      else let history = path_join snapshot history_file
           in if \<not> clone_file pe (path_join source history_file) history then None
              else let journal = path_join source history_journal_file
                   in if pe_is_file pe journal \<and>
                         \<not> clone_file pe journal (path_join snapshot history_journal_file)
                      then None else Some history)"

definition open_snapshot :: "poll_env \<Rightarrow> history option" where
  "open_snapshot pe =
     (case pe_open pe of
        None \<Rightarrow> None
      | Some h \<Rightarrow>
          (case pe_check pe of None \<Rightarrow> None | Some checked \<Rightarrow> if checked \<noteq> ''ok'' then None else Some h))"

definition collect_from ::
  "(string \<Rightarrow> string) \<Rightarrow> poll_env \<Rightarrow> string \<Rightarrow> int \<Rightarrow> history_state option \<Rightarrow> nat \<Rightarrow> poll_outcome option option" where
  "collect_from sha pe profile revisit_window st page =
     (case open_snapshot pe of
        None \<Rightarrow> Some None
      | Some h \<Rightarrow> collect sha h profile revisit_window st page)"

definition poll_once ::
  "(string \<Rightarrow> string) \<Rightarrow> poll_env \<Rightarrow> string \<Rightarrow> string \<Rightarrow> string \<Rightarrow> int \<Rightarrow> history_state option \<Rightarrow> nat \<Rightarrow>
     poll_outcome option option" where
  "poll_once sha pe user_data snapshot profile revisit_window st page =
     (case directory_for pe user_data profile of
        Inl reason \<Rightarrow> Some None
      | Inr directory \<Rightarrow>
          (case clone_history pe (path_join user_data directory) snapshot of
             None \<Rightarrow> Some None
           | Some copy \<Rightarrow> collect_from sha pe profile revisit_window st page))"

subsection \<open>The provider\<close>

record browser_config =
  bc_user_data :: string
  bc_profile :: string
  bc_revisit_window :: nat
  bc_state_dir :: string

definition history_emission :: "(json \<Rightarrow> string) \<Rightarrow> string \<Rightarrow> poll_outcome \<Rightarrow> emission" where
  "history_emission render profile out =
     awaiting_commit (po_records out)
       (Some \<lparr>cur_provider = BrowserHistory, cur_key = profile,
             cur_value = render (encode_history (po_state out))\<rparr>)"

text \<open>
  The polls of one run, each with what it finds and how its emission fares, and the emissions in order.
  \<open>None\<close> is not returning.
\<close>

fun history_loop ::
  "(string \<Rightarrow> string) \<Rightarrow> (json \<Rightarrow> string) \<Rightarrow> browser_config \<Rightarrow> (poll_env \<times> delivery) list \<Rightarrow>
     history_state option \<Rightarrow> (bool \<times> history_state option \<times> (emission \<times> delivery) list) option" where
  "history_loop sha render bc [] st = Some (True, st, [])"
| "history_loop sha render bc ((pe, delivered) # polls) st =
     (case poll_once sha pe (bc_user_data bc) (path_join (bc_state_dir bc) snapshot_dir) (bc_profile bc)
             (int (bc_revisit_window bc)) st page_limit of
        None \<Rightarrow> None
      | Some None \<Rightarrow> history_loop sha render bc polls st
      | Some (Some out) \<Rightarrow>
          let em = history_emission render (bc_profile bc) out
          in if delivered = Gone then Some (False, st, [(em, delivered)])
             else map_option (\<lambda>(going, st, ems). (going, st, (em, delivered) # ems))
                    (history_loop sha render bc polls
                       (if delivered = NotCommitted then st else Some (po_state out))))"

definition stored_state :: "(string \<Rightarrow> json option) \<Rightarrow> (string, string option) res \<Rightarrow> (string, history_state option) res" where
  "stored_state parse stored =
     (case stored of
        Inl e \<Rightarrow> Inl (''the buffer refused a cursor: '' @ e)
      | Inr None \<Rightarrow> Inr None
      | Inr (Some value) \<Rightarrow> Inr (decode_history (parse value)))"

text \<open>\<open>run\<close>: the profile must resolve at the start, and the stored state is read.\<close>

definition browser_run ::
  "(string \<Rightarrow> string) \<Rightarrow> (json \<Rightarrow> string) \<Rightarrow> (string \<Rightarrow> json option) \<Rightarrow> browser_config \<Rightarrow> poll_env \<Rightarrow>
     (string, string option) res \<Rightarrow> (poll_env \<times> delivery) list \<Rightarrow>
     (string, bool \<times> history_state option \<times> (emission \<times> delivery) list) res option" where
  "browser_run sha render parse bc pe stored polls =
     (case directory_for pe (bc_user_data bc) (bc_profile bc) of
        Inl reason \<Rightarrow> Some (Inl reason)
      | Inr directory \<Rightarrow>
          (case stored_state parse stored of
             Inl e \<Rightarrow> Some (Inl e)
           | Inr st \<Rightarrow> map_option Inr (history_loop sha render bc polls st)))"

end
