(* ===== verification/Browser_Props.thy ===== *)
theory Browser_Props
  imports Browser_History
begin

text \<open>
  What the browser history provider promises: reading in pages is reading at once, a poll returns, a
  poll collects the visits that are new or have changed since they were last shipped, and over any
  number of polls no visit is shipped twice unchanged and none in the window is missed.
\<close>

subsection \<open>The map of what is shipped\<close>

lemma map_of_bt_insert [simp]: "map_of (bt_insert k v m) = (map_of m)(k \<mapsto> v)"
  by (induction k v m rule: bt_insert.induct) auto

lemma map_of_filter_keys: "map_of (filter (\<lambda>(i, d). P i) m) i = (if P i then map_of m i else None)"
  by (induction m) auto

subsection \<open>Rows\<close>

definition keyed :: "history \<Rightarrow> bool" where
  "keyed h \<longleftrightarrow> distinct (map rv_id (hi_visits h))"

lemma map_filter_ids_sorted:
  fixes f :: "'a \<Rightarrow> int"
  assumes "sorted_wrt (<) (map f xs)"
  shows "sorted_wrt (<) (map (f \<circ> fst) (List.map_filter (\<lambda>v. map_option (Pair v) (g v)) xs))"
  using assms
proof (induction xs)
  case (Cons x xs)
  have "set (map (f \<circ> fst) (List.map_filter (\<lambda>v. map_option (Pair v) (g v)) xs)) \<subseteq> set (map f xs)"
    by (auto simp: List.map_filter_def)
  with Cons show ?case by (auto simp: List.map_filter_simps split: option.split)
qed (simp add: List.map_filter_simps)

lemma joined_sorted:
  assumes "keyed h"
  shows "sorted_wrt (<) (map (rv_id \<circ> fst) (joined h))"
proof -
  have "sorted (map rv_id (sort_key rv_id (hi_visits h)))" by simp
  moreover have "distinct (map rv_id (sort_key rv_id (hi_visits h)))"
    using assms by (simp add: keyed_def distinct_map)
  ultimately show ?thesis
    unfolding joined_def by (intro map_filter_ids_sorted) (simp add: strict_sorted_iff)
qed

lemma read_row_id: "read_row row = Some r \<Longrightarrow> vr_id r = rv_id (fst row)"
  by (auto simp: read_row_def split: prod.splits option.splits)

lemma those_Some_map:
  "those (map f xs) = Some ys \<longleftrightarrow> list_all2 (\<lambda>x y. f x = Some y) xs ys"
proof (induction xs arbitrary: ys)
  case (Cons x xs)
  then show ?case by (cases ys) (auto split: option.splits)
qed auto

lemma rows_ids:
  assumes "those (map read_row xs) = Some rows"
  shows "map vr_id rows = map (rv_id \<circ> fst) xs"
proof -
  have "list_all2 (\<lambda>x y. read_row x = Some y) xs rows" using assms by (simp add: those_Some_map)
  then show ?thesis by (induction rule: list_all2_induct) (auto dest: read_row_id)
qed

lemma those_append:
  "those (map f (xs @ ys)) = Some zs \<longleftrightarrow>
     (\<exists>us vs. those (map f xs) = Some us \<and> those (map f ys) = Some vs \<and> zs = us @ vs)"
proof
  assume "those (map f (xs @ ys)) = Some zs"
  then obtain us vs where "zs = us @ vs" "list_all2 (\<lambda>x y. f x = Some y) xs us"
    "list_all2 (\<lambda>x y. f x = Some y) ys vs"
    unfolding those_Some_map list_all2_append1 by blast
  then show "\<exists>us vs. those (map f xs) = Some us \<and> those (map f ys) = Some vs \<and> zs = us @ vs"
    unfolding those_Some_map by blast
next
  assume "\<exists>us vs. those (map f xs) = Some us \<and> those (map f ys) = Some vs \<and> zs = us @ vs"
  then show "those (map f (xs @ ys)) = Some zs"
    unfolding those_Some_map by (auto intro: list_all2_appendI)
qed

text \<open>The rows after a position.\<close>

definition after :: "history \<Rightarrow> int \<Rightarrow> (raw_visit \<times> cell \<times> cell) list" where
  "after h from = filter (\<lambda>row. from < rv_id (fst row)) (joined h)"

definition rows_after :: "history \<Rightarrow> int \<Rightarrow> visit_row list option" where
  "rows_after h from = those (map read_row (after h from))"

lemma after_sorted: "keyed h \<Longrightarrow> sorted_wrt (<) (map (rv_id \<circ> fst) (after h from))"
  using joined_sorted [of h] unfolding after_def by (simp add: sorted_wrt_map sorted_wrt_filter)

lemma rows_after_distinct:
  assumes "keyed h" "rows_after h from = Some rows"
  shows "distinct (map vr_id rows)" "r \<in> set rows \<Longrightarrow> from < vr_id r"
proof -
  have ids: "map vr_id rows = map (rv_id \<circ> fst) (after h from)"
    using assms(2) unfolding rows_after_def by (rule rows_ids)
  then show "distinct (map vr_id rows)"
    using after_sorted [OF assms(1), of "from"] by (simp add: strict_sorted_iff)
  show "from < vr_id r" if r: "r \<in> set rows"
  proof -
    have "vr_id r \<in> set (map (rv_id \<circ> fst) (after h from))" unfolding ids [symmetric] using r by simp
    then show ?thesis by (auto simp: after_def)
  qed
qed

text \<open>After the last row of a full page comes the rest.\<close>

lemma after_page:
  assumes "keyed h" "page \<le> length (after h from)"
  shows "after h (if page = 0 then from else rv_id (fst (after h from ! (page - 1)))) = drop page (after h from)"
proof (cases page)
  case 0
  then show ?thesis by simp
next
  case (Suc n)
  let ?F = "after h from" and ?pos = "rv_id (fst (after h from ! n))"
  have n: "n < length ?F" using assms(2) Suc by simp
  then have "?F ! n \<in> set ?F" by simp
  then have pos: "from < ?pos" by (auto simp: after_def)
  have "after h ?pos = filter (\<lambda>row. ?pos < rv_id (fst row)) ?F"
    using pos by (auto simp: after_def intro!: filter_cong)
  also have "\<dots> = filter (\<lambda>row. \<not> (rv_id \<circ> fst) row \<le> (rv_id \<circ> fst) (?F ! n)) ?F"
    by (simp add: not_le)
  also have "\<dots> = drop (Suc n) ?F"
    by (rule filter_sorted_le_drop [OF after_sorted [OF assms(1)] n])
  finally show ?thesis using Suc by simp
qed

subsection \<open>What a page adds\<close>

text \<open>The rows that are new or have changed.\<close>

definition news :: "(string \<Rightarrow> string) \<Rightarrow> (int \<times> string) list \<Rightarrow> visit_row list \<Rightarrow> visit_row list" where
  "news sha shipped rows =
     filter (\<lambda>r. vr_url r \<noteq> [] \<and> map_of shipped (vr_id r) \<noteq> Some (digest sha r)) rows"

lemma take_rows_append:
  "take_rows sha profile g (xs @ ys) acc = take_rows sha profile g ys (take_rows sha profile g xs acc)"
  by (induction sha profile g xs acc rule: take_rows.induct) auto

lemma news_update:
  "vr_id row \<notin> set (map vr_id rows) \<Longrightarrow> news sha (bt_insert (vr_id row) d shipped) rows = news sha shipped rows"
  unfolding news_def by (rule filter_cong) (auto simp: image_iff)

lemma take_rows_result:
  assumes "distinct (map vr_id rows)" "take_rows sha profile g rows (pos, shipped, recs) = (pos', shipped', recs')"
  shows "pos' = (if rows = [] then pos else vr_id (last rows))"
    and "recs' = recs @ map (visit_record profile g) (news sha shipped rows)"
    and "r \<in> set rows \<Longrightarrow> vr_url r \<noteq> [] \<Longrightarrow> map_of shipped' (vr_id r) = Some (digest sha r)"
    and "\<forall>r\<in>set rows. vr_url r \<noteq> [] \<longrightarrow> vr_id r \<noteq> i \<Longrightarrow> map_of shipped' i = map_of shipped i"
proof -
  have "pos' = (if rows = [] then pos else vr_id (last rows)) \<and>
        recs' = recs @ map (visit_record profile g) (news sha shipped rows) \<and>
        (\<forall>r\<in>set rows. vr_url r \<noteq> [] \<longrightarrow> map_of shipped' (vr_id r) = Some (digest sha r)) \<and>
        (\<forall>i. (\<forall>r\<in>set rows. vr_url r \<noteq> [] \<longrightarrow> vr_id r \<noteq> i) \<longrightarrow> map_of shipped' i = map_of shipped i)"
    using assms
  proof (induction rows arbitrary: pos shipped recs)
    case Nil
    then show ?case by (simp add: news_def)
  next
    case (Cons row rows)
    consider "vr_url row = []" | "vr_url row \<noteq> []" "map_of shipped (vr_id row) = Some (digest sha row)"
      | "vr_url row \<noteq> []" "map_of shipped (vr_id row) \<noteq> Some (digest sha row)" by blast
    then show ?case
    proof cases
      case 1
      with Cons.prems Cons.IH [of "vr_id row" shipped recs] show ?thesis by (auto simp: news_def)
    next
      case 2
      with Cons.prems have run: "take_rows sha profile g rows (vr_id row, shipped, recs) = (pos', shipped', recs')"
        by simp
      have fresh: "\<forall>r\<in>set rows. vr_url r \<noteq> [] \<longrightarrow> vr_id r \<noteq> vr_id row"
        using Cons.prems(1) by (auto simp: image_iff)
      with 2 Cons.prems(1) Cons.IH [OF _ run] show ?thesis by (auto simp: news_def)
    next
      case 3
      let ?shipped = "bt_insert (vr_id row) (digest sha row) shipped"
      have run: "take_rows sha profile g rows (vr_id row, ?shipped, recs @ [visit_record profile g row]) =
          (pos', shipped', recs')"
        using 3 Cons.prems(2) by simp
      have fresh: "\<forall>r\<in>set rows. vr_url r \<noteq> [] \<longrightarrow> vr_id r \<noteq> vr_id row"
        and out: "vr_id row \<notin> set (map vr_id rows)"
        using Cons.prems(1) by (auto simp: image_iff)
      have "news sha shipped (row # rows) = row # news sha ?shipped rows"
        using 3 news_update [OF out] by (simp add: news_def)
      with 3 fresh Cons.prems(1) Cons.IH [OF _ run] show ?thesis by auto
    qed
  qed
  then show "pos' = (if rows = [] then pos else vr_id (last rows))"
    and "recs' = recs @ map (visit_record profile g) (news sha shipped rows)"
    and "r \<in> set rows \<Longrightarrow> vr_url r \<noteq> [] \<Longrightarrow> map_of shipped' (vr_id r) = Some (digest sha r)"
    and "\<forall>r\<in>set rows. vr_url r \<noteq> [] \<longrightarrow> vr_id r \<noteq> i \<Longrightarrow> map_of shipped' i = map_of shipped i"
    by blast+
qed

subsection \<open>Reading in pages is reading at once\<close>

lemma read_page_Some:
  assumes "read_page h from page = Some rows"
  shows "those (map read_row (take page (after h from))) = Some rows" "length rows = min page (length (after h from))"
proof -
  show r: "those (map read_row (take page (after h from))) = Some rows"
    using assms by (simp add: read_page_def after_def split: if_splits)
  then have "list_all2 (\<lambda>x y. read_row x = Some y) (take page (after h from)) rows"
    by (simp add: those_Some_map)
  then show "length rows = min page (length (after h from))"
    by (auto dest: list_all2_lengthD)
qed

text \<open>A full page leaves the position at its last row.\<close>

lemma take_rows_position:
  assumes "keyed h" "read_page h (fst acc) page = Some rows" "\<not> length rows < page"
  shows "after h (fst (take_rows sha profile g rows acc)) = drop page (after h (fst acc))"
proof -
  let ?F = "after h (fst acc)"
  note page = read_page_Some [OF assms(2)]
  have le: "page \<le> length ?F" and len: "length rows = page" using page(2) assms(3) by auto
  have ids: "map vr_id rows = map (rv_id \<circ> fst) (take page ?F)" by (rule rows_ids [OF page(1)])
  have "distinct (map vr_id rows)"
  proof -
    have "sorted_wrt (<) (map (rv_id \<circ> fst) (take page ?F))"
      using after_sorted [OF assms(1), of "fst acc"] by (simp add: sorted_wrt_take flip: take_map)
    then show ?thesis unfolding ids by (simp add: strict_sorted_iff)
  qed
  then have pos: "fst (take_rows sha profile g rows acc) = (if rows = [] then fst acc else vr_id (last rows))"
    by (cases acc; cases "take_rows sha profile g rows acc") (use take_rows_result(1) in fastforce)
  have "(if rows = [] then fst acc else vr_id (last rows)) =
      (if page = 0 then fst acc else rv_id (fst (?F ! (page - 1))))"
  proof (cases "page = 0")
    case False
    then have ne: "rows \<noteq> []" using len by auto
    have "vr_id (last rows) = map vr_id rows ! (page - 1)"
      using ne len False by (simp add: last_conv_nth)
    also have "\<dots> = rv_id (fst (?F ! (page - 1)))"
      unfolding ids using le False by simp
    finally show ?thesis using ne False by simp
  qed (use len in simp)
  then show ?thesis using after_page [OF assms(1) le] pos by simp
qed

lemma collect_loop_rows:
  assumes "collect_loop sha profile g h page acc = Some (Some acc')" "keyed h"
  shows "\<exists>rows. rows_after h (fst acc) = Some rows \<and> acc' = take_rows sha profile g rows acc"
proof -
  let ?P = "\<lambda>sha' profile' g' h' page' acc y. sha' = sha \<longrightarrow> profile' = profile \<longrightarrow> g' = g \<longrightarrow> h' = h \<longrightarrow>
    (\<forall>acc'. y = Some acc' \<longrightarrow>
       (\<exists>rows. rows_after h (fst acc) = Some rows \<and> acc' = take_rows sha profile g rows acc))"
  have "?P sha profile g h page acc (Some acc')"
  proof (rule collect_loop.raw_induct [where P = ?P, OF _ assms(1)])
    fix loop sha' profile' g' h' page' acc y
    assume IH: "\<And>sha profile g h page acc y. loop sha profile g h page acc = Some y \<Longrightarrow> ?P sha profile g h page acc y"
      and body: "(case read_page h' (fst acc) page' of None \<Rightarrow> Some None
        | Some rows \<Rightarrow> if length rows < page' then Some (Some (take_rows sha' profile' g' rows acc))
            else loop sha' profile' g' h' page' (take_rows sha' profile' g' rows acc)) = Some y"
    show "?P sha' profile' g' h' page' acc y"
    proof (intro impI allI)
      fix acc'
      assume eqs: "sha' = sha" "profile' = profile" "g' = g" "h' = h" "y = Some acc'"
      obtain rows where rows: "read_page h (fst acc) page' = Some rows"
        using body eqs by (auto split: option.splits)
      note page = read_page_Some [OF rows]
      show "\<exists>rows. rows_after h (fst acc) = Some rows \<and> acc' = take_rows sha profile g rows acc"
      proof (cases "length rows < page'")
        case True
        then have "take page' (after h (fst acc)) = after h (fst acc)" using page(2) by simp
        with page(1) body eqs rows True show ?thesis by (auto simp: rows_after_def)
      next
        case False
        with body eqs rows have "loop sha profile g h page' (take_rows sha profile g rows acc) = Some (Some acc')"
          by simp
        from IH [OF this] obtain rest where
          rest: "rows_after h (fst (take_rows sha profile g rows acc)) = Some rest"
            "acc' = take_rows sha profile g rest (take_rows sha profile g rows acc)" by auto
        have "those (map read_row (drop page' (after h (fst acc)))) = Some rest"
          using rest(1) take_rows_position [OF assms(2) rows False] by (simp add: rows_after_def)
        with page(1) have "rows_after h (fst acc) = Some (rows @ rest)"
          unfolding rows_after_def
          using those_append [of read_row "take page' (after h (fst acc))" "drop page' (after h (fst acc))" "rows @ rest"]
          by (simp flip: map_append)
        with rest(2) show ?thesis by (auto simp: take_rows_append)
      qed
    qed
  qed
  then show ?thesis by simp
qed

text \<open>With a page of at least one row the loop returns.\<close>

lemma collect_loop_returns:
  assumes "keyed h" "0 < page"
  shows "\<exists>res. collect_loop sha profile g h page acc = Some res"
proof (induction "length (after h (fst acc))" arbitrary: acc rule: less_induct)
  case less
  show ?case
  proof (cases "read_page h (fst acc) page")
    case None
    then show ?thesis by (subst collect_loop.simps) simp
  next
    case (Some rows)
    show ?thesis
    proof (cases "length rows < page")
      case True
      with Some show ?thesis by (subst collect_loop.simps) simp
    next
      case False
      have "page \<le> length (after h (fst acc))" using read_page_Some(2) [OF Some] False by simp
      then have "length (after h (fst (take_rows sha profile g rows acc))) < length (after h (fst acc))"
        using take_rows_position [OF assms(1) Some False, of sha profile g] assms(2) by simp
      from less [OF this] Some False show ?thesis by (subst collect_loop.simps) simp
    qed
  qed
qed

subsection \<open>One poll\<close>

definition start_of :: "int \<Rightarrow> history_state \<Rightarrow> int" where
  "start_of win st = max (hs_cursor st - win) 0"

lemma collect_Some:
  assumes "collect sha h profile win st page = Some (Some out)" "keyed h"
  obtains highest rows where
    "highest_visit_id h = Some highest"
    "rows_after h (start_of win (state_for st highest)) = Some rows"
    "out = collected win (state_for st highest)
       (take_rows sha profile (hs_generation (state_for st highest)) rows
         (start_of win (state_for st highest), hs_shipped (state_for st highest), []))"
proof -
  from assms(1) obtain highest where h: "highest_visit_id h = Some highest"
    by (auto simp: collect_def split: option.splits)
  let ?s = "state_for st highest"
  from assms(1) h obtain acc where
    loop: "collect_loop sha profile (hs_generation ?s) h page (start_of win ?s, hs_shipped ?s, []) = Some (Some acc)"
    and out: "out = collected win ?s acc"
    by (auto simp: collect_def Let_def start_of_def)
  from collect_loop_rows [OF loop assms(2)] out h that show thesis by auto
qed

lemma collect_result:
  assumes "collect sha h profile win st page = Some (Some out)" "keyed h"
  obtains highest rows where
    "highest_visit_id h = Some highest"
    "rows_after h (start_of win (state_for st highest)) = Some rows"
    "po_records out = map (visit_record profile (hs_generation (state_for st highest)))
       (news sha (hs_shipped (state_for st highest)) rows)"
    "hs_generation (po_state out) = hs_generation (state_for st highest)"
    "hs_cursor (po_state out) = max (hs_cursor (state_for st highest))
       (if rows = [] then start_of win (state_for st highest) else vr_id (last rows))"
    "\<And>r. r \<in> set rows \<Longrightarrow> vr_url r \<noteq> [] \<Longrightarrow> hs_cursor (po_state out) - win < vr_id r \<Longrightarrow>
       map_of (hs_shipped (po_state out)) (vr_id r) = Some (digest sha r)"
    "\<And>i. \<forall>r\<in>set rows. vr_url r \<noteq> [] \<longrightarrow> vr_id r \<noteq> i \<Longrightarrow> hs_cursor (po_state out) - win < i \<Longrightarrow>
       map_of (hs_shipped (po_state out)) i = map_of (hs_shipped (state_for st highest)) i"
proof -
  obtain highest rows where h: "highest_visit_id h = Some highest"
    and rows: "rows_after h (start_of win (state_for st highest)) = Some rows"
    and out: "out = collected win (state_for st highest)
       (take_rows sha profile (hs_generation (state_for st highest)) rows
         (start_of win (state_for st highest), hs_shipped (state_for st highest), []))"
    using collect_Some [OF assms] .
  let ?s = "state_for st highest"
  obtain pos shipped recs where t:
    "take_rows sha profile (hs_generation ?s) rows (start_of win ?s, hs_shipped ?s, []) = (pos, shipped, recs)"
    by (cases "take_rows sha profile (hs_generation ?s) rows (start_of win ?s, hs_shipped ?s, [])")
  note r = take_rows_result [OF rows_after_distinct(1) [OF assms(2) rows] t]
  have "po_records out = recs" "hs_generation (po_state out) = hs_generation ?s"
    "hs_cursor (po_state out) = max (hs_cursor ?s) pos"
    and shipped: "map_of (hs_shipped (po_state out)) i =
      (if hs_cursor (po_state out) - win < i then map_of shipped i else None)" for i
    by (simp_all add: out t collected_def Let_def map_of_filter_keys)
  then show thesis using that [OF h rows] r by simp
qed

subsection \<open>Polls over time\<close>

text \<open>The contents of a visit that were shipped, in order; \<open>vis\<close> is what was, with generations.\<close>

definition contents :: "(string \<Rightarrow> string) \<Rightarrow> (nat \<times> visit_row) list \<Rightarrow> nat \<Rightarrow> int \<Rightarrow> string list" where
  "contents sha vis g i = map (digest sha \<circ> snd) (filter (\<lambda>(g', r). g' = g \<and> vr_id r = i) vis)"

definition latest :: "'a list \<Rightarrow> 'a option" where
  "latest xs = (if xs = [] then None else Some (last xs))"

lemma contents_append: "contents sha (xs @ ys) g i = contents sha xs g i @ contents sha ys g i"
  by (simp add: contents_def)

definition told :: "nat \<Rightarrow> visit_row list \<Rightarrow> (nat \<times> visit_row) list" where
  "told g rows = map (Pair g) rows"

lemma contents_told_other: "g' \<noteq> g \<Longrightarrow> contents sha (told g rows) g' i = []"
  by (auto simp: contents_def told_def filter_map o_def)

lemma contents_told_none: "\<forall>r\<in>set rows. vr_id r \<noteq> i \<Longrightarrow> contents sha (told g rows) g i = []"
  by (induction rows) (auto simp: contents_def told_def)

lemma contents_told:
  "distinct (map vr_id rows) \<Longrightarrow> r \<in> set rows \<Longrightarrow> contents sha (told g rows) g (vr_id r) = [digest sha r]"
proof (induction rows)
  case (Cons row rows)
  show ?case
  proof (cases "r = row")
    case True
    with Cons.prems have "\<forall>x\<in>set rows. vr_id x \<noteq> vr_id r" by (auto simp: image_iff)
    from contents_told_none [OF this] True show ?thesis by (simp add: contents_def told_def)
  next
    case False
    with Cons.prems have "r \<in> set rows" "vr_id row \<noteq> vr_id r" by force+
    with Cons show ?thesis by (simp add: contents_def told_def)
  qed
qed simp

text \<open>What the state knows of what was shipped.\<close>

definition knows :: "(string \<Rightarrow> string) \<Rightarrow> int \<Rightarrow> (nat \<times> visit_row) list \<Rightarrow> history_state \<Rightarrow> bool" where
  "knows sha win vis s \<longleftrightarrow>
     (\<forall>(g, r)\<in>set vis. g \<le> hs_generation s) \<and>
     (\<forall>i>start_of win s. map_of (hs_shipped s) i = latest (contents sha vis (hs_generation s) i))"

definition told_once :: "(string \<Rightarrow> string) \<Rightarrow> (nat \<times> visit_row) list \<Rightarrow> bool" where
  "told_once sha vis \<longleftrightarrow> (\<forall>g i. successively (\<noteq>) (contents sha vis g i))"

lemma contents_newer: "\<forall>(g', r)\<in>set vis. g' < g \<Longrightarrow> contents sha vis g i = []"
  by (induction vis) (auto simp: contents_def)

lemma knows_state_for:
  assumes "case st of None \<Rightarrow> vis = [] | Some s \<Rightarrow> knows sha win vis s \<and> hs_generation s + 1 < 2 ^ 64"
  shows "knows sha win vis (state_for st highest)"
proof (cases st)
  case None
  with assms show ?thesis by (simp add: state_for_def fresh_state_def knows_def contents_def latest_def)
next
  case (Some s)
  show ?thesis
  proof (cases "highest < hs_cursor s")
    case True
    have g: "succ64 (hs_generation s) = hs_generation s + 1"
      by (rule succ64_small) (use assms Some in simp)
    have less: "\<forall>(g', r)\<in>set vis. g' < hs_generation s + 1"
      using assms Some by (auto simp: knows_def)
    have "contents sha vis (hs_generation s + 1) i = []" for i by (rule contents_newer [OF less])
    with True less Some show ?thesis
      by (auto simp: state_for_def regenerated_def knows_def latest_def g)
  next
    case False
    with assms Some show ?thesis by (simp add: state_for_def)
  qed
qed

lemma generation_state_for:
  "hs_generation (state_for (Some s) highest) \<le> hs_generation s + 1 \<or> 2 ^ 64 \<le> hs_generation s + 1"
proof (cases "hs_generation s + 1 < 2 ^ 64")
  case True
  then show ?thesis using succ64_small [OF True] by (simp add: state_for_def regenerated_def)
qed simp

lemma collect_keeps:
  assumes poll: "collect sha h profile win st page = Some (Some out)" "keyed h" "0 \<le> win"
    and start: "case st of None \<Rightarrow> vis = [] | Some s \<Rightarrow> knows sha win vis s \<and> hs_generation s + 1 < 2 ^ 64"
    and once: "told_once sha vis"
  obtains rows g new where
    "rows_after h (start_of win (state_for st (the (highest_visit_id h)))) = Some rows"
    "g = hs_generation (po_state out)" "po_records out = map (visit_record profile g) new"
    "told_once sha (vis @ told g new)" "knows sha win (vis @ told g new) (po_state out)"
    "\<And>r. r \<in> set rows \<Longrightarrow> vr_url r \<noteq> [] \<Longrightarrow>
       latest (contents sha (vis @ told g new) g (vr_id r)) = Some (digest sha r)"
proof -
  obtain highest rows where highest: "highest_visit_id h = Some highest"
    and rows: "rows_after h (start_of win (state_for st highest)) = Some rows"
    and out: "po_records out = map (visit_record profile (hs_generation (state_for st highest)))
       (news sha (hs_shipped (state_for st highest)) rows)"
      "hs_generation (po_state out) = hs_generation (state_for st highest)"
      "hs_cursor (po_state out) = max (hs_cursor (state_for st highest))
        (if rows = [] then start_of win (state_for st highest) else vr_id (last rows))"
    and seen: "\<And>r. r \<in> set rows \<Longrightarrow> vr_url r \<noteq> [] \<Longrightarrow> hs_cursor (po_state out) - win < vr_id r \<Longrightarrow>
       map_of (hs_shipped (po_state out)) (vr_id r) = Some (digest sha r)"
    and unseen: "\<And>i. \<forall>r\<in>set rows. vr_url r \<noteq> [] \<longrightarrow> vr_id r \<noteq> i \<Longrightarrow> hs_cursor (po_state out) - win < i \<Longrightarrow>
       map_of (hs_shipped (po_state out)) i = map_of (hs_shipped (state_for st highest)) i"
    using collect_result [OF poll(1,2)] by metis
  define s where "s = state_for st highest"
  define g where "g = hs_generation s"
  define new where "new = news sha (hs_shipped s) rows"
  let ?vis = "vis @ told g new"
  have knows: "knows sha win vis s" unfolding s_def by (rule knows_state_for [OF start])
  note dist = rows_after_distinct [OF poll(2) rows]
  have new_dist: "distinct (map vr_id new)" using dist(1) by (simp add: new_def news_def distinct_map_filter)
  have known: "map_of (hs_shipped s) i = latest (contents sha vis g i)" if "start_of win s < i" for i
    using knows that by (simp add: knows_def g_def)
  have later: "latest (contents sha ?vis g (vr_id r)) = Some (digest sha r)"
    if r: "r \<in> set rows" "vr_url r \<noteq> []" for r
  proof (cases "r \<in> set new")
    case True
    then show ?thesis by (simp add: contents_append contents_told [OF new_dist] latest_def)
  next
    case False
    with r have sh: "map_of (hs_shipped s) (vr_id r) = Some (digest sha r)" by (simp add: new_def news_def)
    have "\<forall>x\<in>set new. vr_id x \<noteq> vr_id r"
    proof
      fix x assume x: "x \<in> set new"
      then have "x \<in> set rows" by (simp add: new_def news_def)
      with dist(1) r x False show "vr_id x \<noteq> vr_id r" by (auto simp: distinct_map inj_on_def)
    qed
    from contents_told_none [OF this] have "contents sha (told g new) g (vr_id r) = []" .
    with sh known [of "vr_id r"] dist(2) [OF r(1)] show ?thesis by (simp add: contents_append s_def)
  qed
  have "told_once sha ?vis"
    unfolding told_once_def
  proof (intro allI)
    fix g' i
    have old: "successively (\<noteq>) (contents sha vis g' i)" using once by (simp add: told_once_def)
    consider "g' \<noteq> g \<or> (\<forall>r\<in>set new. vr_id r \<noteq> i)" | r where "g' = g" "r \<in> set new" "vr_id r = i" by blast
    then show "successively (\<noteq>) (contents sha ?vis g' i)"
    proof cases
      case 1
      then have "contents sha (told g new) g' i = []"
        using contents_told_other contents_told_none by metis
      with old show ?thesis by (simp add: contents_append)
    next
      case 2
      then have "map_of (hs_shipped s) i \<noteq> Some (digest sha r)" "r \<in> set rows" by (auto simp: new_def news_def)
      with 2 known [of i] dist(2) [of r] have "latest (contents sha vis g i) \<noteq> Some (digest sha r)"
        by (simp add: s_def)
      with 2 old contents_told [OF new_dist 2(2)] show ?thesis
        by (auto simp: contents_append successively_append_iff latest_def split: if_splits)
    qed
  qed
  moreover have "knows sha win ?vis (po_state out)"
    unfolding knows_def
  proof (intro conjI allI impI)
    show "\<forall>(g', r)\<in>set ?vis. g' \<le> hs_generation (po_state out)"
      using knows out(2) by (auto simp: knows_def told_def g_def s_def)
    fix i assume i: "start_of win (po_state out) < i"
    have cursor: "hs_cursor s \<le> hs_cursor (po_state out)" using out(3) by (simp add: s_def)
    have above: "hs_cursor (po_state out) - win < i" "start_of win s < i"
      using i cursor by (auto simp: start_of_def)
    show "map_of (hs_shipped (po_state out)) i = latest (contents sha ?vis (hs_generation (po_state out)) i)"
    proof (cases "\<exists>r\<in>set rows. vr_url r \<noteq> [] \<and> vr_id r = i")
      case True
      then obtain r where "r \<in> set rows" "vr_url r \<noteq> []" "vr_id r = i" by blast
      with seen [of r] later [of r] above out(2) show ?thesis by (simp add: g_def s_def)
    next
      case False
      then have none: "\<forall>r\<in>set new. vr_id r \<noteq> i" by (auto simp: new_def news_def)
      have "map_of (hs_shipped (po_state out)) i = map_of (hs_shipped s) i"
        unfolding s_def by (rule unseen) (use False above in auto)
      with known [OF above(2)] contents_told_none [OF none, of sha g] out(2) show ?thesis
        by (simp add: contents_append g_def s_def)
    qed
  qed
  moreover have "rows_after h (start_of win (state_for st (the (highest_visit_id h)))) = Some rows"
    using rows highest by simp
  moreover have "g = hs_generation (po_state out)" "po_records out = map (visit_record profile g) new"
    using out by (simp_all add: g_def s_def new_def)
  ultimately show thesis using that later by blast
qed

subsection \<open>A run\<close>

definition committed_records :: "(emission \<times> delivery) list \<Rightarrow> record_draft list" where
  "committed_records ems = concat (map (\<lambda>(em, d). if d = Committed then em_records em else []) ems)"

lemma committed_records_simps [simp]:
  "committed_records [] = []"
  "committed_records ((em, d) # ems) = (if d = Committed then em_records em else []) @ committed_records ems"
  "committed_records (xs @ ys) = committed_records xs @ committed_records ys"
  by (simp_all add: committed_records_def)

text \<open>The database of every snapshot has a primary key.\<close>

definition keyed_env :: "poll_env \<Rightarrow> bool" where
  "keyed_env pe = pred_option keyed (pe_open pe)"

lemma open_snapshot_keyed: "keyed_env pe \<Longrightarrow> open_snapshot pe = Some h \<Longrightarrow> keyed h"
  by (auto simp: keyed_env_def open_snapshot_def split: option.splits if_splits)

lemma poll_once_Some:
  assumes "poll_once sha pe user_data snapshot profile win st page = Some (Some out)"
  obtains h where "open_snapshot pe = Some h" "collect sha h profile win st page = Some (Some out)"
  using assms by (auto simp: poll_once_def collect_from_def split: sum.splits option.splits)

lemma poll_once_returns:
  assumes "keyed_env pe" "0 < page"
  shows "\<exists>res. poll_once sha pe user_data snapshot profile win st page = Some res"
proof -
  have "\<exists>res. collect sha h profile win st page = Some res" if "open_snapshot pe = Some h" for h
  proof -
    have "\<exists>res. collect_loop sha profile g h page acc = Some res" for g acc
      by (rule collect_loop_returns [OF open_snapshot_keyed [OF assms(1) that] assms(2)])
    then have loop: "collect_loop sha profile g h page acc \<noteq> None" for g acc by (simp add: option.distinct)
    have "collect sha h profile win st page \<noteq> None"
      by (cases "highest_visit_id h") (simp_all add: collect_def Let_def loop)
    then show ?thesis by simp
  qed
  then show ?thesis
    by (auto simp: poll_once_def collect_from_def split: sum.split option.split)
qed

text \<open>What a provider knows, with room for \<open>n\<close> more generations.\<close>

definition aware :: "(string \<Rightarrow> string) \<Rightarrow> int \<Rightarrow> (nat \<times> visit_row) list \<Rightarrow> nat \<Rightarrow> history_state option \<Rightarrow> bool" where
  "aware sha win vis n st =
     (case st of None \<Rightarrow> vis = [] | Some s \<Rightarrow> knows sha win vis s \<and> hs_generation s + n < 2 ^ 64)"

lemma aware_mono: "aware sha win vis n st \<Longrightarrow> m \<le> n \<Longrightarrow> aware sha win vis m st"
  by (auto simp: aware_def split: option.splits)

lemma collect_generation:
  assumes "collect sha h profile win st page = Some (Some out)" "keyed h" "aware sha win vis (Suc n) st"
    "Suc n < 2 ^ 64"
  shows "hs_generation (po_state out) + n < 2 ^ 64"
proof -
  obtain highest where g: "hs_generation (po_state out) = hs_generation (state_for st highest)"
    using collect_result [OF assms(1,2)] by metis
  show ?thesis
  proof (cases st)
    case None
    with g assms(4) show ?thesis by (simp add: state_for_def fresh_state_def)
  next
    case (Some s)
    define top :: nat where "top = 2 ^ 64"
    have "hs_generation s + Suc n < top" using assms(3) Some by (simp add: aware_def top_def)
    moreover have "hs_generation (state_for st highest) \<le> hs_generation s + 1 \<or> top \<le> hs_generation s + 1"
      unfolding Some top_def by (rule generation_state_for)
    ultimately show ?thesis unfolding g top_def [symmetric] by linarith
  qed
qed

lemma zero_less_page_limit: "0 < page_limit"
  by (simp add: page_limit_def)

lemma history_loop_run:
  assumes "list_all (\<lambda>(pe, d). keyed_env pe) polls" "aware sha (int (bc_revisit_window bc)) vis (length polls + n) st"
    "length polls + n < 2 ^ 64" "told_once sha vis"
  shows "\<exists>going st' ems more. history_loop sha render bc polls st = Some (going, st', ems) \<and>
     committed_records ems = map (\<lambda>(g, r). visit_record (bc_profile bc) g r) more \<and>
     told_once sha (vis @ more) \<and> aware sha (int (bc_revisit_window bc)) (vis @ more) n st'"
  using assms
proof (induction polls arbitrary: vis st)
  case Nil
  then show ?case by (auto intro!: exI [of _ "[]"])
next
  case (Cons poll polls)
  obtain pe d where poll: "poll = (pe, d)" by (cases poll)
  let ?win = "int (bc_revisit_window bc)"
  let ?once = "poll_once sha pe (bc_user_data bc) (path_join (bc_state_dir bc) snapshot_dir) (bc_profile bc) ?win st page_limit"
  have pe: "keyed_env pe" and rest: "list_all (\<lambda>(pe, d). keyed_env pe) polls"
    and len: "length polls + n < 2 ^ 64" using Cons.prems(1,3) poll by simp_all
  have aware: "aware sha ?win vis (length polls + n) st" by (rule aware_mono [OF Cons.prems(2)]) simp
  obtain res where res: "?once = Some res"
    using poll_once_returns [OF pe zero_less_page_limit] by blast
  show ?case
  proof (cases res)
    case None
    with poll res Cons.IH [OF rest aware len Cons.prems(4)] show ?thesis by simp
  next
    case (Some out)
    let ?em = "history_emission render (bc_profile bc) out"
    have em: "em_records ?em = po_records out" by (simp add: history_emission_def awaiting_commit_def)
    consider "d = Gone" | "d = NotCommitted" | "d = Committed" by (cases d) auto
    then show ?thesis
    proof cases
      case 1
      with poll res Some aware_mono [OF Cons.prems(2), of n] Cons.prems(4) show ?thesis
        by (auto simp: Let_def intro!: exI [of _ "[]"])
    next
      case 2
      with poll res Some Cons.IH [OF rest aware len Cons.prems(4)] show ?thesis by (auto simp: Let_def)
    next
      case 3
      obtain h where h: "open_snapshot pe = Some h"
        "collect sha h (bc_profile bc) ?win st page_limit = Some (Some out)"
        using poll_once_Some res Some by metis
      have keyed: "keyed h" by (rule open_snapshot_keyed [OF pe h(1)])
      have start: "case st of None \<Rightarrow> vis = [] | Some s \<Rightarrow> knows sha ?win vis s \<and> hs_generation s + 1 < 2 ^ 64"
        using Cons.prems(2) by (auto simp: aware_def split: option.splits)
      obtain g new where new: "g = hs_generation (po_state out)"
          "po_records out = map (visit_record (bc_profile bc) g) new"
          "told_once sha (vis @ told g new)" "knows sha ?win (vis @ told g new) (po_state out)"
        using collect_keeps [OF h(2) keyed _ start Cons.prems(4)] by (metis of_nat_0_le_iff)
      have "hs_generation (po_state out) + (length polls + n) < 2 ^ 64"
        using collect_generation [OF h(2) keyed, of vis "length polls + n"] Cons.prems(2,3) by simp
      with new(4) have "aware sha ?win (vis @ told g new) (length polls + n) (Some (po_state out))"
        by (simp add: aware_def)
      from Cons.IH [OF rest this len new(3)] obtain going st' ems more where run:
        "history_loop sha render bc polls (Some (po_state out)) = Some (going, st', ems)"
        "committed_records ems = map (\<lambda>(g, r). visit_record (bc_profile bc) g r) more"
        "told_once sha ((vis @ told g new) @ more)" "aware sha ?win ((vis @ told g new) @ more) n st'" by blast
      have "committed_records ((?em, d) # ems) = map (\<lambda>(g, r). visit_record (bc_profile bc) g r) (told g new @ more)"
        using 3 run(2) new(2) em by (simp add: told_def)
      with poll res Some 3 run show ?thesis
        by (intro exI [of _ going] exI [of _ st'] exI [of _ "(?em, d) # ems"] exI [of _ "told g new @ more"])
          (simp add: Let_def)
    qed
  qed
qed

lemma history_loop_append:
  "history_loop sha render bc xs st = Some (True, st', ems) \<Longrightarrow>
   history_loop sha render bc (xs @ ys) st =
     map_option (\<lambda>(going, s, more). (going, s, ems @ more)) (history_loop sha render bc ys st')"
proof (induction xs arbitrary: st ems)
  case Nil
  then show ?case by (simp add: option.map_ident case_prod_unfold)
next
  case (Cons poll xs)
  obtain pe d where poll: "poll = (pe, d)" by (cases poll)
  show ?case
    using Cons.prems Cons.IH
    by (auto simp: poll Let_def option.map_comp o_def case_prod_unfold split: option.splits if_splits)
qed

text \<open>
  Polled any number of times, whatever becomes of the emissions, while visits are added, change,
  disappear or the whole database is replaced, the provider returns from every poll, and no visit is
  ever shipped twice in a row with the same content: of a visit of one generation, what was committed
  differs from one record to the next in its title, its transition or its duration (by digest).
\<close>

theorem visits_told_once:
  assumes "list_all (\<lambda>(pe, d). keyed_env pe) polls" "length polls < 2 ^ 64"
  shows "\<exists>going st ems vis. history_loop sha render bc polls None = Some (going, st, ems) \<and>
           committed_records ems = map (\<lambda>(g, r). visit_record (bc_profile bc) g r) vis \<and>
           (\<forall>g i. successively (\<noteq>) (contents sha vis g i))"
  using history_loop_run [OF assms(1), of sha bc "[]" 0 None render] assms(2)
  by (auto simp: aware_def told_once_def contents_def)

text \<open>
  C20. Nothing in the window is missed: whatever happened before, once a poll's emission is committed,
  every visit of its snapshot behind the window's start has been shipped with the content it has there,
  in the generation of the state the provider goes on with, and that is the last thing shipped of it.
\<close>

theorem window_told:
  assumes "list_all (\<lambda>(pe, d). keyed_env pe) polls" "keyed_env pe" "Suc (length polls) < 2 ^ 64"
    and before: "history_loop sha render bc polls None = Some (True, st, ems)"
    and poll: "poll_once sha pe (bc_user_data bc) (path_join (bc_state_dir bc) snapshot_dir) (bc_profile bc)
        (int (bc_revisit_window bc)) st page_limit = Some (Some out)"
    and snapshot: "open_snapshot pe = Some h"
  shows "\<exists>vis rows.
     history_loop sha render bc (polls @ [(pe, Committed)]) None =
       Some (True, Some (po_state out), ems @ [(history_emission render (bc_profile bc) out, Committed)]) \<and>
     committed_records (ems @ [(history_emission render (bc_profile bc) out, Committed)]) =
       map (\<lambda>(g, r). visit_record (bc_profile bc) g r) vis \<and>
     rows_after h (start_of (int (bc_revisit_window bc)) (state_for st (the (highest_visit_id h)))) = Some rows \<and>
     (\<forall>r\<in>set rows. vr_url r \<noteq> [] \<longrightarrow>
        latest (contents sha vis (hs_generation (po_state out)) (vr_id r)) = Some (digest sha r))"
proof -
  let ?win = "int (bc_revisit_window bc)"
  let ?em = "history_emission render (bc_profile bc) out"
  have step: "history_loop sha render bc [(pe, Committed)] st = Some (True, Some (po_state out), [(?em, Committed)])"
    using poll by (simp add: Let_def)
  have whole: "history_loop sha render bc (polls @ [(pe, Committed)]) None =
      Some (True, Some (po_state out), ems @ [(?em, Committed)])"
    using history_loop_append [OF before] step by simp
  have "list_all (\<lambda>(pe, d). keyed_env pe) polls" "length polls + 1 < 2 ^ 64" using assms(1,3) by simp_all
  moreover have "aware sha ?win [] (length polls + 1) None" by (simp add: aware_def)
  ultimately obtain vis where vis: "committed_records ems = map (\<lambda>(g, r). visit_record (bc_profile bc) g r) vis"
    "told_once sha vis" "aware sha ?win vis 1 st"
    using history_loop_run [of polls sha bc "[]" 1 None render] before by (auto simp: told_once_def contents_def)
  obtain h' where "open_snapshot pe = Some h'" and
    collect: "collect sha h' (bc_profile bc) ?win st page_limit = Some (Some out)"
    by (rule poll_once_Some [OF poll])
  then have h': "h' = h" using snapshot by simp
  have keyed: "keyed h" by (rule open_snapshot_keyed [OF assms(2) snapshot])
  have start: "case st of None \<Rightarrow> vis = [] | Some s \<Rightarrow> knows sha ?win vis s \<and> hs_generation s + 1 < 2 ^ 64"
    using vis(3) unfolding aware_def .
  obtain rows g new where new:
      "rows_after h (start_of ?win (state_for st (the (highest_visit_id h)))) = Some rows"
      "g = hs_generation (po_state out)" "po_records out = map (visit_record (bc_profile bc) g) new"
      "\<And>r. r \<in> set rows \<Longrightarrow> vr_url r \<noteq> [] \<Longrightarrow>
         latest (contents sha (vis @ told g new) g (vr_id r)) = Some (digest sha r)"
    using collect_keeps [OF collect [unfolded h'] keyed _ start vis(2)] by (metis of_nat_0_le_iff)
  have "committed_records (ems @ [(?em, Committed)]) =
      map (\<lambda>(g, r). visit_record (bc_profile bc) g r) (vis @ told g new)"
    using vis(1) new(3) by (simp add: history_emission_def awaiting_commit_def told_def)
  with whole new show ?thesis by blast
qed

subsection \<open>The stored state\<close>

text \<open>What the provider stores it reads back: its states fit \<open>i64\<close> and \<open>u64\<close> and their maps are sorted.\<close>

definition history_fits :: "history_state \<Rightarrow> bool" where
  "history_fits s \<longleftrightarrow>
     in_i64 (hs_cursor s) \<and> hs_generation s < 2 ^ 64 \<and>
     sorted_wrt (<) (map fst (hs_shipped s)) \<and> list_all (\<lambda>(i, d). in_i64 i) (hs_shipped s)"

lemma bt_insert_last:
  "\<forall>(i, d)\<in>set m. i < k \<Longrightarrow> bt_insert k v m = m @ [(k, v)]"
  by (induction m) auto

lemma parse_signed_dec_int:
  assumes "in_i64 i"
  shows "parse_signed 64 (dec_int i) = Some i"
proof (cases "i < 0")
  case True
  with assms show ?thesis
    by (simp add: parse_signed_def dec_int_def digits_value_dec_nat in_i64_def)
next
  case False
  obtain c cs where c: "dec_nat (nat i) = c # cs" by (cases "dec_nat (nat i)") auto
  then have "c \<noteq> CHR ''-''" "c \<noteq> CHR ''+''" using dec_nat_hd_not_sign [of "nat i"] by auto
  then have "(case dec_nat (nat i) of CHR ''-'' # r \<Rightarrow> (True, r) | CHR ''+'' # r \<Rightarrow> (False, r)
      | _ \<Rightarrow> (False, dec_nat (nat i))) = (False, dec_nat (nat i))"
    unfolding c by (auto split: list.split char.split bool.split)
  with False assms show ?thesis
    by (simp add: parse_signed_def dec_int_def digits_value_dec_nat in_i64_def)
qed

lemma int_key_dec_int: "in_i64 i \<Longrightarrow> int_key (dec_int i) = Some i"
  by (simp add: int_key_def parse_signed_dec_int)

lemma shipped_from_sorted:
  assumes "sorted_wrt (<) (map fst (acc @ m))" "list_all (\<lambda>(i, d). in_i64 i) m"
  shows "shipped_from (map (\<lambda>(k, v). (dec_int k, JString v)) m) acc = Some (acc @ m)"
  using assms
proof (induction m arbitrary: acc)
  case (Cons kv m)
  obtain k v where kv: "kv = (k, v)" by (cases kv)
  have "\<forall>(i, d)\<in>set acc. i < k"
    using Cons.prems(1) by (auto simp: kv sorted_wrt_append)
  then have "bt_insert k v acc = acc @ [(k, v)]" by (rule bt_insert_last)
  with Cons.IH [of "acc @ [(k, v)]"] Cons.prems show ?case by (simp add: kv int_key_dec_int)
qed simp

lemma decode_encode_history:
  assumes "history_fits s"
  shows "decode_history (Some (encode_history s)) = Some s"
proof -
  have "shipped_from (map (\<lambda>(k, v). (dec_int k, JString v)) (hs_shipped s)) [] = Some (hs_shipped s)"
    using shipped_from_sorted [of "[]" "hs_shipped s"] assms by (simp add: history_fits_def)
  with assms show ?thesis
    by (simp add: decode_history_def encode_history_def shipped_field_def default_field_def history_fits_def
        del: power_numeral)
qed

subsection \<open>A sample\<close>

definition visit_sample :: "int \<Rightarrow> int \<Rightarrow> raw_visit" where
  "visit_sample i duration =
     \<lparr>rv_id = i, rv_time = Some 13350000000000000, rv_transition = Some 1, rv_duration = Some duration, rv_url = 1\<rparr>"

definition sample_history :: "raw_visit list \<Rightarrow> history" where
  "sample_history visits =
     \<lparr>hi_visits = visits, hi_urls = (\<lambda>i. if i = 1 then Some (TextCell ''https://a.example/'', TextCell ''A'') else None),
      hi_max_fails = False, hi_page_fails = (\<lambda>i. False)\<rparr>"

definition polled_sample :: "raw_visit list \<Rightarrow> poll_env" where
  "polled_sample visits =
     \<lparr>pe_local_state = Inr ''{}'',
      pe_info_cache = (\<lambda>s. Inr [(''Default'', JObject [(''name'', JString ''Me'')])]),
      pe_private_dir = True, pe_copy = (\<lambda>program args. Completed True [] []), pe_lossy = (\<lambda>s. s),
      pe_is_file = (\<lambda>s. False), pe_open = Some (sample_history visits), pe_check = Some ''ok''\<rparr>"

definition sample_browser :: browser_config where
  "sample_browser =
     \<lparr>bc_user_data = ''/u'', bc_profile = ''Me'', bc_revisit_window = 10, bc_state_dir = ''/s''\<rparr>"

text \<open>A visit, the same again with another, and the first one with a longer stay, lost once.\<close>

definition sample_polls :: "(poll_env \<times> delivery) list" where
  "sample_polls =
     [(polled_sample [visit_sample 5 1000], Committed),
      (polled_sample [visit_sample 6 0, visit_sample 5 1000], Committed),
      (polled_sample [visit_sample 5 9000, visit_sample 6 0], NotCommitted)]"

declare collect_loop.simps [code]

definition sample_result :: "(poll_env \<times> delivery) list \<Rightarrow> bool \<times> int option \<times> key_source list" where
  "sample_result polls =
     (case history_loop (\<lambda>s. s) (\<lambda>v. []) sample_browser polls None of
        None \<Rightarrow> (False, None, [])
      | Some (going, st, ems) \<Rightarrow> (going, map_option hs_cursor st, map dr_key (committed_records ems)))"

lemma sample_result_polls:
  "sample_result sample_polls = (True, Some 6, [BrowserVisit ''Me'' 1 5, BrowserVisit ''Me'' 1 6])"
  by code_simp

lemma sample_keyed: "list_all (\<lambda>(pe, d). keyed_env pe) sample_polls"
  by (simp add: sample_polls_def polled_sample_def keyed_env_def keyed_def sample_history_def visit_sample_def)

lemma visits_told_once_witness:
  "\<exists>st ems vis. history_loop (\<lambda>s. s) (\<lambda>v. []) sample_browser sample_polls None = Some (True, st, ems) \<and>
     map dr_key (committed_records ems) = [BrowserVisit ''Me'' 1 5, BrowserVisit ''Me'' 1 6] \<and>
     committed_records ems = map (\<lambda>(g, r). visit_record ''Me'' g r) vis \<and>
     (\<forall>g i. successively (\<noteq>) (contents (\<lambda>s. s) vis g i))"
proof -
  have "length sample_polls < 2 ^ 64" by (simp add: sample_polls_def)
  from visits_told_once [OF sample_keyed this, of "\<lambda>s. s" "\<lambda>v. []" sample_browser]
  obtain going st ems vis where run:
    "history_loop (\<lambda>s. s) (\<lambda>v. []) sample_browser sample_polls None = Some (going, st, ems)"
    "committed_records ems = map (\<lambda>(g, r). visit_record ''Me'' g r) vis"
    "\<forall>g i. successively (\<noteq>) (contents (\<lambda>s. s) vis g i)"
    by (auto simp: sample_browser_def)
  have "going" "map dr_key (committed_records ems) = [BrowserVisit ''Me'' 1 5, BrowserVisit ''Me'' 1 6]"
    using sample_result_polls unfolding sample_result_def run(1) by simp_all
  with run show ?thesis by (intro exI [of _ st] exI [of _ ems] exI [of _ vis]) simp
qed

text \<open>A poll after them that is committed ships the longer stay.\<close>

definition sample_last :: poll_env where
  "sample_last = polled_sample [visit_sample 5 9000, visit_sample 6 0]"

definition sample_poll :: "(poll_env \<times> delivery) list \<Rightarrow> poll_outcome option option" where
  "sample_poll polls =
     (case history_loop (\<lambda>s. s) (\<lambda>v. []) sample_browser polls None of
        None \<Rightarrow> None
      | Some (going, st, ems) \<Rightarrow>
          poll_once (\<lambda>s. s) sample_last ''/u'' (path_join ''/s'' snapshot_dir) ''Me'' 10 st page_limit)"

lemma window_told_witness:
  "\<exists>(out :: poll_outcome) st ems vis. history_loop (\<lambda>s. s) (\<lambda>v. []) sample_browser (sample_polls @ [(sample_last, Committed)]) None =
       Some (True, st, ems) \<and>
     map (\<lambda>d. (dr_key d, json_get (dr_payload d) ''duration_ms'')) (po_records out) =
       [(BrowserVisit ''Me'' 1 5, Some (JInt 9))] \<and>
     committed_records ems = map (\<lambda>(g, r). visit_record ''Me'' g r) vis \<and>
     latest (contents (\<lambda>s. s) vis (hs_generation (po_state out)) 5) \<noteq> None"
proof -
  obtain going st ems where before:
    "history_loop (\<lambda>s. s) (\<lambda>v. []) sample_browser sample_polls None = Some (going, st, ems)"
    using sample_result_polls by (auto simp: sample_result_def split: option.splits)
  have going: "going" using sample_result_polls unfolding sample_result_def before by simp
  have shape: "map_option (map_option (\<lambda>out. map (\<lambda>d. (dr_key d, json_get (dr_payload d) ''duration_ms'')) (po_records out)))
      (sample_poll sample_polls) = Some (Some [(BrowserVisit ''Me'' 1 5, Some (JInt 9))])"
    by code_simp
  then obtain out where out: "sample_poll sample_polls = Some (Some out)"
    "map (\<lambda>d. (dr_key d, json_get (dr_payload d) ''duration_ms'')) (po_records out) =
       [(BrowserVisit ''Me'' 1 5, Some (JInt 9))]" by auto
  have poll: "poll_once (\<lambda>s. s) sample_last (bc_user_data sample_browser)
      (path_join (bc_state_dir sample_browser) snapshot_dir) (bc_profile sample_browser)
      (int (bc_revisit_window sample_browser)) st page_limit = Some (Some out)"
    using out(1) unfolding sample_poll_def before by (simp add: sample_browser_def)
  have keyed: "keyed_env sample_last"
    by (simp add: sample_last_def polled_sample_def keyed_env_def keyed_def sample_history_def visit_sample_def)
  have open_last: "open_snapshot sample_last = Some (sample_history [visit_sample 5 9000, visit_sample 6 0])"
    by (simp add: open_snapshot_def sample_last_def polled_sample_def)
  have len: "Suc (length sample_polls) < 2 ^ 64" by (simp add: sample_polls_def)
  note whole = window_told [OF sample_keyed keyed len before [unfolded going [THEN eqTrueI]] poll open_last]
  then obtain vis rows where w:
    "history_loop (\<lambda>s. s) (\<lambda>v. []) sample_browser (sample_polls @ [(sample_last, Committed)]) None =
       Some (True, Some (po_state out), ems @ [(history_emission (\<lambda>v. []) (bc_profile sample_browser) out, Committed)])"
    "committed_records (ems @ [(history_emission (\<lambda>v. []) (bc_profile sample_browser) out, Committed)]) =
       map (\<lambda>(g, r). visit_record (bc_profile sample_browser) g r) vis"
    "rows_after (sample_history [visit_sample 5 9000, visit_sample 6 0])
       (start_of (int (bc_revisit_window sample_browser)) (state_for st
          (the (highest_visit_id (sample_history [visit_sample 5 9000, visit_sample 6 0]))))) = Some rows"
    "\<forall>r\<in>set rows. vr_url r \<noteq> [] \<longrightarrow>
       latest (contents (\<lambda>s. s) vis (hs_generation (po_state out)) (vr_id r)) = Some (digest (\<lambda>s. s) r)"
    by blast
  obtain s where s: "st = Some s" "hs_cursor s = 6"
    using sample_result_polls unfolding sample_result_def before by auto
  have highest: "highest_visit_id (sample_history [visit_sample 5 9000, visit_sample 6 0]) = Some 6"
    by (simp add: highest_visit_id_def sample_history_def visit_sample_def)
  have "start_of (int (bc_revisit_window sample_browser)) (state_for st
      (the (highest_visit_id (sample_history [visit_sample 5 9000, visit_sample 6 0])))) = 0"
    unfolding highest by (simp add: s state_for_def start_of_def sample_browser_def)
  moreover have "map_option (map (\<lambda>r. (vr_id r, vr_url r)))
      (rows_after (sample_history [visit_sample 5 9000, visit_sample 6 0]) 0) =
      Some [(5, ''https://a.example/''), (6, ''https://a.example/'')]"
    by code_simp
  ultimately have "map (\<lambda>r. (vr_id r, vr_url r)) rows = [(5, ''https://a.example/''), (6, ''https://a.example/'')]"
    using w(3) by simp
  then obtain r rs where "rows = r # rs" "vr_id r = 5" "vr_url r \<noteq> []" by (auto simp: map_eq_Cons_conv)
  with w(4) have "latest (contents (\<lambda>s. s) vis (hs_generation (po_state out)) 5) \<noteq> None" by auto
  with w(1,2) out(2) show ?thesis
    by (intro exI [of _ out] exI [of _ "Some (po_state out)"]
        exI [of _ "ems @ [(history_emission (\<lambda>v. []) (bc_profile sample_browser) out, Committed)]"]
        exI [of _ vis]) (simp add: sample_browser_def)
qed

end
