(* ===== verification/Browser_Runtime.thy ===== *)
theory Browser_Runtime
  imports Claude_Samples Browser_Props
begin

text \<open>
  The browser history provider on the machine: its emissions go through the pipeline into the buffer,
  its state is read back from there, and it is started again at will. The locale \<open>browser_store\<close> is what
  it relies on, interpreted on the machine of \<open>Claude_Runtime\<close>.
\<close>

subsection \<open>A life of the provider\<close>

datatype browser_event =
    Started poll_env   \<comment> \<open>the supervisor runs it\<close>
  | Polled poll_env    \<comment> \<open>its timer ticks\<close>

text \<open>
  \<open>run\<close> with what it sends and reads in a world. The provider is down, \<open>None\<close>, or runs with a state. A
  start while it runs is the daemon killed and started again. The outer \<open>None\<close> is not returning.
\<close>

fun browser_life ::
  "(string \<Rightarrow> string) \<Rightarrow> (json \<Rightarrow> string) \<Rightarrow> (string \<Rightarrow> json option) \<Rightarrow> browser_config \<Rightarrow>
     (emission \<Rightarrow> 'w \<Rightarrow> delivery \<times> 'w) \<Rightarrow> (string \<Rightarrow> 'w \<Rightarrow> (string, string option) res \<times> 'w) \<Rightarrow>
     browser_event list \<Rightarrow> history_state option option \<Rightarrow> 'w \<Rightarrow> (history_state option option \<times> 'w) option" where
  "browser_life sha render parse bc send cursor [] alive w = Some (alive, w)"
| "browser_life sha render parse bc send cursor (Started pe # es) alive w =
     (case directory_for pe (bc_user_data bc) (bc_profile bc) of
        Inl reason \<Rightarrow> browser_life sha render parse bc send cursor es None w
      | Inr directory \<Rightarrow>
          (case cursor (bc_profile bc) w of
             (r, w) \<Rightarrow>
               (case stored_state parse r of
                  Inl e \<Rightarrow> browser_life sha render parse bc send cursor es None w
                | Inr st \<Rightarrow> browser_life sha render parse bc send cursor es (Some st) w)))"
| "browser_life sha render parse bc send cursor (Polled pe # es) alive w =
     (case alive of
        None \<Rightarrow> browser_life sha render parse bc send cursor es None w
      | Some st \<Rightarrow>
          (case poll_once sha pe (bc_user_data bc) (path_join (bc_state_dir bc) snapshot_dir) (bc_profile bc)
                  (int (bc_revisit_window bc)) st page_limit of
             None \<Rightarrow> None
           | Some None \<Rightarrow> browser_life sha render parse bc send cursor es (Some st) w
           | Some (Some out) \<Rightarrow>
               (case send (history_emission render (bc_profile bc) out) w of
                  (d, w) \<Rightarrow>
                    browser_life sha render parse bc send cursor es
                      (if d = Gone then None else if d = NotCommitted then Some st else Some (Some (po_state out))) w)))"

definition event_env :: "browser_event \<Rightarrow> poll_env" where
  "event_env e = (case e of Started pe \<Rightarrow> pe | Polled pe \<Rightarrow> pe)"

subsection \<open>States that fit\<close>

definition ids_fit :: "history \<Rightarrow> bool" where
  "ids_fit h \<longleftrightarrow> list_all (\<lambda>v. in_i64 (rv_id v)) (hi_visits h)"

definition snapshot_ok :: "poll_env \<Rightarrow> bool" where
  "snapshot_ok pe = pred_option (\<lambda>h. keyed h \<and> ids_fit h) (pe_open pe)"

lemma snapshot_ok_keyed: "snapshot_ok pe \<Longrightarrow> keyed_env pe"
  by (cases "pe_open pe") (simp_all add: snapshot_ok_def keyed_env_def)

lemma snapshot_ok_ids: "snapshot_ok pe \<Longrightarrow> open_snapshot pe = Some h \<Longrightarrow> ids_fit h"
  by (auto simp: snapshot_ok_def open_snapshot_def split: option.splits if_splits)

lemma fst_bt_insert: "fst ` set (bt_insert k v m) = insert k (fst ` set m)"
  by (induction k v m rule: bt_insert.induct) auto

lemma sorted_bt_insert:
  "sorted_wrt (<) (map fst m) \<Longrightarrow> sorted_wrt (<) (map fst (bt_insert k v m))"
proof (induction k v m rule: bt_insert.induct)
  case (2 k v k' v' m)
  then show ?case
    using fst_bt_insert [of k v m] by (auto simp: image_iff split: if_splits)
qed simp

definition shipped_ok :: "(int \<times> string) list \<Rightarrow> bool" where
  "shipped_ok m \<longleftrightarrow> sorted_wrt (<) (map fst m) \<and> list_all (\<lambda>(i, d). in_i64 i) m"

lemma shipped_ok_insert:
  assumes "shipped_ok m" "in_i64 i"
  shows "shipped_ok (bt_insert i d m)"
proof -
  have "in_i64 (fst x)" if "x \<in> set (bt_insert i d m)" for x
  proof -
    have "fst x \<in> insert i (fst ` set m)" using that fst_bt_insert [of i d m] by blast
    then show ?thesis using assms by (auto simp: shipped_ok_def list_all_iff)
  qed
  then show ?thesis using assms sorted_bt_insert by (auto simp: shipped_ok_def list_all_iff)
qed

lemma take_rows_fits:
  assumes "\<forall>r\<in>set rows. in_i64 (vr_id r)" "shipped_ok shipped" "in_i64 pos"
    and "take_rows sha profile g rows (pos, shipped, recs) = (pos', shipped', recs')"
  shows "in_i64 pos' \<and> shipped_ok shipped'"
  using assms
proof (induction rows arbitrary: pos shipped recs)
  case (Cons row rows)
  have ids: "\<forall>r\<in>set rows. in_i64 (vr_id r)" "in_i64 (vr_id row)" using Cons.prems(1) by simp_all
  note IH = Cons.IH [OF ids(1) _ ids(2)]
  from Cons.prems(2,4) IH [OF Cons.prems(2), of recs] IH [OF shipped_ok_insert [OF Cons.prems(2) ids(2)]]
  show ?case by (auto split: if_splits)
qed simp

lemma rows_after_ids:
  assumes "rows_after h from = Some rows" "ids_fit h" "r \<in> set rows"
  shows "in_i64 (vr_id r)"
proof -
  have "map vr_id rows = map (rv_id \<circ> fst) (after h from)"
    using assms(1) unfolding rows_after_def by (rule rows_ids)
  then have "vr_id r \<in> (rv_id \<circ> fst) ` set (after h from)"
    using assms(3) by (metis image_eqI list.set_map)
  then show ?thesis
    using assms(2)
    by (fastforce simp: after_def joined_def List.map_filter_def ids_fit_def list_all_iff split: option.splits)
qed

lemma highest_fits:
  assumes "highest_visit_id h = Some i" "ids_fit h"
  shows "in_i64 i"
proof (cases "hi_visits h = []")
  case True
  with assms show ?thesis by (auto simp: highest_visit_id_def in_i64_def split: if_splits)
next
  case False
  then have "Max (rv_id ` set (hi_visits h)) \<in> rv_id ` set (hi_visits h)" by (intro Max_in) auto
  then obtain v where "v \<in> set (hi_visits h)" "Max (rv_id ` set (hi_visits h)) = rv_id v" by blast
  with assms False show ?thesis by (auto simp: highest_visit_id_def ids_fit_def list_all_iff split: if_splits)
qed

lemma history_fits_shipped:
  "history_fits s \<longleftrightarrow> in_i64 (hs_cursor s) \<and> hs_generation s < 2 ^ 64 \<and> shipped_ok (hs_shipped s)"
  by (simp add: history_fits_def shipped_ok_def)

lemma state_for_fits:
  assumes "in_i64 highest" "pred_option history_fits st"
  shows "history_fits (state_for st highest)"
  using assms
  by (auto simp: state_for_def fresh_state_def regenerated_def history_fits_shipped shipped_ok_def in_i64_def
      succ64_bound [simplified] max_def split: option.split)

lemma collect_fits:
  assumes poll: "collect sha h profile win st page = Some (Some out)" "keyed h" "ids_fit h" "0 \<le> win"
    and "pred_option history_fits st"
  shows "history_fits (po_state out)"
proof -
  obtain highest rows where h: "highest_visit_id h = Some highest"
    and rows: "rows_after h (start_of win (state_for st highest)) = Some rows"
    and out: "out = collected win (state_for st highest)
       (take_rows sha profile (hs_generation (state_for st highest)) rows
         (start_of win (state_for st highest), hs_shipped (state_for st highest), []))"
    using collect_Some [OF poll(1,2)] .
  let ?s = "state_for st highest"
  have s: "history_fits ?s" by (rule state_for_fits [OF highest_fits [OF h poll(3)] assms(5)])
  obtain pos shipped recs where t:
    "take_rows sha profile (hs_generation ?s) rows (start_of win ?s, hs_shipped ?s, []) = (pos, shipped, recs)"
    by (cases "take_rows sha profile (hs_generation ?s) rows (start_of win ?s, hs_shipped ?s, [])")
  have "in_i64 (start_of win ?s)" using s poll(4) by (auto simp: start_of_def history_fits_shipped in_i64_def)
  with take_rows_fits [OF _ _ _ t] rows_after_ids [OF rows poll(3)] s
  have "in_i64 pos" "shipped_ok shipped" by (auto simp: history_fits_shipped)
  moreover have "shipped_ok (filter P m)" if "shipped_ok m" for P and m :: "(int \<times> string) list"
    using that by (auto simp: shipped_ok_def list_all_iff sorted_wrt_map sorted_wrt_filter)
  ultimately show ?thesis
    using s by (simp add: out t collected_def Let_def history_fits_shipped in_i64_def max_def)
qed

subsection \<open>What the provider relies on\<close>

locale browser_store =
  fixes send :: "emission \<Rightarrow> 'w \<Rightarrow> delivery \<times> 'w"
    and cursor :: "string \<Rightarrow> 'w \<Rightarrow> (string, string option) res \<times> 'w"
    and inv :: "'w \<Rightarrow> bool"
    and stored :: "'w \<Rightarrow> string \<Rightarrow> string option"
    and taken :: "'w \<Rightarrow> emission list"
  assumes send_law: "inv w \<Longrightarrow> em_committed em \<Longrightarrow> em_cursor em = Some c \<Longrightarrow> cur_provider c = BrowserHistory \<Longrightarrow>
      send em w = (d, w') \<Longrightarrow>
      inv w' \<and> taken w' = (if d = Committed then taken w @ [em] else taken w) \<and>
      stored w' = (if d = Committed then (stored w)(cur_key c \<mapsto> cur_value c) else stored w)"
    and cursor_law: "inv w \<Longrightarrow> cursor k w = (r, w') \<Longrightarrow>
      inv w' \<and> taken w' = taken w \<and> stored w' = stored w \<and>
      (case r of Inl _ \<Rightarrow> True | Inr v \<Rightarrow> v = stored w k)"

text \<open>\<open>serde_json\<close> reads what it wrote.\<close>

definition history_reads_back :: "(json \<Rightarrow> string) \<Rightarrow> (string \<Rightarrow> json option) \<Rightarrow> bool" where
  "history_reads_back render parse \<longleftrightarrow>
     (\<forall>s. history_fits s \<longrightarrow> parse (render (encode_history s)) = Some (encode_history s))"

definition stored_history :: "(string \<Rightarrow> json option) \<Rightarrow> string option \<Rightarrow> history_state option" where
  "stored_history parse v = Option.bind v (\<lambda>v. decode_history (parse v))"

lemma stored_state_Inr: "stored_state parse (Inr v) = Inr (stored_history parse v)"
  by (simp add: stored_state_def stored_history_def split: option.split)

lemma stored_history_rendered:
  "history_reads_back render parse \<Longrightarrow> history_fits s \<Longrightarrow>
     stored_history parse (Some (render (encode_history s))) = Some s"
  by (simp add: stored_history_def history_reads_back_def decode_encode_history)

text \<open>The records of the emissions the buffer took.\<close>

definition records_of :: "emission list \<Rightarrow> record_draft list" where
  "records_of ems = concat (map em_records ems)"

text \<open>
  What is known between two events, with \<open>n\<close> to come: what was told is what the buffer took, and the
  stored state, which is that of the provider when it runs, knows it.
\<close>

definition in_step ::
  "(string \<Rightarrow> string) \<Rightarrow> browser_config \<Rightarrow> nat \<Rightarrow> (nat \<times> visit_row) list \<Rightarrow> history_state option \<Rightarrow>
     history_state option option \<Rightarrow> bool" where
  "in_step sha bc n vis st alive \<longleftrightarrow>
     told_once sha vis \<and> aware sha (int (bc_revisit_window bc)) vis n st \<and> pred_option history_fits st \<and>
     (alive = None \<or> alive = Some st)"

lemma in_step_less: "in_step sha bc (Suc n) vis st alive \<Longrightarrow> in_step sha bc n vis st alive"
  using aware_mono [of sha _ vis "Suc n" st n] by (auto simp: in_step_def)

lemma in_step_down: "in_step sha bc n vis st alive \<Longrightarrow> in_step sha bc n vis st None"
  by (simp add: in_step_def)

text \<open>A poll whose emission is committed.\<close>

lemma in_step_poll:
  assumes step: "in_step sha bc (Suc n) vis st (Some st)" "Suc n < 2 ^ 64" "snapshot_ok pe"
    and poll: "poll_once sha pe user_data snapshot (bc_profile bc) (int (bc_revisit_window bc)) st page =
      Some (Some out)"
  shows "\<exists>new. po_records out = map (\<lambda>(g, r). visit_record (bc_profile bc) g r) new \<and>
    in_step sha bc n (vis @ new) (Some (po_state out)) (Some (Some (po_state out)))"
proof -
  obtain h where h: "open_snapshot pe = Some h"
    "collect sha h (bc_profile bc) (int (bc_revisit_window bc)) st page = Some (Some out)"
    by (rule poll_once_Some [OF poll])
  have keyed: "keyed h" by (rule open_snapshot_keyed [OF snapshot_ok_keyed [OF step(3)] h(1)])
  have start: "case st of None \<Rightarrow> vis = [] | Some s \<Rightarrow> knows sha (int (bc_revisit_window bc)) vis s \<and> hs_generation s + 1 < 2 ^ 64"
    using step(1) by (auto simp: in_step_def aware_def split: option.splits)
  have once: "told_once sha vis" using step(1) by (simp add: in_step_def)
  obtain g new where new: "g = hs_generation (po_state out)" "po_records out = map (visit_record (bc_profile bc) g) new"
      "told_once sha (vis @ told g new)" "knows sha (int (bc_revisit_window bc)) (vis @ told g new) (po_state out)"
    using collect_keeps [OF h(2) keyed _ start once] by (metis of_nat_0_le_iff)
  have "history_fits (po_state out)"
    using collect_fits [OF h(2) keyed snapshot_ok_ids [OF step(3) h(1)]] step(1) by (simp add: in_step_def)
  moreover have "hs_generation (po_state out) + n < 2 ^ 64"
    using collect_generation [OF h(2) keyed, of vis n] step(1,2) by (simp add: in_step_def)
  ultimately have "in_step sha bc n (vis @ told g new) (Some (po_state out)) (Some (Some (po_state out)))"
    using new by (simp add: in_step_def aware_def)
  with new(2) show ?thesis by (intro exI [of _ "told g new"]) (simp add: told_def)
qed

context browser_store
begin

lemma life_tells_once:
  assumes json: "history_reads_back render parse"
    and "list_all (\<lambda>e. snapshot_ok (event_env e)) es" "length es + n < 2 ^ 64" "inv w"
    and "records_of (taken w) = map (\<lambda>(g, r). visit_record (bc_profile bc) g r) vis"
    and "in_step sha bc (length es + n) vis (stored_history parse (stored w (bc_profile bc))) alive"
  shows "\<exists>alive' w' vis'. browser_life sha render parse bc send cursor es alive w = Some (alive', w') \<and>
    inv w' \<and> records_of (taken w') = map (\<lambda>(g, r). visit_record (bc_profile bc) g r) vis' \<and>
    in_step sha bc n vis' (stored_history parse (stored w' (bc_profile bc))) alive'"
  using assms(2-)
proof (induction es arbitrary: w vis alive)
  case Nil
  then show ?case by auto
next
  case (Cons e es)
  let ?st = "stored_history parse (stored w (bc_profile bc))"
  have len: "length es + n < 2 ^ 64" and rest: "list_all (\<lambda>e. snapshot_ok (event_env e)) es"
    using Cons.prems(1,2) by simp_all
  have step: "in_step sha bc (Suc (length es + n)) vis ?st alive" using Cons.prems(5) by simp
  note on = Cons.IH [OF rest len Cons.prems(3,4)]
  note down = on [OF in_step_down [OF in_step_less [OF step]]]
  show ?case
  proof (cases e)
    case (Started pe)
    show ?thesis
    proof (cases "directory_for pe (bc_user_data bc) (bc_profile bc)")
      case (Inl reason)
      with Started down show ?thesis by simp
    next
      case (Inr directory)
      obtain r w1 where read: "cursor (bc_profile bc) w = (r, w1)" by fastforce
      note law = cursor_law [OF Cons.prems(3) read]
      have w1: "inv w1" "records_of (taken w1) = map (\<lambda>(g, r). visit_record (bc_profile bc) g r) vis"
        "stored w1 = stored w" using law Cons.prems(4) by simp_all
      note go_on = Cons.IH [OF rest len w1(1,2), unfolded w1(3)]
      show ?thesis
      proof (cases r)
        case (Inl e')
        with go_on [OF in_step_down [OF in_step_less [OF step]]] Started Inr read show ?thesis
          by (simp add: stored_state_def)
      next
        case v: (Inr v)
        then have "stored_state parse r = Inr ?st" using law by (simp add: stored_state_Inr)
        moreover have "in_step sha bc (length es + n) vis ?st (Some ?st)"
          using in_step_less [OF step] by (simp add: in_step_def)
        ultimately show ?thesis using go_on Started Inr read by simp
      qed
    qed
  next
    case (Polled pe)
    show ?thesis
    proof (cases alive)
      case None
      with Polled down show ?thesis by simp
    next
      case (Some st)
      then have st: "st = ?st" using step by (simp add: in_step_def)
      have pe: "snapshot_ok pe" using Cons.prems(1) Polled by (simp add: event_env_def)
      let ?once = "poll_once sha pe (bc_user_data bc) (path_join (bc_state_dir bc) snapshot_dir) (bc_profile bc)
        (int (bc_revisit_window bc)) st page_limit"
      obtain res where res: "?once = Some res"
        using poll_once_returns [OF snapshot_ok_keyed [OF pe] zero_less_page_limit] by blast
      show ?thesis
      proof (cases res)
        case None
        with Polled Some res on [OF in_step_less [OF step]] show ?thesis by simp
      next
        case out: (Some out)
        let ?em = "history_emission render (bc_profile bc) out"
        obtain d w1 where sent: "send ?em w = (d, w1)" by fastforce
        have em: "em_committed ?em" "em_records ?em = po_records out"
          "em_cursor ?em = Some \<lparr>cur_provider = BrowserHistory, cur_key = bc_profile bc,
             cur_value = render (encode_history (po_state out))\<rparr>"
          by (simp_all add: history_emission_def awaiting_commit_def)
        note law = send_law [OF Cons.prems(3) em(1) em(3) _ sent, simplified]
        show ?thesis
        proof (cases "d = Committed")
          case True
          obtain new where new: "po_records out = map (\<lambda>(g, r). visit_record (bc_profile bc) g r) new"
            "in_step sha bc (length es + n) (vis @ new) (Some (po_state out)) (Some (Some (po_state out)))"
            using in_step_poll [OF _ _ pe] step res out Some st Cons.prems(2) by fastforce
          have "history_fits (po_state out)" using new(2) by (simp add: in_step_def)
          then have "stored_history parse (stored w1 (bc_profile bc)) = Some (po_state out)"
            using law True stored_history_rendered [OF json] by simp
          moreover have "records_of (taken w1) = map (\<lambda>(g, r). visit_record (bc_profile bc) g r) (vis @ new)"
            using law True em(2) new(1) Cons.prems(4) by (simp add: records_of_def)
          ultimately show ?thesis
            using Cons.IH [OF rest len, of w1 "vis @ new" "Some (Some (po_state out))"] law new(2) Polled Some res out sent True
            by simp
        next
          case False
          with law have w1: "inv w1" "taken w1 = taken w" "stored w1 = stored w" by simp_all
          have "in_step sha bc (length es + n) vis ?st (if d = Gone then None else Some st)"
            using in_step_less [OF step] Some by (simp add: in_step_def)
          with False show ?thesis
            using Cons.IH [OF rest len w1(1), of vis] Cons.prems(4) w1 Polled Some res out sent
            by (cases d) simp_all
        qed
      qed
    qed
  qed
qed

end

subsection \<open>On the machine\<close>

text \<open>The provider reads its cursor from the buffer.\<close>

definition daemon_browser_cursor :: "host \<Rightarrow> string \<Rightarrow> machine \<Rightarrow> (string, string option) res \<times> machine" where
  "daemon_browser_cursor h k w =
     (case read_cursor BrowserHistory k (meanwhile h w) of
        (r, s) \<Rightarrow> (map_sum (ho_show h) id r, w\<lparr>mc_db := s, mc_time := mc_time w + 1\<rparr>))"

definition stored_browser :: "machine \<Rightarrow> string \<Rightarrow> string option" where
  "stored_browser w k = t_cursors (db_tables (mc_db w)) (provider_as_str BrowserHistory, k)"

lemma with_cursor_browser:
  "cur_provider c = BrowserHistory \<Longrightarrow>
     (\<lambda>k. with_cursor (Some c) m (provider_as_str BrowserHistory, k)) =
       (\<lambda>k. m (provider_as_str BrowserHistory, k))(cur_key c \<mapsto> cur_value c)"
  by (auto simp: with_cursor_def fun_eq_iff simp del: provider_as_str.simps)

interpretation browser: browser_store "daemon_send h" "daemon_browser_cursor h" "machine_ok h" stored_browser mc_taken
  for h
proof (unfold_locales, goal_cases)
  case (1 w em c d w')
  with daemon_send_law [of h w em d w'] with_cursor_browser [of c "t_cursors (db_tables (mc_db w))"] show ?case
    by (auto simp: stored_browser_def [abs_def])
next
  case (2 w k r w')
  obtain res s where rc: "read_cursor BrowserHistory k (meanwhile h w) = (res, s)" by fastforce
  then have "db_tables s = db_tables (meanwhile h w)" and
    "case res of Inl _ \<Rightarrow> True | Inr v \<Rightarrow> v = t_cursors (db_tables (meanwhile h w)) (provider_as_str BrowserHistory, k)"
    by (auto simp: read_cursor_def query_def exec_def split: list.splits bool.splits)
  with 2 rc meanwhile_keeps [OF 2(1)] show ?case
    by (auto simp: daemon_browser_cursor_def machine_ok_def stored_browser_def fun_eq_iff
        split: sum.splits simp del: provider_as_str.simps)
qed

text \<open>
  C40. The browser history is told once, across restarts and failures. From an empty buffer, however the
  provider is started and polled, with Chrome adding, changing and dropping visits, the snapshot failing,
  SQLite failing at any statement, the queue closed and the shipper at work: every poll returns, the
  records the buffer committed are the visits of some list, and no two consecutive tellings of a visit in
  it have the same contents, so a visit is sent again only because it changed.
\<close>

theorem visits_told_once_across_restarts:
  assumes "machine_ok h w" "mc_taken w = []" "stored_browser w (bc_profile bc) = None"
    and "history_reads_back render parse"
    and "list_all (\<lambda>e. snapshot_ok (event_env e)) events" "length events < 2 ^ 64"
  shows "\<exists>alive w' vis. browser_life sha render parse bc (daemon_send h) (daemon_browser_cursor h) events None w =
      Some (alive, w') \<and>
    records_of (mc_taken w') = map (\<lambda>(g, r). visit_record (bc_profile bc) g r) vis \<and>
    (\<forall>g i. successively (\<noteq>) (contents sha vis g i))"
proof -
  have "in_step sha bc (length events + 0) [] (stored_history parse (stored_browser w (bc_profile bc))) None"
    by (simp add: in_step_def assms(3) stored_history_def aware_def told_once_def contents_def)
  moreover have "records_of (mc_taken w) = map (\<lambda>(g, r). visit_record (bc_profile bc) g r) []"
    by (simp add: assms(2) records_of_def)
  moreover have "length events + 0 < 2 ^ 64" using assms(6) by simp
  ultimately obtain alive w' vis where
    "browser_life sha render parse bc (daemon_send h) (daemon_browser_cursor h) events None w = Some (alive, w')"
    "records_of (mc_taken w') = map (\<lambda>(g, r). visit_record (bc_profile bc) g r) vis"
    and "in_step sha bc 0 vis (stored_history parse (stored_browser w' (bc_profile bc))) alive"
    using browser.life_tells_once [OF assms(4,5) _ assms(1)] by meson
  then show ?thesis by (auto simp: in_step_def told_once_def)
qed

subsection \<open>A sample\<close>

text \<open>States printed flat, the digests with their lengths.\<close>

definition print_shipped :: "int \<times> string \<Rightarrow> string" where
  "print_shipped p = dec_int (fst p) @ '','' @ dec_nat (length (snd p)) @ '','' @ snd p"

definition flat_state :: "history_state \<Rightarrow> string" where
  "flat_state s =
     dec_int (hs_cursor s) @ '','' @ dec_nat (hs_generation s) @ '','' @ dec_nat (length (hs_shipped s)) @ '','' @
     concat (map print_shipped (hs_shipped s))"

primrec scan_shipped :: "nat \<Rightarrow> string \<Rightarrow> (int \<times> string) list" where
  "scan_shipped 0 s = []"
| "scan_shipped (Suc n) s =
     (let (i, s) = cut s; (len, s) = cut s; len = scan_nat len in (scan_int i, take len s) # scan_shipped n (drop len s))"

definition unflat_state :: "string \<Rightarrow> history_state" where
  "unflat_state s =
     (let (cur, s) = cut s; (gen, s) = cut s; (num, s) = cut s
      in \<lparr>hs_cursor = scan_int cur, hs_generation = scan_nat gen, hs_shipped = scan_shipped (scan_nat num) s\<rparr>)"

definition print_history :: "json \<Rightarrow> string" where
  "print_history v = (case decode_history (Some v) of Some s \<Rightarrow> flat_state s | None \<Rightarrow> [])"

definition scan_history :: "string \<Rightarrow> json option" where
  "scan_history s = Some (encode_history (unflat_state s))"

lemma no_comma: "CHR '','' \<notin> set (dec_nat n)" "CHR '','' \<notin> set (dec_int i)"
  by (simp_all add: dec_nat_no_char dec_int_def)

lemma scan_print_shipped: "scan_shipped (length m) (concat (map print_shipped m) @ rest) = m"
  by (induction m) (auto simp: print_shipped_def cut_append no_comma)

lemma history_prints_back: "history_reads_back print_history scan_history"
proof -
  have "unflat_state (flat_state s) = s" for s
    using scan_print_shipped [of "hs_shipped s" "[]"] by (simp add: unflat_state_def flat_state_def cut_append no_comma)
  then show ?thesis
    by (simp add: history_reads_back_def print_history_def scan_history_def decode_encode_history)
qed

text \<open>A first start, a visit, a kill, the visit again with another, both lost once, and then a longer stay.\<close>

definition sample_life :: "browser_event list" where
  "sample_life =
     (let one = polled_sample [visit_sample 5 1000]; two = polled_sample [visit_sample 6 0, visit_sample 5 1000];
          longer = polled_sample [visit_sample 5 9000, visit_sample 6 0]
      in [Started one, Polled one, Started two, Polled two, Polled two, Polled longer])"

definition sample_lived :: "(history_state option option \<times> machine) option" where
  "sample_lived =
     browser_life (\<lambda>s. s) print_history scan_history sample_browser (daemon_send sample_host)
       (daemon_browser_cursor sample_host) sample_life None (sample_machine (replicate 10 False @ [True]))"

lemma sample_lived_keys:
  "map_option (\<lambda>(alive, w). (map dr_key (records_of (mc_taken w)), length (mc_taken w))) sample_lived =
     Some ([BrowserVisit ''Me'' 1 5, BrowserVisit ''Me'' 1 6, BrowserVisit ''Me'' 1 5], 3)"
  by code_simp

theorem visits_told_once_across_restarts_witness:
  "\<exists>alive w vis. sample_lived = Some (alive, w) \<and>
     map dr_key (records_of (mc_taken w)) =
       [BrowserVisit ''Me'' 1 5, BrowserVisit ''Me'' 1 6, BrowserVisit ''Me'' 1 5] \<and>
     records_of (mc_taken w) = map (\<lambda>(g, r). visit_record ''Me'' g r) vis \<and>
     (\<forall>g i. successively (\<noteq>) (contents (\<lambda>s. s) vis g i))"
proof -
  let ?w = "sample_machine (replicate 10 False @ [True])"
  have "mc_taken ?w = []" "stored_browser ?w (bc_profile sample_browser) = None"
    by (simp_all add: sample_machine_def stored_browser_def empty_tables_def)
  moreover have "list_all (\<lambda>e. snapshot_ok (event_env e)) sample_life" "length sample_life < 2 ^ 64"
    by (simp_all add: sample_life_def Let_def event_env_def snapshot_ok_def polled_sample_def keyed_def ids_fit_def
        sample_history_def visit_sample_def in_i64_def)
  ultimately obtain alive w vis where life: "sample_lived = Some (alive, w)"
    "records_of (mc_taken w) = map (\<lambda>(g, r). visit_record (bc_profile sample_browser) g r) vis"
    "\<forall>g i. successively (\<noteq>) (contents (\<lambda>s. s) vis g i)"
    using visits_told_once_across_restarts [OF sample_machine_ok _ _ history_prints_back,
        of "replicate 10 False @ [True]" sample_browser sample_life "\<lambda>s. s"]
    unfolding sample_lived_def by blast
  from sample_lived_keys [unfolded life(1)] have "map dr_key (records_of (mc_taken w)) =
      [BrowserVisit ''Me'' 1 5, BrowserVisit ''Me'' 1 6, BrowserVisit ''Me'' 1 5]" by simp
  moreover have "bc_profile sample_browser = ''Me''" by (simp add: sample_browser_def)
  ultimately show ?thesis using life by (intro exI [of _ alive] exI [of _ w] exI [of _ vis] conjI) (simp_all only: simp_thms)
qed

end
