(* ===== verification/Extractor_Props.thy ===== *)
theory Extractor_Props
  imports Extractors
begin

text \<open>
  What the extractors promise: a terminal's details tell only of the surface that is on the screen and
  of the one pane that is on it, and a browser tab is read back from what the script prints.
\<close>

subsection \<open>Panes\<close>

definition on_surface :: "(string \<Rightarrow> string) \<Rightarrow> string \<Rightarrow> string \<Rightarrow> pane \<Rightarrow> bool" where
  "on_surface upper i surf p \<longleftrightarrow> pn_session p = upper i \<and> pn_pane p = surf"

lemma sole_pane_filter:
  "sole_pane i surf ps found =
     (case (found, filter (\<lambda>p. pn_session p = i \<and> pn_pane p = surf) ps) of
        (_, []) \<Rightarrow> found
      | (None, [p]) \<Rightarrow> Some p
      | _ \<Rightarrow> None)"
  by (induction ps arbitrary: found) (auto split: option.splits list.splits)

lemma pane_on_sole:
  "pane_on upper panes i surf = (case filter (on_surface upper i surf) panes of [p] \<Rightarrow> Some p | _ \<Rightarrow> None)"
  by (simp add: pane_on_def sole_pane_filter on_surface_def [abs_def] split: list.splits)

lemma pane_on_Some:
  "pane_on upper panes i surf = Some p \<longleftrightarrow> filter (on_surface upper i surf) panes = [p]"
  by (auto simp: pane_on_sole split: list.splits)

text \<open>
  The command of a terminal is cut at 512 characters, and the mark behind the cut is one more.
\<close>

lemma span_append:
  assumes "t = [] \<or> \<not> p (hd t)"
  shows "takeWhile p (s @ t) = takeWhile p s" "dropWhile p (s @ t) = dropWhile p s @ t"
  using assms by (induction s) (cases t; simp)+

lemma chars_append:
  assumes "t = [] \<or> \<not> continues (hd t)"
  shows "chars (s @ t) = chars s @ chars t"
  using assms by (induction s rule: chars.induct) (simp_all add: span_append)

lemma concat_chars [simp]: "concat (chars s) = s"
  by (induction s rule: chars.induct) simp_all

lemma concat_take_chars_hd:
  "concat (take n (chars s)) = [] \<or> hd (concat (take n (chars s))) = hd s \<and> s \<noteq> []"
  by (cases n; cases s) simp_all

lemma chars_concat_take: "chars (concat (take n (chars s))) = take n (chars s)"
proof (induction s arbitrary: n rule: chars.induct)
  case (2 c s)
  show ?case
  proof (cases n)
    case (Suc m)
    let ?rest = "concat (take m (chars (dropWhile continues s)))"
    have "?rest = [] \<or> \<not> continues (hd ?rest)"
      using concat_take_chars_hd [of m "dropWhile continues s"] hd_dropWhile [of continues s]
      by (metis dropWhile_eq_Nil_conv)
    note rest = span_append [where p = continues and t = ?rest, OF this, of "takeWhile continues s"]
    have "takeWhile continues (takeWhile continues s) = takeWhile continues s"
      "dropWhile continues (takeWhile continues s) = []"
      by (auto simp: takeWhile_eq_all_conv dropWhile_eq_Nil_conv dest: set_takeWhileD)
    with rest show ?thesis using 2 Suc by simp
  qed simp
qed simp

lemma command_line_bounded:
  assumes "command_line argv = Some c"
  shows "length (chars c) \<le> Suc command_limit"
  using assms
  by (auto simp: command_line_def Let_def chars_append chars_concat_take ellipsis_def continues_def byte_def
      split: if_splits)

lemma command_line_short:
  assumes "join '' '' argv \<noteq> []" "length (chars (join '' '' argv)) \<le> command_limit"
  shows "command_line argv = Some (join '' '' argv)"
  using assms by (simp add: command_line_def)

subsection \<open>What is on screen\<close>

text \<open>
  What a terminal shows: the quick terminal lies over everything, then the dashboard while it has members,
  then the surface that is zoomed (the quick one, or one of the session it is addressed in), and without
  any of them the first surface of the session that is active and visible.
\<close>

definition on_screen :: "term_screen \<Rightarrow> session \<Rightarrow> string \<Rightarrow> bool" where
  "on_screen sc s kind \<longleftrightarrow>
     (if quick_visible sc then kind = ''quick''
      else if \<exists>m ms. dashboard_members sc = Some (m # ms) then kind = ''dashboard''
      else case zoomed_surface_of sc of
             Some zoomed \<Rightarrow>
               zoomed = ''quick'' \<and> kind = ''quick'' \<or>
               (\<exists>i. zoomed = ''surface:'' @ i @ '':'' @ kind \<and> kind \<noteq> [] \<and> CHR '':'' \<notin> set kind \<and>
                  map ascii_lower i = map ascii_lower (se_id s))
           | None \<Rightarrow>
               (\<exists>before su rest. se_surfaces s = before @ su # rest \<and> su_kind su = kind \<and> su_active su \<and> su_visible su \<and>
                  (\<forall>x \<in> set before. \<not> (su_active x \<and> su_visible x))))"

lemma split_once_eq: "split_once c s = Some (a, b) \<longleftrightarrow> s = a @ c # b \<and> c \<notin> set a"
proof
  assume "split_once c s = Some (a, b)"
  then obtain d where rest: "dropWhile (\<lambda>d. d \<noteq> c) s = d # b" and a: "takeWhile (\<lambda>d. d \<noteq> c) s = a"
    unfolding split_once_def by (cases "dropWhile (\<lambda>d. d \<noteq> c) s") (simp only: list.case option.distinct, simp)
  have "d = c" using hd_dropWhile [of "\<lambda>d. d \<noteq> c" s] rest by simp
  moreover have "s = a @ d # b" using takeWhile_dropWhile_id [of "\<lambda>d. d \<noteq> c" s] unfolding rest a by simp
  moreover have "c \<notin> set a" unfolding a [symmetric] by (auto dest: set_takeWhileD)
  ultimately show "s = a @ c # b \<and> c \<notin> set a" by simp
next
  assume s: "s = a @ c # b \<and> c \<notin> set a"
  then have "dropWhile (\<lambda>d. d \<noteq> c) s = c # b" "takeWhile (\<lambda>d. d \<noteq> c) s = a"
    by (auto simp: dropWhile_append takeWhile_append)
  then show "split_once c s = Some (a, b)" by (simp only: split_once_def list.case)
qed

lemma rsplit_once_eq: "rsplit_once c z = Some (i, kind) \<longleftrightarrow> z = i @ [c] @ kind \<and> c \<notin> set kind"
proof -
  have "rsplit_once c z = Some (i, kind) \<longleftrightarrow> split_once c (rev z) = Some (rev kind, rev i)"
    by (auto simp: rsplit_once_def split: option.splits)
  also have "\<dots> \<longleftrightarrow> rev z = rev (i @ [c] @ kind) \<and> c \<notin> set kind" by (simp add: split_once_eq)
  also have "\<dots> \<longleftrightarrow> z = i @ [c] @ kind \<and> c \<notin> set kind" by (simp only: rev_is_rev_conv)
  finally show ?thesis .
qed

lemma zoomed_surface_eq:
  "zoomed_surface z i = Some kind \<longleftrightarrow>
     z = ''quick'' \<and> kind = ''quick'' \<or>
     (\<exists>j. z = ''surface:'' @ j @ '':'' @ kind \<and> kind \<noteq> [] \<and> CHR '':'' \<notin> set kind \<and> map ascii_lower j = map ascii_lower i)"
  by (auto simp: zoomed_surface_def quick_surface_def surface_address_def bind_eq_Some_conv strip_prefix_Some_iff
      rsplit_once_eq eq_ignore_ascii_case_def split: if_splits)

lemma active_surface_eq:
  "active_surface ss = Some kind \<longleftrightarrow>
     (\<exists>before su rest. ss = before @ su # rest \<and> su_kind su = kind \<and> su_active su \<and> su_visible su \<and>
        (\<forall>x \<in> set before. \<not> (su_active x \<and> su_visible x)))"
proof (induction ss)
  case (Cons a ss)
  show ?case
  proof (cases "su_active a \<and> su_visible a")
    case True
    have "(\<exists>before su rest. a # ss = before @ su # rest \<and> su_kind su = kind \<and> su_active su \<and> su_visible su \<and>
        (\<forall>x \<in> set before. \<not> (su_active x \<and> su_visible x))) \<longleftrightarrow> su_kind a = kind" (is "?first \<longleftrightarrow> _")
    proof
      assume ?first
      then obtain before su rest where f: "a # ss = before @ su # rest" "su_kind su = kind"
        "\<forall>x \<in> set before. \<not> (su_active x \<and> su_visible x)" by blast
      with True show "su_kind a = kind" by (cases before) auto
    next
      assume "su_kind a = kind"
      with True show ?first by (intro exI [of _ "[]"] exI [of _ a] exI [of _ ss]) simp
    qed
    with True show ?thesis by (simp add: active_surface_def)
  next
    case False
    have "(\<exists>before su rest. a # ss = before @ su # rest \<and> su_kind su = kind \<and> su_active su \<and> su_visible su \<and>
        (\<forall>x \<in> set before. \<not> (su_active x \<and> su_visible x))) \<longleftrightarrow>
      (\<exists>before su rest. ss = before @ su # rest \<and> su_kind su = kind \<and> su_active su \<and> su_visible su \<and>
        (\<forall>x \<in> set before. \<not> (su_active x \<and> su_visible x)))" (is "?longer \<longleftrightarrow> ?shorter")
    proof
      assume ?longer
      then obtain before su rest where f: "a # ss = before @ su # rest" "su_kind su = kind" "su_active su" "su_visible su"
        "\<forall>x \<in> set before. \<not> (su_active x \<and> su_visible x)" by blast
      with False show ?shorter by (cases before) auto
    next
      assume ?shorter
      then obtain before su rest where f: "ss = before @ su # rest" "su_kind su = kind" "su_active su" "su_visible su"
        "\<forall>x \<in> set before. \<not> (su_active x \<and> su_visible x)" by blast
      with False show ?longer by (intro exI [of _ "a # before"] exI [of _ su] exI [of _ rest]) simp
    qed
    moreover have "active_surface (a # ss) = active_surface ss" using False by (auto simp: active_surface_def)
    ultimately show ?thesis using Cons by simp
  qed
qed (simp add: active_surface_def)

lemma surface_on_screen_eq: "surface_on_screen sc (se_id s) (se_surfaces s) = Some kind \<longleftrightarrow> on_screen sc s kind"
proof -
  have "dashboard_open (dashboard_members sc) \<longleftrightarrow> (\<exists>m ms. dashboard_members sc = Some (m # ms))"
    by (auto simp: dashboard_open_def neq_Nil_conv split: option.splits)
  then show ?thesis
    by (auto simp: surface_on_screen_def on_screen_def quick_surface_def dashboard_surface_def zoomed_surface_eq
        active_surface_eq split: option.splits)
qed

lemma compose_surface:
  "obj_get (compose upper ws s panes sc) ''surface'' =
     map_option JString (surface_on_screen sc (se_id s) (se_surfaces s))"
proof -
  show ?thesis
    by (cases "surface_on_screen sc (se_id s) (se_surfaces s)"; cases "se_foreground s")
      (simp_all add: compose_def Let_def split: option.split list.split)
qed

text \<open>
  C30. The details of a terminal tell nothing of what is not on the screen. With the same surfaces on the
  screen and the same workspace and name of the session, they do not depend on panes of other surfaces or
  sessions, and on the session's own directory and foreground command only while the left pane is on the
  screen; and the surface they name is the one on the screen.
\<close>

theorem details_of_screen_only:
  assumes surf: "\<And>kind. on_screen sc s kind \<longleftrightarrow> on_screen sc' s' kind"
    and panes: "\<And>kind. on_screen sc s kind \<Longrightarrow>
      filter (on_surface upper (se_id s) kind) panes = filter (on_surface upper (se_id s') kind) panes'"
    and left: "on_screen sc s ''left'' \<Longrightarrow> se_cwd s = se_cwd s' \<and> se_foreground s = se_foreground s'"
    and name: "se_name s = se_name s'"
  shows "compose upper ws s panes sc = compose upper ws s' panes' sc' \<and>
     (\<forall>kind. obj_get (compose upper ws s panes sc) ''surface'' = Some (JString kind) \<longleftrightarrow> on_screen sc s kind)"
proof -
  define shown where "shown = surface_on_screen sc (se_id s) (se_surfaces s)"
  have same: "surface_on_screen sc (se_id s) (se_surfaces s) = shown"
    "surface_on_screen sc' (se_id s') (se_surfaces s') = shown"
    using surf surface_on_screen_eq [of sc s] surface_on_screen_eq [of sc' s'] unfolding shown_def
    by (metis not_Some_eq)+
  have told: "shown = Some kind \<Longrightarrow> on_screen sc s kind" for kind
    using surface_on_screen_eq same(1) by metis
  have pane: "Option.bind shown (pane_on upper panes (se_id s)) = Option.bind shown (pane_on upper panes' (se_id s'))"
    using panes told by (cases shown) (simp_all add: pane_on_sole)
  have own: "shown = Some left_surface \<Longrightarrow> se_cwd s = se_cwd s' \<and> se_foreground s = se_foreground s'"
    using left told by (simp add: left_surface_def)
  then have cwd: "(if shown = Some left_surface then se_cwd s else None) = (if shown = Some left_surface then se_cwd s' else None)"
    by simp
  have "compose upper ws s panes sc = compose upper ws s' panes' sc'"
  proof (cases "shown = Some left_surface")
    case True
    with own have "se_foreground s = se_foreground s'" by simp
    then show ?thesis unfolding compose_def Let_def same pane name cwd by simp
  next
    case False
    then show ?thesis unfolding compose_def Let_def same pane name cwd by simp
  qed
  moreover have "obj_get (compose upper ws s panes sc) ''surface'' = Some (JString kind) \<longleftrightarrow> on_screen sc s kind" for kind
    using surface_on_screen_eq [of sc s kind] by (auto simp: compose_surface)
  ultimately show ?thesis by blast
qed

text \<open>
  The scratch surface on the screen, as the active one and as the zoomed one, and what the left pane and the
  session hold beside it.
\<close>

definition sample_behind :: session where
  "sample_behind =
     \<lparr>se_id = ''A'', se_name = ''n'', se_active = True, se_cwd = Some ''/hidden'', se_foreground = Some [''/bin/vi''],
       se_surfaces = [\<lparr>su_kind = ''left'', su_active = False, su_visible = False\<rparr>,
                      \<lparr>su_kind = ''scratch'', su_active = True, su_visible = True\<rparr>]\<rparr>"

definition sample_alone :: session where
  "sample_alone =
     \<lparr>se_id = ''A'', se_name = ''n'', se_active = True, se_cwd = None, se_foreground = None, se_surfaces = []\<rparr>"

definition sample_plain :: term_screen where
  "sample_plain = \<lparr>quick_visible = False, zoomed_surface_of = None, dashboard_members = None\<rparr>"

definition sample_zoomed :: term_screen where
  "sample_zoomed = \<lparr>quick_visible = False, zoomed_surface_of = Some ''surface:a:scratch'', dashboard_members = Some []\<rparr>"

lemma sample_shown:
  "on_screen sample_plain sample_behind kind \<longleftrightarrow> kind = ''scratch''"
  "on_screen sample_zoomed sample_alone kind \<longleftrightarrow> kind = ''scratch''"
proof -
  have "surface_on_screen sample_plain (se_id sample_behind) (se_surfaces sample_behind) = Some ''scratch''"
    "surface_on_screen sample_zoomed (se_id sample_alone) (se_surfaces sample_alone) = Some ''scratch''"
    by code_simp+
  then show "on_screen sample_plain sample_behind kind \<longleftrightarrow> kind = ''scratch''"
    "on_screen sample_zoomed sample_alone kind \<longleftrightarrow> kind = ''scratch''"
    unfolding surface_on_screen_eq [symmetric] by auto
qed

theorem details_of_screen_only_witness:
  "compose id ''w'' sample_behind
     [\<lparr>pn_session = ''A'', pn_pane = ''scratch'', pn_pane_id = [], pn_argv = [''rx''], pn_cwd = Some ''/p''\<rparr>,
      \<lparr>pn_session = ''A'', pn_pane = ''left'', pn_pane_id = [], pn_argv = [''vi'', ''secret''], pn_cwd = Some ''/q''\<rparr>]
     sample_plain =
   compose id ''w'' sample_alone
     [\<lparr>pn_session = ''A'', pn_pane = ''scratch'', pn_pane_id = [], pn_argv = [''rx''], pn_cwd = Some ''/p''\<rparr>]
     sample_zoomed"
  by (rule details_of_screen_only [THEN conjunct1])
    (simp_all add: sample_shown, simp_all add: sample_behind_def sample_alone_def on_surface_def)

subsection \<open>The tab\<close>

text \<open>
  What the script prints, \<open>{u, ti, pr, pn} as text\<close> and a newline, is read back, when no member holds
  the separator: an empty title or profile is left out.
\<close>

definition printed_tab :: "string \<Rightarrow> string \<Rightarrow> string \<Rightarrow> bool \<Rightarrow> string" where
  "printed_tab u ti pr pn =
     join [field_separator] [u, ti, pr, if pn then ''true'' else ''false''] @ [CHR 0x0A]"

lemma tab_roundtrip:
  assumes "u \<noteq> []" "field_separator \<notin> set u" "field_separator \<notin> set ti" "field_separator \<notin> set pr"
  shows "parse_tab (printed_tab u ti pr pn) =
           [(''url'', JString u)] @ (if ti = [] then [] else [(''tab'', JString ti)]) @
           (if pr = [] then [] else [(''profile'', JString pr)]) @ [(''pinned'', JBool pn)]"
proof -
  let ?flag = "if pn then ''true'' else ''false''"
  let ?fields = "[u, ti, pr, ?flag]"
  have "split_char field_separator (join [field_separator] ?fields) = ?fields"
    by (rule split_char_join) (use assms in \<open>auto simp: field_separator_def\<close>)
  moreover have "trim_end_matches (\<lambda>c. c = CHR 0x0A \<or> c = CHR 0x0D) (printed_tab u ti pr pn) = join [field_separator] ?fields"
    by (simp add: trim_end_matches_def printed_tab_def)
  ultimately show ?thesis
    using assms(1) by (simp add: parse_tab_def Let_def)
qed

end
