(* ===== verification/Service.thy ===== *)
theory Service
  imports Claude_Files
begin

text \<open>
  \<open>nikki install\<close> and \<open>nikki uninstall\<close>, \<open>src/src/service.rs\<close>. What the operations act on is a world of
  any type; the operations themselves (launchctl, files, the clock) are the fields of a \<open>service_env\<close>.
  Times are milliseconds.
\<close>

definition unload_timeout :: nat where "unload_timeout = 5000"
definition unload_poll :: nat where "unload_poll = 100"
definition service_label :: string where "service_label = ''dev.pkarpovich.nikki''"
definition brew_label :: string where "brew_label = ''homebrew.mxcl.nikki''"

datatype service_error =
    NoHome
  | ExecutableUnknown string
  | DirectoryFailed string string
  | WriteRefused string string
  | RemoveFailed string string
  | LaunchctlFailed string
  | BootstrapRefused string

datatype housing = Bundle | Loose

record layout =
  la_agent :: string
  la_log :: string
  la_errors :: string
  la_brew_agent :: string

record installed =
  in_program :: string
  in_agent :: string
  in_housing :: housing

definition layout_of :: "string \<Rightarrow> layout" where
  "layout_of home =
     (let agents = path_join (path_join home ''Library'') ''LaunchAgents'';
          logs = path_join (path_join home ''Library'') ''Logs''
      in \<lparr>la_agent = path_join agents (service_label @ ''.plist''),
          la_log = path_join logs ''nikki.log'', la_errors = path_join logs ''nikki.err.log'',
          la_brew_agent = path_join agents (brew_label @ ''.plist'')\<rparr>)"

text \<open>\<open>Inr ok\<close> of \<open>launchctl\<close> is its success, \<open>Inl\<close> an error of starting it.\<close>

datatype removal = Removed | NotFound | NotRemoved string

record 'w service_env =
  sv_home :: "string option"
  sv_current_exe :: "(string, string) res"
  sv_canonicalize :: "string \<Rightarrow> (string, string) res"
  sv_uid :: nat
  sv_utf8 :: "string \<Rightarrow> bool"   \<comment> \<open>\<open>to_str\<close>: whether a path is UTF-8\<close>
  sv_launchctl :: "string list \<Rightarrow> 'w \<Rightarrow> (string, bool) res \<times> 'w"
  sv_remove :: "string \<Rightarrow> 'w \<Rightarrow> removal \<times> 'w"
  sv_create_dir :: "string \<Rightarrow> 'w \<Rightarrow> (string, unit) res \<times> 'w"
  sv_write :: "string \<Rightarrow> string \<Rightarrow> 'w \<Rightarrow> (string, unit) res \<times> 'w"
  sv_now :: "'w \<Rightarrow> nat"
  sv_sleep :: "nat \<Rightarrow> 'w \<Rightarrow> 'w"

definition executable_path :: "'w service_env \<Rightarrow> (service_error, string) res" where
  "executable_path sv =
     (case sv_current_exe sv of
        Inl e \<Rightarrow> Inl (ExecutableUnknown e)
      | Inr program \<Rightarrow> (case sv_canonicalize sv program of Inl e \<Rightarrow> Inl (ExecutableUnknown e) | Inr p \<Rightarrow> Inr p))"

definition home_dir :: "'w service_env \<Rightarrow> (service_error, string) res" where
  "home_dir sv = (case sv_home sv of None \<Rightarrow> Inl NoHome | Some home \<Rightarrow> Inr home)"

definition gui_domain :: "'w service_env \<Rightarrow> string" where
  "gui_domain sv = ''gui/'' @ dec_nat (sv_uid sv)"

definition gui_target :: "'w service_env \<Rightarrow> string \<Rightarrow> string" where
  "gui_target sv label = gui_domain sv @ ''/'' @ label"

text \<open>The loop of \<open>wait_unloaded\<close>: \<open>None\<close> is not returning.\<close>

partial_function (option) wait_until :: "'w service_env \<Rightarrow> string \<Rightarrow> nat \<Rightarrow> 'w \<Rightarrow> 'w option" where
  "wait_until sv target deadline w =
     (if sv_now sv w < deadline then
        (case sv_launchctl sv [''print'', target] w of
           (Inl e, w) \<Rightarrow> Some w
         | (Inr ok, w) \<Rightarrow>
             if \<not> ok then Some w else wait_until sv target deadline (sv_sleep sv unload_poll w))
      else Some w)"

declare wait_until.simps [code]

definition wait_unloaded :: "'w service_env \<Rightarrow> string \<Rightarrow> 'w \<Rightarrow> 'w option" where
  "wait_unloaded sv label w = wait_until sv (gui_target sv label) (sv_now sv w + unload_timeout) w"

definition ends_with :: "string \<Rightarrow> string \<Rightarrow> bool" where
  "ends_with s t \<longleftrightarrow> strip_suffix t s \<noteq> None"

definition housing_of :: "'w service_env \<Rightarrow> string \<Rightarrow> housing" where
  "housing_of sv prog =
     (if list_ex (\<lambda>c. case file_name c of None \<Rightarrow> False | Some name \<Rightarrow> sv_utf8 sv name \<and> ends_with name ''.app'')
           (ancestors prog)
      then Bundle else Loose)"

definition parent_of :: "string \<Rightarrow> string" where
  "parent_of path = (case ancestors path of _ # parent # _ \<Rightarrow> parent | _ \<Rightarrow> path)"

definition create_dir :: "'w service_env \<Rightarrow> string \<Rightarrow> 'w \<Rightarrow> (service_error, unit) res \<times> 'w" where
  "create_dir sv path w =
     (case sv_create_dir sv path w of (Inl e, w) \<Rightarrow> (Inl (DirectoryFailed path e), w) | (Inr u, w) \<Rightarrow> (Inr (), w))"

definition write_file :: "'w service_env \<Rightarrow> string \<Rightarrow> string \<Rightarrow> 'w \<Rightarrow> (service_error, unit) res \<times> 'w" where
  "write_file sv path contents w =
     (case sv_write sv path contents w of
        (Inl e, w) \<Rightarrow> (Inl (WriteRefused path e), w) | (Inr u, w) \<Rightarrow> (Inr (), w))"

definition remove_file :: "'w service_env \<Rightarrow> string \<Rightarrow> 'w \<Rightarrow> (service_error, unit) res \<times> 'w" where
  "remove_file sv path w =
     (case sv_remove sv path w of
        (Removed, w) \<Rightarrow> (Inr (), w)
      | (NotFound, w) \<Rightarrow> (Inr (), w)
      | (NotRemoved e, w) \<Rightarrow> (Inl (RemoveFailed path e), w))"

text \<open>Whether the label was loaded does not matter.\<close>

definition unload :: "'w service_env \<Rightarrow> string \<Rightarrow> 'w \<Rightarrow> (service_error, unit) res \<times> 'w" where
  "unload sv label w =
     (case sv_launchctl sv [''bootout'', gui_target sv label] w of
        (Inl e, w) \<Rightarrow> (Inl (LaunchctlFailed e), w)
      | (Inr ok, w) \<Rightarrow> (Inr (), w))"

definition bootstrap :: "'w service_env \<Rightarrow> string \<Rightarrow> 'w \<Rightarrow> (service_error, unit) res \<times> 'w" where
  "bootstrap sv agent w =
     (if \<not> sv_utf8 sv agent then (Inl (BootstrapRefused agent), w)
      else case sv_launchctl sv [''bootstrap'', gui_domain sv, agent] w of
             (Inl e, w) \<Rightarrow> (Inl (LaunchctlFailed e), w)
           | (Inr ok, w) \<Rightarrow> (if ok then Inr () else Inl (BootstrapRefused agent), w))"

subsection \<open>The agent\<close>

definition line_end :: string where "line_end = [CHR 0x0A]"
definition tab :: string where "tab = [CHR 0x09]"
definition quote :: string where "quote = [CHR 0x22]"

definition escape_char :: "char \<Rightarrow> string" where
  "escape_char c =
     (if c = CHR ''&'' then ''&amp;'' else if c = CHR ''<'' then ''&lt;'' else if c = CHR ''>'' then ''&gt;'' else [c])"

definition escape :: "string \<Rightarrow> string" where
  "escape value = concat (map escape_char value)"

definition agent_plist :: "string \<Rightarrow> string \<Rightarrow> string \<Rightarrow> string" where
  "agent_plist prog log_path err_path =
     concat (map (\<lambda>l. l @ line_end)
       [''<?xml version='' @ quote @ ''1.0'' @ quote @ '' encoding='' @ quote @ ''UTF-8'' @ quote @ ''?>'',
        ''<!DOCTYPE plist PUBLIC '' @ quote @ ''-//Apple//DTD PLIST 1.0//EN'' @ quote @ '' '' @ quote @
          ''http://www.apple.com/DTDs/PropertyList-1.0.dtd'' @ quote @ ''>'',
        ''<plist version='' @ quote @ ''1.0'' @ quote @ ''>'',
        ''<dict>'',
        tab @ ''<key>Label</key>'',
        tab @ ''<string>'' @ service_label @ ''</string>'',
        tab @ ''<key>ProgramArguments</key>'',
        tab @ ''<array>'',
        tab @ tab @ ''<string>'' @ escape prog @ ''</string>'',
        tab @ ''</array>'',
        tab @ ''<key>RunAtLoad</key>'',
        tab @ ''<true/>'',
        tab @ ''<key>KeepAlive</key>'',
        tab @ ''<dict>'',
        tab @ tab @ ''<key>PathState</key>'',
        tab @ tab @ ''<dict>'',
        tab @ tab @ tab @ ''<key>'' @ escape prog @ ''</key>'',
        tab @ tab @ tab @ ''<true/>'',
        tab @ tab @ ''</dict>'',
        tab @ ''</dict>'',
        tab @ ''<key>StandardOutPath</key>'',
        tab @ ''<string>'' @ escape log_path @ ''</string>'',
        tab @ ''<key>StandardErrorPath</key>'',
        tab @ ''<string>'' @ escape err_path @ ''</string>'',
        ''</dict>'',
        ''</plist>''])"

subsection \<open>Installing\<close>

text \<open>A step that can fail, the next one only when it did not: \<open>?\<close>.\<close>

definition andthen :: "('e, 'a) res \<times> 'w \<Rightarrow> ('a \<Rightarrow> 'w \<Rightarrow> (('e, 'b) res \<times> 'w) option) \<Rightarrow> (('e, 'b) res \<times> 'w) option" where
  "andthen r f = (case r of (Inl e, w) \<Rightarrow> Some (Inl e, w) | (Inr a, w) \<Rightarrow> f a w)"

definition load_agent :: "'w service_env \<Rightarrow> layout \<Rightarrow> string \<Rightarrow> 'w \<Rightarrow> ((service_error, installed) res \<times> 'w) option" where
  "load_agent sv lay prog w =
     andthen (create_dir sv (parent_of (la_agent lay)) w) (\<lambda>_ w.
     andthen (create_dir sv (parent_of (la_log lay)) w) (\<lambda>_ w.
     andthen (write_file sv (la_agent lay) (agent_plist prog (la_log lay) (la_errors lay)) w) (\<lambda>_ w.
     andthen (bootstrap sv (la_agent lay) w) (\<lambda>_ w.
       Some (Inr \<lparr>in_program = prog, in_agent = la_agent lay, in_housing = housing_of sv prog\<rparr>, w)))))"

definition install :: "'w service_env \<Rightarrow> 'w \<Rightarrow> ((service_error, installed) res \<times> 'w) option" where
  "install sv w =
     (case home_dir sv of
        Inl e \<Rightarrow> Some (Inl e, w)
      | Inr home \<Rightarrow>
          let lay = layout_of home
          in case executable_path sv of
               Inl e \<Rightarrow> Some (Inl e, w)
             | Inr prog \<Rightarrow>
                 andthen (unload sv brew_label w) (\<lambda>_ w.
                 andthen (remove_file sv (la_brew_agent lay) w) (\<lambda>_ w.
                 andthen (unload sv service_label w) (\<lambda>_ w.
                 Option.bind (wait_unloaded sv service_label w) (\<lambda>w.
                 load_agent sv lay prog w)))))"

definition uninstall :: "'w service_env \<Rightarrow> 'w \<Rightarrow> (service_error, layout) res \<times> 'w" where
  "uninstall sv w =
     (case home_dir sv of
        Inl e \<Rightarrow> (Inl e, w)
      | Inr home \<Rightarrow>
          let lay = layout_of home
          in case unload sv service_label w of
               (Inl e, w) \<Rightarrow> (Inl e, w)
             | (Inr u, w) \<Rightarrow>
                 (case remove_file sv (la_agent lay) w of (Inl e, w) \<Rightarrow> (Inl e, w) | (Inr u, w) \<Rightarrow> (Inr lay, w)))"

end
