(* ===== verification/Service_Props.thy ===== *)
theory Service_Props
  imports Service
begin

text \<open>
  What installing promises: the property list names the program whatever characters its path has, and
  an installation does its steps in order, each once, up to the first that fails, whose answer is the
  error it returns. The actions are logged with their answers and with the clock around them, so that a
  step that failed unnoticed, or a wait that was not held, shows in the log.
\<close>

subsection \<open>Escaping\<close>

text \<open>An XML text without markup, read back: the three entities the code writes.\<close>

fun unescape :: "string \<Rightarrow> string" where
  "unescape [] = []"
| "unescape (c # s) =
     (if c \<noteq> CHR ''&'' then c # unescape s
      else case strip_prefix ''amp;'' s of
             Some rest \<Rightarrow> CHR ''&'' # unescape (drop 4 s)
           | None \<Rightarrow>
               (case strip_prefix ''lt;'' s of
                  Some rest \<Rightarrow> CHR ''<'' # unescape (drop 3 s)
                | None \<Rightarrow>
                    (case strip_prefix ''gt;'' s of
                       Some rest \<Rightarrow> CHR ''>'' # unescape (drop 3 s)
                     | None \<Rightarrow> c # unescape s)))"

lemma escape_Cons [simp]: "escape (c # s) = escape_char c @ escape s"
  by (simp add: escape_def)

lemma escape_Nil [simp]: "escape [] = []"
  by (simp add: escape_def)

lemma unescape_escape: "unescape (escape s) = s"
  by (induction s) (auto simp: escape_char_def)

lemma escape_no_markup: "CHR ''<'' \<notin> set (escape s) \<and> CHR ''>'' \<notin> set (escape s)"
  by (induction s) (auto simp: escape_char_def)

subsection \<open>What is done, and what comes of it\<close>

datatype service_action =
    Launchctl "string list"
  | RemoveFile string
  | CreateDir string
  | WriteFile string string

datatype service_answer =
    Status "(string, bool) res"
  | Removal removal
  | Written "(string, unit) res"

text \<open>An action with the clock before it, what it came to, and the clock after it.\<close>

record service_step =
  st_before :: nat
  st_action :: service_action
  st_answer :: service_answer
  st_after :: nat

definition step_of :: "'w service_env \<Rightarrow> service_action \<Rightarrow> service_answer \<Rightarrow> 'w \<Rightarrow> 'w \<Rightarrow> service_step" where
  "step_of sv act ans w w' = \<lparr>st_before = sv_now sv w, st_action = act, st_answer = ans, st_after = sv_now sv w'\<rparr>"

text \<open>A world with the steps taken so far beside it.\<close>

definition action_logged :: "'w service_env \<Rightarrow> ('w \<times> service_step list) service_env" where
  "action_logged sv =
     \<lparr>sv_home = sv_home sv, sv_current_exe = sv_current_exe sv, sv_canonicalize = sv_canonicalize sv,
      sv_uid = sv_uid sv, sv_utf8 = sv_utf8 sv,
      sv_launchctl = (\<lambda>args (w, l). case sv_launchctl sv args w of
        (r, w') \<Rightarrow> (r, w', l @ [step_of sv (Launchctl args) (Status r) w w'])),
      sv_remove = (\<lambda>p (w, l). case sv_remove sv p w of
        (r, w') \<Rightarrow> (r, w', l @ [step_of sv (RemoveFile p) (Removal r) w w'])),
      sv_create_dir = (\<lambda>p (w, l). case sv_create_dir sv p w of
        (r, w') \<Rightarrow> (r, w', l @ [step_of sv (CreateDir p) (Written r) w w'])),
      sv_write = (\<lambda>p c (w, l). case sv_write sv p c w of
        (r, w') \<Rightarrow> (r, w', l @ [step_of sv (WriteFile p c) (Written r) w w'])),
      sv_now = (\<lambda>(w, l). sv_now sv w),
      sv_sleep = (\<lambda>d (w, l). (sv_sleep sv d w, l))\<rparr>"

lemma logged_sel [simp]:
  "sv_home (action_logged sv) = sv_home sv" "sv_current_exe (action_logged sv) = sv_current_exe sv"
  "sv_canonicalize (action_logged sv) = sv_canonicalize sv" "sv_uid (action_logged sv) = sv_uid sv"
  "sv_utf8 (action_logged sv) = sv_utf8 sv"
  "sv_launchctl (action_logged sv) args (w, l) =
     (case sv_launchctl sv args w of (r, w') \<Rightarrow> (r, w', l @ [step_of sv (Launchctl args) (Status r) w w']))"
  "sv_remove (action_logged sv) p (w, l) =
     (case sv_remove sv p w of (r, w') \<Rightarrow> (r, w', l @ [step_of sv (RemoveFile p) (Removal r) w w']))"
  "sv_create_dir (action_logged sv) p (w, l) =
     (case sv_create_dir sv p w of (r, w') \<Rightarrow> (r, w', l @ [step_of sv (CreateDir p) (Written r) w w']))"
  "sv_write (action_logged sv) p c (w, l) =
     (case sv_write sv p c w of (r, w') \<Rightarrow> (r, w', l @ [step_of sv (WriteFile p c) (Written r) w w']))"
  "sv_now (action_logged sv) (w, l) = sv_now sv w"
  "sv_sleep (action_logged sv) d (w, l) = (sv_sleep sv d w, l)"
  by (simp_all add: action_logged_def)

lemma logged_paths [simp]:
  "home_dir (action_logged sv) = home_dir sv" "executable_path (action_logged sv) = executable_path sv"
  "gui_domain (action_logged sv) = gui_domain sv" "gui_target (action_logged sv) label = gui_target sv label"
  by (simp_all add: home_dir_def executable_path_def gui_target_def gui_domain_def split: sum.split)

lemma logged_housing [simp]: "housing_of (action_logged sv) prog = housing_of sv prog"
  by (simp add: housing_of_def cong: option.case_cong)

lemma step_of_sel [simp]:
  "st_before (step_of sv act ans w w') = sv_now sv w" "st_action (step_of sv act ans w w') = act"
  "st_answer (step_of sv act ans w w') = ans" "st_after (step_of sv act ans w w') = sv_now sv w'"
  by (simp_all add: step_of_def)

text \<open>A clock that goes on, by the time slept at least.\<close>

definition clock_goes_on :: "'w service_env \<Rightarrow> bool" where
  "clock_goes_on sv \<longleftrightarrow>
     (\<forall>d w. sv_now sv w + d \<le> sv_now sv (sv_sleep sv d w)) \<and>
     (\<forall>args w. sv_now sv w \<le> sv_now sv (snd (sv_launchctl sv args w)))"

subsection \<open>What an installation should do\<close>

text \<open>
  The steps that must not fail, in two parts: what is unloaded and removed, and what is written and
  loaded. launchctl's refusal to unload is no failure, its refusal to load is.
\<close>

definition unloading :: "'w service_env \<Rightarrow> string \<Rightarrow> service_action list" where
  "unloading sv home =
     [Launchctl [''bootout'', gui_target sv ''homebrew.mxcl.nikki''],
      RemoveFile (la_brew_agent (layout_of home)),
      Launchctl [''bootout'', gui_target sv ''dev.pkarpovich.nikki'']]"

definition loading :: "'w service_env \<Rightarrow> string \<Rightarrow> string \<Rightarrow> service_action list" where
  "loading sv home prog =
     (let lay = layout_of home
      in [CreateDir (parent_of (la_agent lay)),
          CreateDir (parent_of (la_log lay)),
          WriteFile (la_agent lay) (agent_plist prog (la_log lay) (la_errors lay)),
          Launchctl [''bootstrap'', gui_domain sv, la_agent lay]])"

definition failure :: "service_step \<Rightarrow> service_error option" where
  "failure st =
     (case (st_action st, st_answer st) of
        (Launchctl args, Status (Inl e)) \<Rightarrow> Some (LaunchctlFailed e)
      | (Launchctl args, Status (Inr ok)) \<Rightarrow>
          if hd args = ''bootstrap'' \<and> \<not> ok then Some (BootstrapRefused (last args)) else None
      | (RemoveFile p, Removal (NotRemoved e)) \<Rightarrow> Some (RemoveFailed p e)
      | (CreateDir p, Written (Inl e)) \<Rightarrow> Some (DirectoryFailed p e)
      | (WriteFile p c, Written (Inl e)) \<Rightarrow> Some (WriteRefused p e)
      | _ \<Rightarrow> None)"

text \<open>
  The steps are the planned ones in their order, all of them without a failure, or those up to the first
  failure, which is the error.
\<close>

definition carried_out :: "service_action list \<Rightarrow> service_step list \<Rightarrow> service_error option \<Rightarrow> bool" where
  "carried_out plan steps err \<longleftrightarrow>
     map st_action steps = take (length steps) plan \<and>
     (case err of
        None \<Rightarrow> length steps = length plan \<and> list_all (\<lambda>st. failure st = None) steps
      | Some e \<Rightarrow> steps \<noteq> [] \<and> failure (last steps) = Some e \<and> list_all (\<lambda>st. failure st = None) (butlast steps))"

text \<open>
  launchctl was asked, at most fifty times, whether the agent is still loaded; it was, up to the last
  answer, and that says something else unless five seconds have passed between two instants.
\<close>

definition waited :: "'w service_env \<Rightarrow> service_step list \<Rightarrow> nat \<Rightarrow> nat \<Rightarrow> bool" where
  "waited sv asked from until \<longleftrightarrow>
     asked \<noteq> [] \<and> length asked \<le> 50 \<and>
     list_all (\<lambda>st. st_action st = Launchctl [''print'', gui_target sv ''dev.pkarpovich.nikki'']) asked \<and>
     list_all (\<lambda>st. st_answer st = Status (Inr True)) (butlast asked) \<and>
     (st_answer (last asked) = Status (Inr True) \<longrightarrow> from + 5000 \<le> until)"

subsection \<open>Waiting\<close>

lemma wait_until_asks:
  assumes "clock_goes_on sv"
  shows "\<exists>w' asked. wait_until (action_logged sv) target deadline (w, l) = Some (w', l @ asked) \<and>
     length asked * unload_poll \<le> deadline - sv_now sv w + (unload_poll - 1) \<and>
     (sv_now sv w < deadline \<longrightarrow> asked \<noteq> []) \<and>
     list_all (\<lambda>st. st_action st = Launchctl [''print'', target]) asked \<and>
     list_all (\<lambda>st. st_answer st = Status (Inr True)) (butlast asked) \<and>
     (asked = [] \<or> st_answer (last asked) = Status (Inr True) \<longrightarrow> deadline \<le> sv_now sv w')"
proof (induction "deadline - sv_now sv w" arbitrary: w l rule: less_induct)
  case less
  obtain r w1 where r: "sv_launchctl sv [''print'', target] w = (r, w1)" by fastforce
  let ?st = "step_of sv (Launchctl [''print'', target]) (Status r) w w1"
  show ?case
  proof (cases "sv_now sv w < deadline")
    case early: True
    show ?thesis
    proof (cases "r = Inr True")
      case True
      let ?w = "sv_sleep sv unload_poll w1"
      have later: "sv_now sv w + unload_poll \<le> sv_now sv ?w"
        using assms r unfolding clock_goes_on_def by (metis add_le_mono1 le_trans snd_conv)
      then have "deadline - sv_now sv ?w < deadline - sv_now sv w" using early by (simp add: unload_poll_def)
      from less [OF this, of "l @ [?st]"] obtain w' asked where n:
        "wait_until (action_logged sv) target deadline (?w, l @ [?st]) = Some (w', (l @ [?st]) @ asked)"
        "length asked * unload_poll \<le> deadline - sv_now sv ?w + (unload_poll - 1)"
        "list_all (\<lambda>st. st_action st = Launchctl [''print'', target]) asked"
        "list_all (\<lambda>st. st_answer st = Status (Inr True)) (butlast asked)"
        "asked = [] \<or> st_answer (last asked) = Status (Inr True) \<longrightarrow> deadline \<le> sv_now sv w'" by blast
      have "wait_until (action_logged sv) target deadline (w, l) = Some (w', l @ ?st # asked)"
        using early r True n(1) by (subst wait_until.simps) simp
      moreover have "length (?st # asked) * unload_poll \<le> deadline - sv_now sv w + (unload_poll - 1)"
        using n(2) later early by (cases "sv_now sv ?w \<le> deadline"; cases asked) (simp_all add: unload_poll_def)
      ultimately show ?thesis
        using n(3-5) True by (intro exI [of _ w'] exI [of _ "?st # asked"]) auto
    next
      case False
      then have "wait_until (action_logged sv) target deadline (w, l) = Some (w1, l @ [?st])"
        using early r by (subst wait_until.simps) (auto split: sum.splits)
      moreover have "1 * unload_poll \<le> deadline - sv_now sv w + (unload_poll - 1)"
        using early by (simp add: unload_poll_def)
      ultimately show ?thesis using False by (intro exI [of _ w1] exI [of _ "[?st]"]) simp
    qed
  next
    case False
    then have "wait_until (action_logged sv) target deadline (w, l) = Some (w, l @ [])"
      by (subst wait_until.simps) simp
    with False show ?thesis by (intro exI [of _ w] exI [of _ "[]"]) simp
  qed
qed

lemma wait_unloaded_asks:
  assumes "clock_goes_on sv"
  obtains w' asked where
    "wait_unloaded (action_logged sv) service_label (w, l) = Some (w', l @ asked)"
    "waited sv asked (sv_now sv w) (sv_now sv w')"
proof -
  obtain w' asked where n:
    "wait_until (action_logged sv) (gui_target sv service_label) (sv_now sv w + unload_timeout) (w, l) = Some (w', l @ asked)"
    "length asked * unload_poll \<le> unload_timeout + (unload_poll - 1)" "asked \<noteq> []"
    "list_all (\<lambda>st. st_action st = Launchctl [''print'', gui_target sv service_label]) asked"
    "list_all (\<lambda>st. st_answer st = Status (Inr True)) (butlast asked)"
    "st_answer (last asked) = Status (Inr True) \<longrightarrow> sv_now sv w + unload_timeout \<le> sv_now sv w'"
    using wait_until_asks [OF assms, of "gui_target sv service_label" "sv_now sv w + unload_timeout" w l]
    by (auto simp: unload_timeout_def)
  from n(2) have "length asked \<le> 50" by (simp add: unload_poll_def unload_timeout_def)
  with n have "waited sv asked (sv_now sv w) (sv_now sv w')"
    by (simp add: waited_def service_label_def unload_timeout_def)
  with n(1) that show ?thesis by (simp add: wait_unloaded_def)
qed

subsection \<open>The steps\<close>

lemma andthen_simps [simp]:
  "andthen (Inl e, w) f = Some (Inl e, w)"
  "andthen (Inr a, w) f = f a w"
  by (simp_all add: andthen_def)

text \<open>An operation takes one step and fails exactly when the step does.\<close>

definition one_step ::
  "(service_error, unit) res \<times> 'w \<times> service_step list \<Rightarrow> 'w service_env \<Rightarrow> 'w \<Rightarrow> service_step list \<Rightarrow> service_action \<Rightarrow> bool" where
  "one_step out sv w l act \<longleftrightarrow>
     (\<exists>r w' st. out = (r, w', l @ [st]) \<and> st_action st = act \<and> st_before st = sv_now sv w \<and> st_after st = sv_now sv w' \<and>
        (case r of Inl e \<Rightarrow> failure st = Some e | Inr u \<Rightarrow> failure st = None))"

lemma one_steps:
  "one_step (unload (action_logged sv) label (w, l)) sv w l (Launchctl [''bootout'', gui_target sv label])"
  "one_step (remove_file (action_logged sv) p (w, l)) sv w l (RemoveFile p)"
  "one_step (create_dir (action_logged sv) p (w, l)) sv w l (CreateDir p)"
  "one_step (write_file (action_logged sv) p c (w, l)) sv w l (WriteFile p c)"
  "sv_utf8 sv p \<Longrightarrow> one_step (bootstrap (action_logged sv) p (w, l)) sv w l (Launchctl [''bootstrap'', gui_domain sv, p])"
  subgoal by (auto simp: one_step_def unload_def failure_def split: prod.split sum.split)
  subgoal
    by (cases "sv_remove sv p w"; cases "fst (sv_remove sv p w)") (auto simp: one_step_def remove_file_def failure_def)
  subgoal by (auto simp: one_step_def create_dir_def failure_def split: prod.split sum.split)
  subgoal by (auto simp: one_step_def write_file_def failure_def split: prod.split sum.split)
  subgoal by (auto simp: one_step_def bootstrap_def failure_def split: prod.split sum.split)
  done

text \<open>
  A computation carries out a plan to the end, or to a failure, and \<open>Q\<close> holds of what comes out of it and
  the steps it took.
\<close>

definition does :: "(('e, 'a) res \<times> 'w \<times> service_step list) option \<Rightarrow> service_step list \<Rightarrow>
    (('e, 'a) res \<Rightarrow> service_step list \<Rightarrow> bool) \<Rightarrow> bool" where
  "does x l Q \<longleftrightarrow> (\<exists>r w' steps. x = Some (r, w', l @ steps) \<and> Q r steps)"

lemma does_step:
  assumes "one_step out sv w l act"
    and "\<And>e st. st_action st = act \<Longrightarrow> st_before st = sv_now sv w \<Longrightarrow> failure st = Some e \<Longrightarrow> Q (Inl e) [st]"
    and "\<And>w' st u. st_action st = act \<Longrightarrow> st_before st = sv_now sv w \<Longrightarrow> st_after st = sv_now sv w' \<Longrightarrow> failure st = None \<Longrightarrow>
       does (f u (w', l @ [st])) (l @ [st]) (\<lambda>r steps. Q r (st # steps))"
  shows "does (andthen out f) l Q"
proof -
  obtain r w' st where out: "out = (r, w', l @ [st])" "st_action st = act" "st_before st = sv_now sv w"
    "st_after st = sv_now sv w'" "case r of Inl e \<Rightarrow> failure st = Some e | Inr u \<Rightarrow> failure st = None"
    using assms(1) unfolding one_step_def by blast
  show ?thesis
  proof (cases r)
    case (Inl e)
    with out assms(2) have "Q (Inl e) [st]" by simp
    with out(1) Inl show ?thesis by (auto simp: does_def intro!: exI [of _ "[st]"])
  next
    case (Inr u)
    with out assms(3) [of st w' u] have "does (f u (w', l @ [st])) (l @ [st]) (\<lambda>r steps. Q r (st # steps))" by simp
    then show ?thesis unfolding out(1) Inr andthen_simps by (auto simp: does_def)
  qed
qed

lemma does_end: "Q r [] \<Longrightarrow> does (Some (r, w, l)) l Q"
  by (auto simp: does_def)

text \<open>From the plist directory to launchd.\<close>

definition loaded ::
  "'w service_env \<Rightarrow> string \<Rightarrow> string \<Rightarrow> nat \<Rightarrow> (service_error, installed) res \<Rightarrow> service_step list \<Rightarrow> bool" where
  "loaded sv home prog start r steps \<longleftrightarrow>
     steps \<noteq> [] \<and> st_before (hd steps) = start \<and>
     (case r of
        Inl e \<Rightarrow> carried_out (loading sv home prog) steps (Some e) \<or>
          \<not> sv_utf8 sv (la_agent (layout_of home)) \<and> e = BootstrapRefused (la_agent (layout_of home)) \<and>
          carried_out (butlast (loading sv home prog)) steps None
      | Inr i \<Rightarrow> carried_out (loading sv home prog) steps None \<and>
          i = \<lparr>in_program = prog, in_agent = la_agent (layout_of home), in_housing = housing_of sv prog\<rparr>)"

lemmas load_simps = loaded_def carried_out_def loading_def Let_def

lemma load_agent_does:
  "does (load_agent (action_logged sv) (layout_of home) prog (w, l)) l (loaded sv home prog (sv_now sv w))"
proof (cases "sv_utf8 sv (la_agent (layout_of home))")
  case True
  show ?thesis
    unfolding load_agent_def
    by (rule does_step [OF one_steps(3)] does_step [OF one_steps(4)] does_step [OF one_steps(5) [OF True]] does_end |
        simp add: load_simps)+
next
  case False
  then have refused: "bootstrap (action_logged sv) (la_agent (layout_of home)) (w', l') =
      (Inl (BootstrapRefused (la_agent (layout_of home))), w', l')" for w' l'
    by (simp add: bootstrap_def)
  show ?thesis
    unfolding load_agent_def
    by (rule does_step [OF one_steps(3)] does_step [OF one_steps(4)] does_end | simp add: load_simps False refused)+
qed

text \<open>
  C22. An installation returns, and its steps are the planned ones in their order, each once, up to the
  first that fails, whose failure is the error. The agent Homebrew wrote is unloaded and removed before the
  own one is unloaded; the new one is written and loaded only after launchctl has been asked, at most fifty
  times, whether the old one is gone, and has said so or five seconds have passed. Without a failure all
  steps were done, and what is reported is what was written and loaded. A path that is not UTF-8 is not
  given to launchctl and counts as refused.
\<close>

theorem install_in_order:
  assumes "clock_goes_on sv" and "sv_home sv = Some home"
    and "sv_current_exe sv = Inr exe" and "sv_canonicalize sv exe = Inr prog"
  shows "\<exists>r w' before asked after. install (action_logged sv) (w, []) = Some (r, w', before @ asked @ after) \<and>
     ((\<exists>e. r = Inl e \<and> carried_out (unloading sv home) before (Some e) \<and> asked = [] \<and> after = []) \<or>
      carried_out (unloading sv home) before None \<and> after \<noteq> [] \<and>
      waited sv asked (st_after (last before)) (st_before (hd after)) \<and>
      (case r of
         Inl e \<Rightarrow> carried_out (loading sv home prog) after (Some e) \<or>
           \<not> sv_utf8 sv (la_agent (layout_of home)) \<and> e = BootstrapRefused (la_agent (layout_of home)) \<and>
           carried_out (butlast (loading sv home prog)) after None
       | Inr i \<Rightarrow> carried_out (loading sv home prog) after None \<and>
           i = \<lparr>in_program = prog, in_agent = la_agent (layout_of home), in_housing = housing_of sv prog\<rparr>))"
proof -
  have paths: "home_dir sv = Inr home" "executable_path sv = Inr prog"
    using assms by (simp_all add: home_dir_def executable_path_def)
  define ends where "ends r steps \<longleftrightarrow>
    (\<exists>before asked after. steps = before @ asked @ after \<and>
      ((\<exists>e. r = Inl e \<and> carried_out (unloading sv home) before (Some e) \<and> asked = [] \<and> after = []) \<or>
       carried_out (unloading sv home) before None \<and>
       waited sv asked (st_after (last before)) (st_before (hd after)) \<and>
       loaded sv home prog (st_before (hd after)) r after))" for r steps
  have stopped: "ends (Inl e) steps" if "carried_out (unloading sv home) steps (Some e)" for e steps
    unfolding ends_def using that by (intro exI [of _ steps] exI [of _ "[]"]) simp
  have rest: "does (Option.bind (wait_unloaded (action_logged sv) service_label (w3, l))
        (load_agent (action_logged sv) (layout_of home) prog)) l (\<lambda>r steps. ends r (before @ steps))"
    if before: "carried_out (unloading sv home) before None" "st_after (last before) = sv_now sv w3" for w3 l before
  proof -
    obtain w4 asked where wait: "wait_unloaded (action_logged sv) service_label (w3, l) = Some (w4, l @ asked)"
      "waited sv asked (sv_now sv w3) (sv_now sv w4)"
      by (rule wait_unloaded_asks [OF assms(1)])
    obtain r w5 after where load: "load_agent (action_logged sv) (layout_of home) prog (w4, l @ asked) = Some (r, w5, (l @ asked) @ after)"
      "loaded sv home prog (sv_now sv w4) r after"
      using load_agent_does [of sv home prog w4 "l @ asked"] unfolding does_def by blast
    have "st_before (hd after) = sv_now sv w4" using load(2) by (simp add: loaded_def)
    then have "ends r (before @ asked @ after)"
      unfolding ends_def using before wait(2) load(2) by (intro exI [of _ before] exI [of _ asked] exI [of _ after]) simp
    with wait(1) load(1) show ?thesis by (auto simp: does_def)
  qed
  have "does (install (action_logged sv) (w, [])) [] ends"
    unfolding install_def logged_paths paths sum.case Let_def
  proof (rule does_step [OF one_steps(1)], goal_cases)
    case (1 e st)
    then show ?case by (intro stopped) (simp add: carried_out_def unloading_def brew_label_def)
  next
    case (2 w1 st1 u1)
    note one = 2
    show ?case
    proof (rule does_step [OF one_steps(2)], goal_cases)
      case (1 e st)
      with one show ?case by (intro stopped) (simp add: carried_out_def unloading_def brew_label_def)
    next
      case (2 w2 st2 u2)
      note two = 2
      show ?case
      proof (rule does_step [OF one_steps(1)], goal_cases)
        case (1 e st)
        with one two show ?case
          by (intro stopped) (simp add: carried_out_def unloading_def brew_label_def service_label_def)
      next
        case (2 w3 st3 u3)
        have "carried_out (unloading sv home) [st1, st2, st3] None" "st_after (last [st1, st2, st3]) = sv_now sv w3"
          using one two 2 by (simp_all add: carried_out_def unloading_def brew_label_def service_label_def)
        from rest [OF this] show ?case by simp
      qed
    qed
  qed
  then obtain r w' steps where "install (action_logged sv) (w, []) = Some (r, w', steps)" "ends r steps"
    unfolding does_def by auto
  then show ?thesis unfolding ends_def loaded_def by blast
qed

text \<open>A machine whose old agent is gone after half a second, and whose clock is the time slept.\<close>

definition sample_service :: "nat service_env" where
  "sample_service =
     \<lparr>sv_home = Some ''/u'', sv_current_exe = Inr ''/bin/nikki'',
      sv_canonicalize = (\<lambda>p. Inr ''/Applications/Nikki.app/Contents/MacOS/nikki''), sv_uid = 501,
      sv_utf8 = (\<lambda>p. True),
      sv_launchctl = (\<lambda>args w. (Inr (hd args = ''bootstrap'' \<or> w < 500), w)),
      sv_remove = (\<lambda>p w. (NotFound, w)), sv_create_dir = (\<lambda>p w. (Inr (), w)),
      sv_write = (\<lambda>p c w. (Inr (), w)), sv_now = id, sv_sleep = (\<lambda>d w. w + d)\<rparr>"

lemma sample_installed:
  "case install (action_logged sample_service) (0, []) of Some (Inr i, w, l) \<Rightarrow> length l = 13 | _ \<Rightarrow> False"
  by code_simp

theorem install_in_order_witness:
  "\<exists>i w' before asked after. install (action_logged sample_service) (0, []) = Some (Inr i, w', before @ asked @ after) \<and>
     carried_out (unloading sample_service ''/u'') before None \<and>
     waited sample_service asked (st_after (last before)) (st_before (hd after)) \<and> length asked = 6 \<and>
     carried_out (loading sample_service ''/u'' ''/Applications/Nikki.app/Contents/MacOS/nikki'') after None"
proof -
  have c: "clock_goes_on sample_service" unfolding clock_goes_on_def sample_service_def by simp
  have h: "sv_home sample_service = Some ''/u''"
    and e: "sv_current_exe sample_service = Inr ''/bin/nikki''"
    and p: "sv_canonicalize sample_service ''/bin/nikki'' = Inr ''/Applications/Nikki.app/Contents/MacOS/nikki''"
    by (simp_all only: sample_service_def service_env.select_convs)
  from install_in_order [OF c h e p, of 0] obtain r w' before asked after where
    run: "install (action_logged sample_service) (0, []) = Some (r, w', before @ asked @ after)" and
    outcome: "(\<exists>e. r = Inl e \<and> carried_out (unloading sample_service ''/u'') before (Some e) \<and> asked = [] \<and> after = []) \<or>
      carried_out (unloading sample_service ''/u'') before None \<and> after \<noteq> [] \<and>
      waited sample_service asked (st_after (last before)) (st_before (hd after)) \<and>
      (case r of
         Inl e \<Rightarrow> carried_out (loading sample_service ''/u'' ''/Applications/Nikki.app/Contents/MacOS/nikki'') after (Some e) \<or>
           \<not> sv_utf8 sample_service (la_agent (layout_of ''/u'')) \<and> e = BootstrapRefused (la_agent (layout_of ''/u'')) \<and>
           carried_out (butlast (loading sample_service ''/u'' ''/Applications/Nikki.app/Contents/MacOS/nikki'')) after None
       | Inr i \<Rightarrow> carried_out (loading sample_service ''/u'' ''/Applications/Nikki.app/Contents/MacOS/nikki'') after None \<and>
           i = \<lparr>in_program = ''/Applications/Nikki.app/Contents/MacOS/nikki'', in_agent = la_agent (layout_of ''/u''),
                in_housing = housing_of sample_service ''/Applications/Nikki.app/Contents/MacOS/nikki''\<rparr>)"
    by (elim exE conjE) (rule that)
  from sample_installed [unfolded run] obtain i where i: "r = Inr i" "length (before @ asked @ after) = 13"
    by (cases r) (simp_all del: length_append)
  have parts: "carried_out (unloading sample_service ''/u'') before None"
    "waited sample_service asked (st_after (last before)) (st_before (hd after))"
    "carried_out (loading sample_service ''/u'' ''/Applications/Nikki.app/Contents/MacOS/nikki'') after None"
    using outcome unfolding i(1) by simp_all
  have "length before = 3" "length after = 4"
    using parts(1,3) by (simp_all add: carried_out_def unloading_def loading_def Let_def)
  with i(2) have "length asked = 6" by simp
  with parts run i(1) show ?thesis
    by (intro exI [of _ i] exI [of _ w'] exI [of _ before] exI [of _ asked] exI [of _ after] conjI) simp_all
qed

lemma sample_housing:
  "housing_of sample_service ''/Applications/Nikki.app/Contents/MacOS/nikki'' = Bundle"
  "housing_of sample_service ''/opt/nikki/bin/nikki'' = Loose"
  by code_simp+

end
