(* ===== verification/Lifetime.thy ===== *)
theory Lifetime
  imports Delivery Pipeline
begin

text \<open>
  The daemon between its start and its shutdown: \<open>absorb\<close> (\<open>src/src/runtime/mod.rs\<close>) and the loop of
  the shipper (\<open>Shipper::run\<close>, \<open>src/src/runtime/ship.rs\<close>) share the buffer and are scheduled in any
  order. A life is a list of moments: an emission is stored, a provider reads its cursor, the shipper
  takes a batch and posts it, settles it, or leaves its pause. A moment that does not fit the stage of
  the shipper changes nothing.
\<close>

subsection \<open>Moments\<close>

datatype stage =
    Ready                                                   \<comment> \<open>about to take a batch\<close>
  | Flying "pending_record list" "string + http_response"   \<comment> \<open>posted and answered, not yet settled\<close>
  | Waiting                                                 \<comment> \<open>in the pause after a round\<close>
  | Lost buffer_error                                       \<comment> \<open>returned: the buffer is lost\<close>

text \<open>
  \<open>lf_posted\<close> and \<open>lf_settled\<close> are the ledger: the batches posted with the answers to them, and every
  record that a settlement removed from the queue with the batch and the answer it was settled on.
\<close>

record 'w life =
  lf_db :: db
  lf_world :: 'w
  lf_batch_size :: nat
  lf_backoff :: nat
  lf_draining :: bool
  lf_stage :: stage
  lf_stored :: "stored list"
  lf_posted :: "(pending_record list \<times> (string + http_response)) list"
  lf_settled :: "(pending_record \<times> pending_record list \<times> (string + http_response)) list"

text \<open>What the loop does with the outcome of a round, in a drain and outside of one.\<close>

definition life_round :: "(buffer_error, progress) res \<Rightarrow> 'w life \<Rightarrow> 'w life" where
  "life_round r lf =
     (case r of
        Inl e \<Rightarrow> lf\<lparr>lf_stage := Lost e\<rparr>
      | Inr p \<Rightarrow>
          if lf_draining lf
          then lf\<lparr>lf_stage := Ready,
                  lf_draining := (case p of Idle \<Rightarrow> False | Kept reason \<Rightarrow> False | _ \<Rightarrow> True)\<rparr>
          else let (pause, backoff) = pause_after (lf_backoff lf) p
               in lf\<lparr>lf_backoff := backoff, lf_stage := if pause = 0 then Ready else Waiting\<rparr>)"

text \<open>
  \<open>Elapses\<close>: the pause is over; \<open>Asks\<close>: a shipment is asked for during the pause. The shipper's commands
  during the wait of \<open>store\<close> are moments of their own, so the arrival carries none.
\<close>

datatype moment = Stores arrival | Reads provider string | Begins | Settles | Elapses | Asks

fun moment_step :: "buffer_env \<Rightarrow> 'w transport \<Rightarrow> moment \<Rightarrow> 'w life \<Rightarrow> 'w life" where
  "moment_step env tr (Stores a) lf =
     (case ar_emission a of
        None \<Rightarrow> lf
      | Some em \<Rightarrow>
          let (r, s) = store env (a\<lparr>ar_meanwhile := []\<rparr>) em (lf_db lf)
          in lf\<lparr>lf_db := s, lf_stored := lf_stored lf @ [r]\<rparr>)"
| "moment_step env tr (Reads p k) lf = lf\<lparr>lf_db := snd (read_cursor p k (lf_db lf))\<rparr>"
| "moment_step env tr Begins lf =
     (case lf_stage lf of
        Ready \<Rightarrow>
          (case take_batch (lf_batch_size lf) (lf_db lf) of
             (Inl e, s) \<Rightarrow> life_round (Inl e) (lf\<lparr>lf_db := s\<rparr>)
           | (Inr batch, s) \<Rightarrow>
               if batch = [] then life_round (Inr Idle) (lf\<lparr>lf_db := s\<rparr>)
               else let (answer, w) = tr_post tr (body_for batch) (lf_world lf)
                    in lf\<lparr>lf_db := s, lf_world := w, lf_stage := Flying batch answer,
                          lf_posted := lf_posted lf @ [(batch, answer)]\<rparr>)
      | _ \<Rightarrow> lf)"
| "moment_step env tr Settles lf =
     (case lf_stage lf of
        Flying batch answer \<Rightarrow>
          let (r, bsize, s) = settle (handle_of env) (tr_clock tr (lf_world lf)) (lf_batch_size lf) batch
                (disposition_of (tr_parse tr) (length batch) answer) (lf_db lf)
          in life_round r (lf\<lparr>lf_db := s, lf_batch_size := bsize,
               lf_settled := lf_settled lf @ map (\<lambda>p. (p, batch, answer)) (deleted_by (lf_db lf) s)\<rparr>)
      | _ \<Rightarrow> lf)"
| "moment_step env tr Elapses lf = (case lf_stage lf of Waiting \<Rightarrow> lf\<lparr>lf_stage := Ready\<rparr> | _ \<Rightarrow> lf)"
| "moment_step env tr Asks lf =
     (case lf_stage lf of Waiting \<Rightarrow> lf\<lparr>lf_stage := Ready, lf_draining := True\<rparr> | _ \<Rightarrow> lf)"

fun live :: "buffer_env \<Rightarrow> 'w transport \<Rightarrow> moment list \<Rightarrow> 'w life \<Rightarrow> 'w life" where
  "live env tr [] lf = lf"
| "live env tr (m # ms) lf = live env tr ms (moment_step env tr m lf)"

text \<open>\<open>Shipper::new\<close>, and the loop before its first round.\<close>

definition life_start :: "db \<Rightarrow> 'w \<Rightarrow> 'w life" where
  "life_start s w =
     \<lparr>lf_db = s, lf_world = w, lf_batch_size = max_batch, lf_backoff = backoff_start, lf_draining = False,
      lf_stage = Ready, lf_stored = [], lf_posted = [], lf_settled = []\<rparr>"

lemma live_append: "live env tr (ms @ ms') lf = live env tr ms' (live env tr ms lf)"
  by (induction env tr ms lf rule: live.induct) simp_all

lemma live_invariant:
  assumes "\<And>m lf. P lf \<Longrightarrow> P (moment_step env tr m lf)" and "P lf"
  shows "P (live env tr ms lf)"
  using assms(2) by (induction ms arbitrary: lf) (simp_all add: assms(1))

lemma life_round_simps [simp]:
  "lf_db (life_round r lf) = lf_db lf" "lf_world (life_round r lf) = lf_world lf"
  "lf_batch_size (life_round r lf) = lf_batch_size lf" "lf_stored (life_round r lf) = lf_stored lf"
  "lf_posted (life_round r lf) = lf_posted lf" "lf_settled (life_round r lf) = lf_settled lf"
  "lf_stage (life_round r lf) \<noteq> Flying b a"
  by (auto simp: life_round_def split: sum.split prod.split)

subsection \<open>The loop is one of these lives\<close>

text \<open>A life without its ledger: what the loop goes on from.\<close>

definition loop_view :: "'w life \<Rightarrow> db \<times> 'w \<times> nat \<times> nat \<times> bool \<times> stage" where
  "loop_view lf = (lf_db lf, lf_world lf, lf_batch_size lf, lf_backoff lf, lf_draining lf, lf_stage lf)"

lemma settles_round: "moment_step env tr Settles (life_round r lf) = life_round r lf"
  using life_round_simps(7) [of r lf] by (cases "lf_stage (life_round r lf)") auto

text \<open>Taken without a moment in between, the two halves are a round.\<close>

lemma round_lived:
  assumes view: "loop_view lf = (s, w, n, b, d, Ready)"
    and run: "ship_once (handle_of env) tr n s w = ((r, n', s'), w')"
  shows "loop_view (live env tr [Begins, Settles] lf) =
     loop_view (life_round r (lf\<lparr>lf_db := s', lf_world := w', lf_batch_size := n'\<rparr>))"
proof -
  have lf: "lf_db lf = s" "lf_world lf = w" "lf_batch_size lf = n" "lf_stage lf = Ready"
    using view by (auto simp: loop_view_def)
  then have eta: "lf\<lparr>lf_db := s', lf_world := w, lf_batch_size := n\<rparr> = lf\<lparr>lf_db := s'\<rparr>" for s'
    by simp
  obtain g s1 where t: "take_batch n s = (g, s1)" by fastforce
  consider (error) e where "g = Inl e" | (idle) "g = Inr []" | (post) batch where "g = Inr batch" "batch \<noteq> []"
    by (cases g) auto
  then show ?thesis
  proof cases
    case error
    then have "moment_step env tr Begins lf = life_round (Inl e) (lf\<lparr>lf_db := s1\<rparr>)" using t lf by simp
    moreover have "r = Inl e \<and> n' = n \<and> s' = s1 \<and> w' = w"
      using run t error by (auto simp: ship_once_def handle_of_def)
    ultimately show ?thesis by (simp only: live.simps settles_round eta)
  next
    case idle
    then have "moment_step env tr Begins lf = life_round (Inr Idle) (lf\<lparr>lf_db := s1\<rparr>)" using t lf by simp
    moreover have "r = Inr Idle \<and> n' = n \<and> s' = s1 \<and> w' = w"
      using run t idle by (auto simp: ship_once_def handle_of_def)
    ultimately show ?thesis by (simp only: live.simps settles_round eta)
  next
    case post
    obtain answer w1 where p: "tr_post tr (body_for batch) w = (answer, w1)" by fastforce
    with post run t have st: "settle (handle_of env) (tr_clock tr w') n batch
        (disposition_of (tr_parse tr) (length batch) answer) s1 = (r, n', s')" and w': "w' = w1"
      by (auto simp: ship_once_def handle_of_def Let_def)
    from post lf t p st w' show ?thesis
      by (auto simp: loop_view_def life_round_def split: sum.split prod.split)
  qed
qed

lemma drain_lived:
  assumes "drain (handle_of env) tr n s w = Some (r, n', s', w')"
    and "loop_view lf = (s, w, n, b, True, Ready)"
  shows "\<exists>ms. case r of
           Inl e \<Rightarrow> lf_stage (live env tr ms lf) = Lost e
         | Inr u \<Rightarrow> loop_view (live env tr ms lf) = (s', w', n', b, False, Ready)"
  using assms
proof (induction "handle_of env" tr n s w "(r, n', s', w')" arbitrary: lf
    rule: drain.raw_induct [rotated 1, consumes 1, case_names step])
  case (step drn tr n s w)
  obtain q n1 s1 w1 where o: "ship_once (handle_of env) tr n s w = ((q, n1, s1), w1)" by (metis surj_pair)
  note lived = round_lived [OF step.prems o]
  have d: "lf_draining lf" "lf_backoff lf = b" using step.prems by (auto simp: loop_view_def)
  show ?case
  proof (cases "\<exists>p. q = Inr p \<and> p \<noteq> Idle \<and> (\<forall>reason. p \<noteq> Kept reason)")
    case True
    then obtain p where p: "q = Inr p" "p \<noteq> Idle" "\<And>reason. p \<noteq> Kept reason" by blast
    with step.hyps(2) o have rest: "drn (handle_of env) tr n1 s1 w1 = Some (r, n', s', w')"
      by (cases p) auto
    have "loop_view (live env tr [Begins, Settles] lf) = (s1, w1, n1, b, True, Ready)"
      unfolding lived using p d by (cases p) (auto simp: life_round_def loop_view_def)
    from step.hyps(1) [OF rest this] obtain ms where
      "case r of Inl e \<Rightarrow> lf_stage (live env tr ms (live env tr [Begins, Settles] lf)) = Lost e
       | Inr u \<Rightarrow> loop_view (live env tr ms (live env tr [Begins, Settles] lf)) = (s', w', n', b, False, Ready)" ..
    then show ?thesis unfolding live_append [symmetric] ..
  next
    case False
    have "case r of
           Inl e \<Rightarrow> lf_stage (live env tr [Begins, Settles] lf) = Lost e
         | Inr u \<Rightarrow> loop_view (live env tr [Begins, Settles] lf) = (s', w', n', b, False, Ready)"
    proof (cases q)
      case (Inl e)
      with step.hyps(2) o have "r = Inl e" by auto
      with Inl lived show ?thesis by (auto simp: loop_view_def life_round_def)
    next
      case (Inr p)
      with step.hyps(2) o False have "r = Inr () \<and> n' = n1 \<and> s' = s1 \<and> w' = w1" by (cases p) auto
      with Inr lived d False show ?thesis by (cases p) (auto simp: loop_view_def life_round_def)
    qed
    then show ?thesis ..
  qed
qed

text \<open>Whatever turns the loop takes before the shutdown, a life without other moments takes them too.\<close>

lemma run_lived:
  assumes "run (handle_of env) tr ts b n s w = (out, answered)"
    and "list_all (\<lambda>t. \<not> turn_shutdown t) ts"
    and "loop_view lf = (s, w, n, b, False, Ready)"
  shows "\<exists>ms w'. case out of
           Running b' n' s' \<Rightarrow> loop_view (live env tr ms lf) = (s', w', n', b', False, Ready)
         | LostBuffer e \<Rightarrow> lf_stage (live env tr ms lf) = Lost e
         | Stopped n' s' \<Rightarrow> False
         | Draining \<Rightarrow> True"
  using assms
proof (induction ts arbitrary: b n s w lf answered)
  case Nil
  then show ?case by (auto intro!: exI [of _ "[]"])
next
  case (Cons t ts)
  obtain q n1 s1 w1 where o: "ship_once (handle_of env) tr n s w = ((q, n1, s1), w1)" by (metis surj_pair)
  note lived = round_lived [OF Cons.prems(3) o]
  have d: "\<not> lf_draining lf" "lf_backoff lf = b" using Cons.prems by (auto simp: loop_view_def)
  let ?after = "\<lambda>ms. live env tr ms (live env tr [Begins, Settles] lf)"
  have then_rest: ?case if "run (handle_of env) tr ts b1 n2 s2 w2 = (out, k)"
    "loop_view (live env tr ms1 lf) = (s2, w2, n2, b1, False, Ready)" for b1 n2 s2 w2 k ms1
    using Cons.IH [OF that(1) _ that(2)] Cons.prems(2) unfolding live_append [symmetric] by auto
  show ?case
  proof (cases q)
    case (Inl e)
    with Cons.prems o have "out = LostBuffer e" by auto
    with Inl lived show ?thesis by (auto simp: loop_view_def life_round_def simp del: live.simps)
  next
    case (Inr p)
    obtain pause b1 where pb: "pause_after b p = (pause, b1)" by fastforce
    have one: "loop_view (live env tr [Begins, Settles] lf) =
        (s1, w1, n1, b1, False, if pause = 0 then Ready else Waiting)"
      unfolding lived using Inr d pb by (auto simp: loop_view_def life_round_def)
    consider (now) "pause = 0" | (later) "pause \<noteq> 0" "turn_wake t \<noteq> Requested" | (asked) "pause \<noteq> 0" "turn_wake t = Requested"
      by blast
    then show ?thesis
    proof cases
      case now
      with Cons.prems(1,2) Inr o pb have "run (handle_of env) tr ts b1 n1 s1 w1 = (out, answered)" by auto
      from then_rest [OF this, of "[Begins, Settles]"] now one show ?thesis by simp
    next
      case later
      with Cons.prems(1,2) Inr o pb have go: "run (handle_of env) tr ts b1 n1 s1 w1 = (out, answered)" by auto
      have "loop_view (?after [Elapses]) = (s1, w1, n1, b1, False, Ready)"
        using later one by (auto simp: loop_view_def)
      then show ?thesis unfolding live_append [symmetric] by (rule then_rest [OF go])
    next
      case asked
      have req: "loop_view (?after [Asks]) = (s1, w1, n1, b1, True, Ready)"
        using asked one by (auto simp: loop_view_def)
      show ?thesis
      proof (cases "drain (handle_of env) tr n1 s1 w1")
        case None
        with Cons.prems(1,2) Inr o pb asked have "out = Draining" by auto
        then show ?thesis by simp
      next
        case (Some x)
        obtain r n2 s2 w2 where x: "x = (r, n2, s2, w2)" by (cases x)
        from drain_lived [OF Some [unfolded x] req] obtain ms where
          ms: "case r of Inl e \<Rightarrow> lf_stage (live env tr ms (?after [Asks])) = Lost e
            | Inr u \<Rightarrow> loop_view (live env tr ms (?after [Asks])) = (s2, w2, n2, b1, False, Ready)" ..
        show ?thesis
        proof (cases r)
          case (Inl e)
          with Cons.prems(1,2) \<open>q = Inr p\<close> o pb asked Some x have "out = LostBuffer e" by auto
          with ms Inl show ?thesis unfolding live_append [symmetric] by (auto simp del: live.simps)
        next
          case (Inr u)
          with Cons.prems(1,2) \<open>q = Inr p\<close> o pb asked Some x obtain k where
            "run (handle_of env) tr ts b1 n2 s2 w2 = (out, k)" by (auto split: prod.splits)
          from then_rest [OF this] ms Inr show ?thesis
            unfolding live_append [symmetric] by (simp del: live.simps)
        qed
      qed
    qed
  qed
qed

subsection \<open>What is stored, and the receipts\<close>

fun life_emissions :: "moment list \<Rightarrow> emission list" where
  "life_emissions [] = []"
| "life_emissions (Stores a # ms) =
     (case ar_emission a of None \<Rightarrow> life_emissions ms | Some em \<Rightarrow> em # life_emissions ms)"
| "life_emissions (m # ms) = life_emissions ms"

lemma snd_reply_with: "snd (reply_with f m s) = snd (m s)"
  by (cases "m s"; cases "fst (m s)") (auto simp: reply_with_def bind_def return_def)

lemma settle_cases:
  assumes "settle (handle_of env) now n b d s = (r, n', s')"
  shows "(s' = s \<or> s' = snd (delete_batch (map pending_id b) s) \<or> (\<exists>reason. s' = snd (dead_letter env now b reason s))) \<and>
     (n' = n \<or> n' = max (length b div 2) min_batch)"
proof (cases d)
  case (DDelete rs)
  obtain q s1 where "delete_batch (map pending_id b) s = (q, s1)" by fastforce
  with DDelete assms show ?thesis by (cases q) (auto simp: settle_def handle_of_def)
next
  case (DKeep reason)
  with assms show ?thesis by (auto simp: settle_def)
next
  case (DDeadLetter reason)
  obtain q s1 where "dead_letter env now b reason s = (q, s1)" by fastforce
  with DDeadLetter assms show ?thesis by (cases q) (auto simp: settle_def handle_of_def intro!: exI [of _ reason])
next
  case DShrink
  let ?reason = "''413 at the floor of '' @ dec_nat min_batch @ '' records''"
  obtain q s1 where "dead_letter env now b ?reason s = (q, s1)" by fastforce
  with DShrink assms show ?thesis
    by (cases q; cases "n \<le> min_batch") (auto simp: settle_def shrink_def handle_of_def Let_def intro!: exI [of _ ?reason])
qed

text \<open>A shipper's half round changes no cursor.\<close>

lemma settle_cursors:
  assumes "settle (handle_of env) now n b d s = (r, n', s')"
  shows "t_cursors (db_tables s') = t_cursors (db_tables s)"
proof -
  have kept: "t_cursors (db_tables (snd (serve_command env now now c s))) = t_cursors (db_tables s)"
    if "case c of Enqueue ds cur dev \<Rightarrow> False | _ \<Rightarrow> True" for c
    using keeps_command [of "\<lambda>t. t_cursors t = t_cursors (db_tables s)" c env now now] that by (auto simp: keeps_def)
  from settle_cases [OF assms] kept [of "DeleteBatch (map pending_id b)"] kept [of "DeadLetter b reason" for reason]
  show ?thesis by (auto simp: snd_reply_with)
qed

lemma read_cursor_frame: "db_tables (snd (read_cursor p k s)) = db_tables s"
  by (auto simp: read_cursor_def query_def exec_def Let_def split: list.split bool.split)

definition life_sound :: "'w life \<Rightarrow> bool" where
  "life_sound lf \<longleftrightarrow> tables_ok (db_tables (lf_db lf)) \<and> min_batch \<le> lf_batch_size lf \<and> lf_batch_size lf \<le> max_batch \<and>
     (\<forall>b a. lf_stage lf = Flying b a \<longrightarrow> length b \<le> lf_batch_size lf)"

text \<open>One moment: the tables stay sound, and only a stored emission adds a receipt or moves a cursor.\<close>

lemma moment_effect:
  assumes sound: "life_sound lf"
  shows "life_sound (moment_step env tr m lf) \<and>
     (\<exists>rs. lf_stored (moment_step env tr m lf) = lf_stored lf @ rs \<and>
        list_all2 (\<lambda>em r. snd r = receipt_for em (fst r)) (life_emissions [m]) rs \<and>
        t_cursors (db_tables (lf_db (moment_step env tr m lf))) =
          cursors_after (zip (life_emissions [m]) rs) (t_cursors (db_tables (lf_db lf))))"
proof -
  have ok: "db_ok (lf_db lf)" using sound by (simp add: life_sound_def db_ok_def)
  show ?thesis
  proof (cases m)
    case (Stores a)
    show ?thesis
    proof (cases "ar_emission a")
      case None
      with Stores sound show ?thesis by simp
    next
      case (Some em)
      obtain r receipt s where st: "store env (a\<lparr>ar_meanwhile := []\<rparr>) em (lf_db lf) = ((r, receipt), s)"
        by (metis surj_pair)
      have "no_enqueue (a\<lparr>ar_meanwhile := []\<rparr>)" by (simp add: no_enqueue_def)
      from store_effect [OF _ this st] sound Stores Some st show ?thesis
        by (auto simp: life_sound_def split: sum.splits)
    qed
  next
    case (Reads p k)
    with sound show ?thesis by (simp add: life_sound_def read_cursor_frame)
  next
    case Begins
    obtain g s where t: "take_batch (lf_batch_size lf) (lf_db lf) = (g, s)" by fastforce
    note frame = take_batch_frame [OF t]
    have len: "length batch \<le> lf_batch_size lf" if "g = Inr batch" for batch
      using take_batch_Inr [OF ok t [unfolded that]] by simp
    from Begins sound t frame len show ?thesis
      by (cases "lf_stage lf"; cases g) (auto simp: life_sound_def Let_def split: prod.splits)
  next
    case Settles
    show ?thesis
    proof (cases "\<exists>b a. lf_stage lf = Flying b a")
      case True
      then obtain b a where fl: "lf_stage lf = Flying b a" by blast
      obtain r n s where st: "settle (handle_of env) (tr_clock tr (lf_world lf)) (lf_batch_size lf) b
          (disposition_of (tr_parse tr) (length b) a) (lf_db lf) = (r, n, s)" by (metis surj_pair)
      have "length b \<le> max_batch" using sound fl by (auto simp: life_sound_def)
      with settle_cases [OF st] sound have "min_batch \<le> n \<and> n \<le> max_batch"
        by (auto simp: life_sound_def min_batch_def max_batch_def)
      moreover have "db_ok s" using settle_rows [OF ok st] by simp
      ultimately show ?thesis
        using Settles fl st settle_cursors [OF st] by (auto simp: life_sound_def db_ok_def)
    next
      case False
      with Settles sound show ?thesis by (cases "lf_stage lf") auto
    qed
  next
    case Elapses
    with sound show ?thesis by (cases "lf_stage lf") (auto simp: life_sound_def)
  next
    case Asks
    with sound show ?thesis by (cases "lf_stage lf") (auto simp: life_sound_def)
  qed
qed

lemma life_emissions_Cons: "life_emissions (m # ms) = life_emissions [m] @ life_emissions ms"
  by (cases m) (auto split: option.split)

lemma cursors_after_append: "cursors_after (xs @ ys) m = cursors_after ys (cursors_after xs m)"
  by (induction xs m rule: cursors_after.induct) simp_all

lemma live_effect:
  assumes "life_sound lf"
  shows "life_sound (live env tr ms lf) \<and>
     (\<exists>rs. lf_stored (live env tr ms lf) = lf_stored lf @ rs \<and>
        list_all2 (\<lambda>em r. snd r = receipt_for em (fst r)) (life_emissions ms) rs \<and>
        t_cursors (db_tables (lf_db (live env tr ms lf))) =
          cursors_after (zip (life_emissions ms) rs) (t_cursors (db_tables (lf_db lf))))"
  using assms
proof (induction ms arbitrary: lf)
  case (Cons m ms)
  let ?honest = "list_all2 (\<lambda>em r. snd r = receipt_for em (fst r))"
  obtain rs where m: "life_sound (moment_step env tr m lf)"
    "lf_stored (moment_step env tr m lf) = lf_stored lf @ rs" "?honest (life_emissions [m]) rs"
    "t_cursors (db_tables (lf_db (moment_step env tr m lf))) =
       cursors_after (zip (life_emissions [m]) rs) (t_cursors (db_tables (lf_db lf)))"
    using moment_effect [OF Cons.prems] by blast
  obtain rs' where ms: "life_sound (live env tr (m # ms) lf)"
    "lf_stored (live env tr (m # ms) lf) = lf_stored lf @ rs @ rs'" "?honest (life_emissions ms) rs'"
    "t_cursors (db_tables (lf_db (live env tr (m # ms) lf))) =
       cursors_after (zip (life_emissions ms) rs') (t_cursors (db_tables (lf_db (moment_step env tr m lf))))"
    using Cons.IH [OF m(1)] m(2) by auto
  have "?honest (life_emissions (m # ms)) (rs @ rs')"
    unfolding life_emissions_Cons [of m ms] using m(3) ms(3) by (rule list_all2_appendI)
  moreover have "cursors_after (zip (life_emissions (m # ms)) (rs @ rs')) c =
      cursors_after (zip (life_emissions ms) rs') (cursors_after (zip (life_emissions [m]) rs) c)" for c
    unfolding life_emissions_Cons [of m ms] cursors_after_append [symmetric]
    using list_all2_lengthD [OF m(3)] by (simp only: zip_append)
  ultimately show ?case using ms m(4) by (intro conjI exI [of _ "rs @ rs'"]) simp_all
qed (simp add: life_sound_def)

subsection \<open>The ledger\<close>

text \<open>
  Every record that left the queue in a settlement was in the batch settled, the batch had been posted
  and answered so, and the answer lets go of it: a 200 that accounts for the whole batch, a refusal for
  good, or a 413 for a batch that cannot be made smaller.
\<close>

definition lets_go :: "(string \<Rightarrow> service_response option) \<Rightarrow> pending_record list \<Rightarrow> string + http_response \<Rightarrow> bool" where
  "lets_go parse batch answer \<longleftrightarrow>
     acknowledged parse answer (length batch) \<or> refused_for_good answer \<or>
     found_too_large answer \<and> length batch \<le> min_batch"

definition honest_entry ::
  "'w transport \<Rightarrow> (pending_record list \<times> (string + http_response)) list \<Rightarrow>
     pending_record \<times> pending_record list \<times> (string + http_response) \<Rightarrow> bool" where
  "honest_entry tr posted entry \<longleftrightarrow>
     (case entry of (p, batch, answer) \<Rightarrow>
        p \<in> set batch \<and> (batch, answer) \<in> set posted \<and>
        (\<exists>w. fst (tr_post tr (body_for batch) w) = answer) \<and> lets_go (tr_parse tr) batch answer)"

lemma honest_entry_mono: "honest_entry tr posted e \<Longrightarrow> honest_entry tr (posted @ more') e"
  by (auto simp: honest_entry_def)

text \<open>The texts stored so far.\<close>

definition stored_texts :: "buffer_env \<Rightarrow> stored list \<Rightarrow> string list" where
  "stored_texts env rs = concat (map (\<lambda>r. case fst r of Inl e \<Rightarrow> [] | Inr ens \<Rightarrow> texts_of env ens) rs)"

lemma stored_texts_append [simp]: "stored_texts env (rs @ rs') = stored_texts env rs @ stored_texts env rs'"
  by (simp add: stored_texts_def)

definition all_fit :: "buffer_env \<Rightarrow> stored list \<Rightarrow> bool" where
  "all_fit env rs \<longleftrightarrow>
     (\<forall>txt \<in> set (stored_texts env rs). length txt + overflow_headroom_bytes \<le> max_bytes (be_caps env))"

text \<open>The buffer and the batch in flight, as the system of the shipper and the providers has them.\<close>

definition system_of :: "'w life \<Rightarrow> system" where
  "system_of lf =
     \<lparr>sys_db = lf_db lf, sys_flight = (case lf_stage lf of Flying batch answer \<Rightarrow> batch | _ \<Rightarrow> []),
      sys_deleted = map (\<lambda>(p, batch, answer). (p, batch)) (lf_settled lf), sys_posted = map fst (lf_posted lf),
      sys_stored = []\<rparr>"

definition life_ok :: "buffer_env \<Rightarrow> 'w transport \<Rightarrow> 'w life \<Rightarrow> bool" where
  "life_ok env tr lf \<longleftrightarrow>
     in_step env (system_of lf) \<and> list_all (honest_entry tr (lf_posted lf)) (lf_settled lf) \<and>
     (\<forall>b a. lf_stage lf = Flying b a \<longrightarrow>
        b \<noteq> [] \<and> (b, a) \<in> set (lf_posted lf) \<and> (\<exists>w. fst (tr_post tr (body_for b) w) = a))"

lemma in_step_same:
  assumes "in_step env (system_of lf)" "db_tables (lf_db lf') = db_tables (lf_db lf)"
    and "\<And>b a. lf_stage lf' \<noteq> Flying b a" "lf_settled lf' = lf_settled lf" "lf_posted lf' = lf_posted lf"
  shows "in_step env (system_of lf')"
  using assms by (cases "lf_stage lf'") (auto simp: in_step_def system_of_def db_ok_def Let_def)

lemma system_of_db: "system_of (lf\<lparr>lf_db := s\<rparr>) = (system_of lf)\<lparr>sys_db := s, sys_stored := []\<rparr>"
  by (simp add: system_of_def)

lemma in_step_store:
  assumes ok: "in_step env (system_of lf)" "2 \<le> max_rows (be_caps env)"
    and run: "store env (a\<lparr>ar_meanwhile := []\<rparr>) em (lf_db lf) = (r, s)"
    and texts: "all_fit env [r]"
  shows "in_step env (system_of (lf\<lparr>lf_db := s\<rparr>))"
proof -
  obtain res s1 where enq: "enqueue env (ar_now a) (ar_later a) (em_records em) (em_cursor em) (em_device em) (lf_db lf) = (res, s1)"
    by fastforce
  have db: "sys_db (system_of lf) = lf_db lf" by (simp add: system_of_def)
  have one: "in_step env ((system_of lf)\<lparr>sys_db := s1, sys_stored := []\<rparr>)"
  proof (cases res)
    case (Inl e)
    with enqueue_Inl [OF enq [unfolded Inl]] ok(1) db show ?thesis by (intro in_step_same_tables) simp_all
  next
    case (Inr ens)
    with run enq have "fst r = Inr ens" by (auto simp: store_def split: if_splits prod.splits)
    with texts have "\<forall>txt \<in> set (texts_of env ens). fits env (length txt)"
      by (simp add: all_fit_def stored_texts_def fits_def)
    with in_step_enqueue [OF ok] enq Inr db show ?thesis by simp
  qed
  have "db_tables s = db_tables s1"
  proof -
    have "keeps (\<lambda>t. t = db_tables s1) checkpoint" by (auto simp: checkpoint_def intro!: keeps_intros)
    then have "db_tables (snd (checkpoint s1)) = db_tables s1" by (auto simp: keeps_def)
    with run enq show ?thesis by (auto simp: store_def within_def split: sum.splits if_splits prod.splits)
  qed
  with in_step_same_tables [OF one, of s] show ?thesis by (simp add: system_of_db)
qed

lemma moment_keeps_ledger:
  assumes ok: "life_ok env tr lf" "life_sound lf" and rows: "2 \<le> max_rows (be_caps env)"
    and texts: "all_fit env (lf_stored (moment_step env tr m lf))"
  shows "life_ok env tr (moment_step env tr m lf)"
proof (cases m)
  case (Stores a)
  show ?thesis
  proof (cases "ar_emission a")
    case None
    with Stores ok show ?thesis by simp
  next
    case (Some em)
    obtain r s where st: "store env (a\<lparr>ar_meanwhile := []\<rparr>) em (lf_db lf) = (r, s)" by fastforce
    have "all_fit env [r]" using texts Stores Some st by (simp add: all_fit_def)
    from in_step_store [OF _ rows st this] ok Stores Some st show ?thesis
      by (auto simp: life_ok_def system_of_def)
  qed
next
  case (Reads p k)
  have "in_step env ((system_of lf)\<lparr>sys_db := snd (read_cursor p k (lf_db lf)), sys_stored := []\<rparr>)"
    using ok by (intro in_step_same_tables) (auto simp: life_ok_def read_cursor_frame system_of_def)
  with ok Reads show ?thesis by (simp add: life_ok_def system_of_db)
next
  case Begins
  show ?thesis
  proof (cases "lf_stage lf = Ready")
    case True
    obtain g s where t: "take_batch (lf_batch_size lf) (lf_db lf) = (g, s)" by fastforce
    have same: "life_ok env tr (life_round r (lf\<lparr>lf_db := s\<rparr>))" for r
      using ok in_step_same [of env lf "life_round r (lf\<lparr>lf_db := s\<rparr>)"] take_batch_frame [OF t]
      by (simp add: life_ok_def)
    show ?thesis
    proof (cases "\<exists>batch. g = Inr batch \<and> batch \<noteq> []")
      case False
      with Begins True t same show ?thesis by (cases g) auto
    next
      case post: True
      then obtain batch where g: "g = Inr batch" "batch \<noteq> []" by blast
      obtain answer w where p: "tr_post tr (body_for batch) (lf_world lf) = (answer, w)" by fastforce
      have "in_step env ((system_of lf)\<lparr>sys_db := s, sys_flight := batch,
          sys_posted := sys_posted (system_of lf) @ [batch]\<rparr>)"
        using in_step_take [of env "system_of lf" "lf_batch_size lf" batch s] ok t g(1) True
        by (simp add: life_ok_def system_of_def)
      moreover have "\<exists>w. fst (tr_post tr (body_for batch) w) = answer" using p by (metis fst_conv)
      ultimately show ?thesis
        using Begins True t g p ok by (auto simp: life_ok_def system_of_def list_all_iff intro: honest_entry_mono)
    qed
  next
    case False
    with Begins ok show ?thesis by (cases "lf_stage lf") auto
  qed
next
  case Settles
  show ?thesis
  proof (cases "\<exists>b a. lf_stage lf = Flying b a")
    case True
    then obtain b a where fl: "lf_stage lf = Flying b a" by blast
    obtain r n s where st: "settle (handle_of env) (tr_clock tr (lf_world lf)) (lf_batch_size lf) b
        (disposition_of (tr_parse tr) (length b) a) (lf_db lf) = (r, n, s)" by (metis surj_pair)
    have sys: "sys_flight (system_of lf) = b" "sys_db (system_of lf) = lf_db lf"
      using fl by (simp_all add: system_of_def)
    have inv: "in_step env (system_of lf)" using ok by (simp add: life_ok_def)
    note st' = st [folded sys]
    let ?new = "lf_settled lf @ map (\<lambda>p. (p, b, a)) (deleted_by (lf_db lf) s)"
    let ?mid = "lf\<lparr>lf_db := s, lf_batch_size := n, lf_settled := ?new, lf_stage := Ready\<rparr>"
    have "sys_flight (system_of lf) \<noteq> []" using ok(1) fl sys by (simp add: life_ok_def)
    from in_step_settle [OF inv this st'] have "in_step env (system_of ?mid)"
      by (simp add: system_of_def comp_def fl)
    moreover have "length b \<le> max_batch" "length b \<le> lf_batch_size lf" using ok(2) fl by (auto simp: life_sound_def)
    then have goes: "lets_go (tr_parse tr) b a" if "p \<in> set (deleted_by (lf_db lf) s)" for p
      using deleted_in_flight [OF inv st', of p] that sys disposition_of_answer [of "length b" "tr_parse tr" a]
      by (auto simp: lets_go_def)
    have "honest_entry tr (lf_posted lf) (p, b, a)" if "p \<in> set (deleted_by (lf_db lf) s)" for p
      using ok(1) fl deleted_in_flight [OF inv st', of p] goes [OF that] that sys
      by (simp add: life_ok_def honest_entry_def)
    then have "list_all (honest_entry tr (lf_posted lf)) ?new"
      using ok(1) by (auto simp: life_ok_def list_all_iff)
    ultimately have "life_ok env tr (life_round r (lf\<lparr>lf_db := s, lf_batch_size := n, lf_settled := ?new\<rparr>))"
      using in_step_same [of env ?mid "life_round r (lf\<lparr>lf_db := s, lf_batch_size := n, lf_settled := ?new\<rparr>)"]
      by (simp add: life_ok_def)
    with Settles fl st show ?thesis by simp
  next
    case False
    with Settles ok show ?thesis by (cases "lf_stage lf") auto
  qed
next
  case Elapses
  with ok in_step_same [of env lf "lf\<lparr>lf_stage := Ready\<rparr>"] show ?thesis
    by (cases "lf_stage lf") (auto simp: life_ok_def)
next
  case Asks
  with ok in_step_same [of env lf "lf\<lparr>lf_stage := Ready, lf_draining := True\<rparr>"] show ?thesis
    by (cases "lf_stage lf") (auto simp: life_ok_def)
qed

lemma live_ledger:
  assumes "2 \<le> max_rows (be_caps env)" "life_ok env tr lf" "life_sound lf"
    and "all_fit env (lf_stored (live env tr ms lf))"
  shows "list_all (honest_entry tr (lf_posted (live env tr ms lf))) (lf_settled (live env tr ms lf))"
  using assms(2-4)
proof (induction ms arbitrary: lf)
  case (Cons m ms)
  have sound: "life_sound (moment_step env tr m lf)" using moment_effect [OF Cons.prems(2)] by blast
  obtain rs where "lf_stored (live env tr (m # ms) lf) = lf_stored (moment_step env tr m lf) @ rs"
    using live_effect [OF sound, of env tr ms] by auto
  with Cons.prems(3) have "all_fit env (lf_stored (moment_step env tr m lf))" by (simp add: all_fit_def)
  from moment_keeps_ledger [OF Cons.prems(1,2) assms(1) this] Cons.IH sound Cons.prems(3) show ?case by simp
qed (simp add: life_ok_def)

lemma life_start_ok:
  assumes "tables_ok (db_tables s)"
  shows "life_sound (life_start s w)"
    and "rows_fit env (t_pending (db_tables s)) \<Longrightarrow> life_ok env tr (life_start s w)"
  using assms
  by (simp_all add: life_sound_def life_start_def life_ok_def system_of_def in_step_def db_ok_def
      min_batch_def max_batch_def Let_def)

end
