(* ===== verification/Scripted.thy ===== *)
theory Scripted
  imports Windows_Provider Extractors
begin

text \<open>
  Scripted sources, \<open>src/src/providers/scripted.rs\<close>: a scene read from a file answers every question
  about the screen. The text layer of \<open>serde_json\<close> and the reading of numbers with a point are
  parameters; what the derived deserializers accept is written out.
\<close>

definition test_sources_var :: string where "test_sources_var = ''NIKKI_TEST_SOURCES''"

record scene_application =
  sa_pid :: int
  sa_name :: "string option"
  sa_bundle :: "string option"

record scene_window =
  sw_pid :: int
  sw_name :: string
  sw_number :: nat
  sw_title :: "string option"
  sw_layer :: int
  sw_bounds :: rect

datatype scene_focus =
    SceneWindow "string option" "string option"
  | SceneAbsent
  | SceneUnavailable

record ambient =
  am_idle_sec :: int
  am_keys :: "32 word"
  am_mouse :: "32 word"
  am_mic_active :: bool
  am_screen_locked :: bool
  am_display_asleep :: bool

record scene =
  sc_frontmost :: "scene_application option"
  sc_displays :: "display_entry list"
  sc_windows :: "scene_window list"
  sc_focused :: scene_focus
  sc_activity :: ambient

subsection \<open>Reading a scene\<close>

text \<open>
  A struct with \<open>deny_unknown_fields\<close>: an object with no other members, or an array by position; with
  \<open>short\<close> (a default for every member) an array may end early.
\<close>

definition known_members :: "bool \<Rightarrow> string list \<Rightarrow> json \<Rightarrow> (string \<Rightarrow> json option) option" where
  "known_members short names v =
     (case v of
        JObject m \<Rightarrow> if set (map fst m) \<subseteq> set names then Some (obj_get m) else None
      | JArray xs \<Rightarrow>
          if length xs = length names \<or> short \<and> length xs \<le> length names then Some (map_of (zip names xs)) else None
      | _ \<Rightarrow> None)"

definition no_activity :: ambient where
  "no_activity =
     \<lparr>am_idle_sec = 0, am_keys = 0, am_mouse = 0, am_mic_active = False, am_screen_locked = False,
      am_display_asleep = False\<rparr>"

text \<open>An \<open>f64\<close>.\<close>

definition json_f64 :: "(string \<Rightarrow> rat option) \<Rightarrow> json \<Rightarrow> rat option" where
  "json_f64 decimal v =
     (case v of JInt i \<Rightarrow> Some (rounded (of_int i)) | JFloat t \<Rightarrow> decimal t | _ \<Rightarrow> None)"

definition json_u32 :: "json \<Rightarrow> 32 word option" where
  "json_u32 v = map_option of_nat (json_unsigned 32 v)"

definition read_bounds :: "(string \<Rightarrow> rat option) \<Rightarrow> (string \<Rightarrow> json option) \<Rightarrow> rect option" where
  "read_bounds decimal m =
     Option.bind (Option.bind (m ''x'') (json_f64 decimal)) (\<lambda>x.
     Option.bind (Option.bind (m ''y'') (json_f64 decimal)) (\<lambda>y.
     Option.bind (Option.bind (m ''width'') (json_f64 decimal)) (\<lambda>wd.
     Option.bind (Option.bind (m ''height'') (json_f64 decimal)) (\<lambda>ht.
       Some \<lparr>rx = x, ry = y, rwidth = wd, rheight = ht\<rparr>))))"

definition read_scene_application :: "json \<Rightarrow> scene_application option" where
  "read_scene_application v =
     Option.bind (known_members False [''pid'', ''name'', ''bundle_id''] v) (\<lambda>m.
     Option.bind (Option.bind (m ''pid'') (json_signed 32)) (\<lambda>pid.
     Option.bind (optional_field as_str (m ''name'')) (\<lambda>name.
     Option.bind (optional_field as_str (m ''bundle_id'')) (\<lambda>bundle.
       Some \<lparr>sa_pid = pid, sa_name = name, sa_bundle = bundle\<rparr>))))"

definition read_scene_display :: "(string \<Rightarrow> rat option) \<Rightarrow> json \<Rightarrow> display_entry option" where
  "read_scene_display decimal v =
     Option.bind (known_members False [''index'', ''x'', ''y'', ''width'', ''height''] v) (\<lambda>m.
     Option.bind (Option.bind (m ''index'') (json_unsigned 64)) (\<lambda>index.
     Option.bind (read_bounds decimal m) (\<lambda>b.
       Some \<lparr>display_index = index, display_bounds = b\<rparr>)))"

definition read_scene_window :: "(string \<Rightarrow> rat option) \<Rightarrow> json \<Rightarrow> scene_window option" where
  "read_scene_window decimal v =
     Option.bind (known_members False
       [''pid'', ''name'', ''number'', ''title'', ''layer'', ''x'', ''y'', ''width'', ''height''] v) (\<lambda>m.
     Option.bind (Option.bind (m ''pid'') (json_signed 32)) (\<lambda>pid.
     Option.bind (Option.bind (m ''name'') as_str) (\<lambda>name.
     Option.bind (Option.bind (m ''number'') (json_unsigned 32)) (\<lambda>number.
     Option.bind (optional_field as_str (m ''title'')) (\<lambda>title.
     Option.bind (default_field 0 (json_signed 32) (m ''layer'')) (\<lambda>lay.
     Option.bind (read_bounds decimal m) (\<lambda>b.
       Some \<lparr>sw_pid = pid, sw_name = name, sw_number = number, sw_title = title, sw_layer = lay,
             sw_bounds = b\<rparr>)))))))"

text \<open>The variant of an externally tagged enum: its name, or an object of its name and its value.\<close>

definition read_focus :: "json \<Rightarrow> scene_focus option" where
  "read_focus v =
     (case v of
        JString s \<Rightarrow>
          if s = ''absent'' then Some SceneAbsent
          else if s = ''unavailable'' then Some SceneUnavailable else None
      | JObject [(s, w)] \<Rightarrow>
          if s = ''window'' then
            Option.bind (known_members False [''title'', ''path''] w) (\<lambda>m.
            Option.bind (optional_field as_str (m ''title'')) (\<lambda>title.
            Option.bind (optional_field as_str (m ''path'')) (\<lambda>path. Some (SceneWindow title path))))
          else if s = ''absent'' \<and> w = JNull then Some SceneAbsent
          else if s = ''unavailable'' \<and> w = JNull then Some SceneUnavailable
          else None
      | _ \<Rightarrow> None)"

definition read_ambient :: "json \<Rightarrow> ambient option" where
  "read_ambient v =
     Option.bind (known_members True
       [''idle_sec'', ''keys'', ''mouse'', ''mic_active'', ''screen_locked'', ''display_asleep''] v) (\<lambda>m.
     Option.bind (default_field 0 (json_signed 64) (m ''idle_sec'')) (\<lambda>idle.
     Option.bind (default_field 0 json_u32 (m ''keys'')) (\<lambda>keys.
     Option.bind (default_field 0 json_u32 (m ''mouse'')) (\<lambda>mouse.
     Option.bind (default_field False as_bool (m ''mic_active'')) (\<lambda>mic.
     Option.bind (default_field False as_bool (m ''screen_locked'')) (\<lambda>locked.
     Option.bind (default_field False as_bool (m ''display_asleep'')) (\<lambda>asleep.
       Some \<lparr>am_idle_sec = idle, am_keys = keys, am_mouse = mouse, am_mic_active = mic,
             am_screen_locked = locked, am_display_asleep = asleep\<rparr>)))))))"

definition read_scene :: "(string \<Rightarrow> rat option) \<Rightarrow> json \<Rightarrow> scene option" where
  "read_scene decimal v =
     Option.bind (known_members True [''frontmost'', ''displays'', ''windows'', ''focused'', ''activity''] v) (\<lambda>m.
     Option.bind (optional_field read_scene_application (m ''frontmost'')) (\<lambda>front.
     Option.bind (default_field [] (array_of (read_scene_display decimal)) (m ''displays'')) (\<lambda>displays.
     Option.bind (default_field [] (array_of (read_scene_window decimal)) (m ''windows'')) (\<lambda>windows.
     Option.bind (default_field SceneAbsent read_focus (m ''focused'')) (\<lambda>focused.
     Option.bind (default_field no_activity read_ambient (m ''activity'')) (\<lambda>act.
       Some \<lparr>sc_frontmost = front, sc_displays = displays, sc_windows = windows, sc_focused = focused,
             sc_activity = act\<rparr>))))))"

text \<open>
  \<open>ScriptedSources::load\<close>: the text of the file or why it cannot be read, what the text parses to, and
  what the library says of a text that is no scene.
\<close>

definition scripted_load ::
  "(string \<Rightarrow> json option) \<Rightarrow> (string \<Rightarrow> rat option) \<Rightarrow> (string \<Rightarrow> string) \<Rightarrow> (string, string) res \<Rightarrow> string \<Rightarrow>
     (string, scene) res" where
  "scripted_load parse decimal explain content path =
     (case content of
        Inl source \<Rightarrow> Inl (path @ '' could not be read: '' @ source)
      | Inr body \<Rightarrow>
          (case Option.bind (parse body) (read_scene decimal) of
             None \<Rightarrow> Inl (path @ '' is not a scene: '' @ explain body)
           | Some sc \<Rightarrow> Inr sc))"

subsection \<open>The answers\<close>

definition scripted_windows :: "scene \<Rightarrow> window_entry list" where
  "scripted_windows sc =
     map (\<lambda>(z, w). \<lparr>owner_pid = sw_pid w, owner_name = sw_name w, window_number = sw_number w,
                    bounds = sw_bounds w, layer = sw_layer w, wz = z\<rparr>)
       (enumerate 0 (sc_windows sc))"

definition scripted_frontmost :: "scene \<Rightarrow> running_application option" where
  "scripted_frontmost sc =
     map_option (\<lambda>a. \<lparr>app_pid = sa_pid a, app_name = sa_name a, app_bundle = sa_bundle a\<rparr>) (sc_frontmost sc)"

definition scripted_bundle_id :: "scene \<Rightarrow> int \<Rightarrow> string option" where
  "scripted_bundle_id sc pid =
     Option.bind (sc_frontmost sc) (\<lambda>a. if sa_pid a = pid then sa_bundle a else None)"

definition scripted_cursor_display :: "display_entry list \<Rightarrow> nat option" where
  "scripted_cursor_display displays = (case displays of [] \<Rightarrow> None | d # _ \<Rightarrow> Some (display_index d))"

definition scripted_focused_window :: "scene \<Rightarrow> focused_window" where
  "scripted_focused_window sc =
     (case sc_focused sc of
        SceneWindow title path \<Rightarrow> FocusedWindow title path
      | SceneAbsent \<Rightarrow> FocusAbsent
      | SceneUnavailable \<Rightarrow> FocusUnavailable)"

fun count_windows :: "int \<Rightarrow> scene_window list \<Rightarrow> nat \<times> string option option \<Rightarrow> nat \<times> string option option" where
  "count_windows pid [] acc = acc"
| "count_windows pid (w # ws) (count, found) =
     (if sw_pid w \<noteq> pid then count_windows pid ws (count, found)
      else count_windows pid ws (Suc count, Some (sw_title w)))"

definition scripted_window_title :: "scene \<Rightarrow> int \<Rightarrow> window_title" where
  "scripted_window_title sc pid =
     (case count_windows pid (sc_windows sc) (0, None) of
        (count, found) \<Rightarrow>
          if count = 1 then Sole (case found of None \<Rightarrow> None | Some title \<Rightarrow> title) else Ambiguous)"

definition scripted_activity :: "scene \<Rightarrow> activity" where
  "scripted_activity sc =
     (let a = sc_activity sc
      in \<lparr>idle_sec = am_idle_sec a, counters = \<lparr>ic_keys = am_keys a, ic_mouse = am_mouse a\<rparr>,
          mic_active = am_mic_active a, act_locked = am_screen_locked a, act_asleep = am_display_asleep a\<rparr>)"

text \<open>The sources of a scene; the clock and the channels are those of the provider's own surroundings.\<close>

definition scripted_sources :: "scene \<Rightarrow> 'w sources \<Rightarrow> 'w sources" where
  "scripted_sources sc so =
     so\<lparr>so_windows := Pair (scripted_windows sc),
        so_displays := Pair (sc_displays sc),
        so_frontmost := Pair (scripted_frontmost sc),
        so_bundle_id := (\<lambda>pid. Pair (scripted_bundle_id sc pid)),
        so_cursor_display := (\<lambda>ds. Pair (scripted_cursor_display ds)),
        so_focused_window := (\<lambda>pid. Pair (scripted_focused_window sc)),
        so_window_title := (\<lambda>pid. Pair (scripted_window_title sc pid)),
        so_activity := Pair (scripted_activity sc),
        so_rescan := id,
        so_details := (\<lambda>bundle. Pair [])\<rparr>"

subsection \<open>What a scene says is what is seen\<close>

lemma count_windows_filter:
  "count_windows pid ws (n, found) =
     (n + length (filter (\<lambda>w. sw_pid w = pid) ws),
      case rev (filter (\<lambda>w. sw_pid w = pid) ws) of [] \<Rightarrow> found | w # _ \<Rightarrow> Some (sw_title w))"
  by (induction ws arbitrary: n found) (auto split: list.split simp: append_eq_Cons_conv)

text \<open>A window title is told exactly for an application with one window.\<close>

lemma scripted_window_title_sole:
  "scripted_window_title sc pid =
     (case filter (\<lambda>w. sw_pid w = pid) (sc_windows sc) of [w] \<Rightarrow> Sole (sw_title w) | _ \<Rightarrow> Ambiguous)"
  by (simp add: scripted_window_title_def count_windows_filter split: list.split)

lemma scripted_windows_order:
  "length (scripted_windows sc) = length (sc_windows sc)"
  "i < length (sc_windows sc) \<Longrightarrow> wz (scripted_windows sc ! i) = i"
  by (simp_all add: scripted_windows_def nth_enumerate_eq)

end
