(* ===== verification/Daemon.thy ===== *)
theory Daemon
  imports Lifetime Browser_History Service Scripted Config
begin

text \<open>
  The daemon as a whole: the command line (\<open>src/src/main.rs\<close>), the watch on its own binary
  (\<open>src/src/executable.rs\<close>), and its life from start to shutdown, composed of the parts modelled
  elsewhere. The world \<open>'w\<close> holds the file system and what launchd and the service see.
\<close>

subsection \<open>The running binary\<close>

definition poll_seconds :: nat where "poll_seconds = 2"

record file_id =
  id_device :: nat
  id_inode :: nat

record executable =
  ex_path :: string
  ex_identity :: file_id

text \<open>\<open>stat\<close> is \<open>symlink_metadata\<close>: device and inode, nothing on an error.\<close>

definition identity_at :: "(string \<Rightarrow> (nat \<times> nat) option) \<Rightarrow> string \<Rightarrow> file_id option" where
  "identity_at stat path = map_option (\<lambda>(d, i). \<lparr>id_device = d, id_inode = i\<rparr>) (stat path)"

definition current_executable ::
  "string option \<Rightarrow> (string \<Rightarrow> string option) \<Rightarrow> (string \<Rightarrow> (nat \<times> nat) option) \<Rightarrow> executable option" where
  "current_executable exe canonicalize stat =
     Option.bind exe (\<lambda>path.
     Option.bind (canonicalize path) (\<lambda>path.
     map_option (\<lambda>i. \<lparr>ex_path = path, ex_identity = i\<rparr>) (identity_at stat path)))"

definition replaced :: "file_id \<Rightarrow> file_id option \<Rightarrow> bool" where
  "replaced original current \<longleftrightarrow> current \<noteq> Some original"

text \<open>
  \<open>swapped\<close> over what is found at each poll: the number of polls after which it returns, \<open>None\<close> while
  it waits, which is for ever when there is nothing to watch.
\<close>

fun swapped_from :: "executable \<Rightarrow> nat \<Rightarrow> (string \<Rightarrow> (nat \<times> nat) option) list \<Rightarrow> nat option" where
  "swapped_from ex n [] = None"
| "swapped_from ex n (stat # stats) =
     (if replaced (ex_identity ex) (identity_at stat (ex_path ex)) then Some (Suc n)
      else swapped_from ex (Suc n) stats)"

definition swapped :: "executable option \<Rightarrow> (string \<Rightarrow> (nat \<times> nat) option) list \<Rightarrow> nat option" where
  "swapped ex stats = (case ex of None \<Rightarrow> None | Some ex \<Rightarrow> swapped_from ex 0 stats)"

subsection \<open>Private directories\<close>

text \<open>
  \<open>create\<close> makes a directory with its parents, of the mode given where it was missing; the mode is then set in
  any case, so that a directory that was there is closed to others too.
\<close>

definition private_dir_mode :: nat where "private_dir_mode = 7 * 8 * 8"

definition private_dir ::
  "(string \<Rightarrow> nat \<Rightarrow> 'w \<Rightarrow> (string, unit) res \<times> 'w) \<Rightarrow> (string \<Rightarrow> nat \<Rightarrow> 'w \<Rightarrow> (string, unit) res \<times> 'w) \<Rightarrow>
     string \<Rightarrow> 'w \<Rightarrow> (string, unit) res \<times> 'w" where
  "private_dir create set_permissions path w =
     (case create path private_dir_mode w of
        (Inl e, w) \<Rightarrow> (Inl e, w)
      | (Inr u, w) \<Rightarrow> set_permissions path private_dir_mode w)"

subsection \<open>The command line\<close>

datatype exit_code = ExitSuccess | ExitFailure

datatype service_command = Install | Uninstall

record cli_args =
  cli_version :: bool
  cli_check_config :: bool
  cli_command :: "service_command option"

record 'w main_env =
  me_var :: "string \<Rightarrow> string option"
  me_service :: "'w service_env"
  me_create_dir :: "string \<Rightarrow> nat \<Rightarrow> 'w \<Rightarrow> (string, unit) res \<times> 'w"
  me_set_permissions :: "string \<Rightarrow> nat \<Rightarrow> 'w \<Rightarrow> (string, unit) res \<times> 'w"
  me_exists :: "string \<Rightarrow> 'w \<Rightarrow> bool"
  me_discard :: "string \<Rightarrow> 'w \<Rightarrow> 'w"
  me_read :: "'w \<Rightarrow> string \<Rightarrow> string io"
  me_config :: config_lib
  me_run :: "config \<Rightarrow> 'w \<Rightarrow> (string, unit) res \<times> 'w"

definition run_service :: "'w main_env \<Rightarrow> service_command \<Rightarrow> 'w \<Rightarrow> (exit_code \<times> 'w) option" where
  "run_service me command w =
     (case command of
        Install \<Rightarrow>
          map_option (\<lambda>(r, w). (case r of Inl e \<Rightarrow> ExitFailure | Inr i \<Rightarrow> ExitSuccess, w)) (install (me_service me) w)
      | Uninstall \<Rightarrow>
          (case uninstall (me_service me) w of
             (Inl e, w) \<Rightarrow> Some (ExitFailure, w)
           | (Inr lay, w) \<Rightarrow> Some (ExitSuccess, w)))"

definition discard_stale_snapshot :: "'w main_env \<Rightarrow> string \<Rightarrow> 'w \<Rightarrow> 'w" where
  "discard_stale_snapshot me state_dir w =
     (let snapshot = path_join state_dir snapshot_dir
      in if \<not> me_exists me snapshot w then w else me_discard me snapshot w)"

text \<open>The state directory is made private and swept, unless the configuration is only checked.\<close>

definition prepare_state :: "'w main_env \<Rightarrow> bool \<Rightarrow> string \<Rightarrow> 'w \<Rightarrow> (string, unit) res \<times> 'w" where
  "prepare_state me check_only state_dir w =
     (if check_only then (Inr (), w)
      else case private_dir (me_create_dir me) (me_set_permissions me) state_dir w of
             (Inl e, w) \<Rightarrow> (Inl e, w)
           | (Inr u, w) \<Rightarrow> (Inr (), discard_stale_snapshot me state_dir w))"

definition main :: "'w main_env \<Rightarrow> cli_args \<Rightarrow> 'w \<Rightarrow> (exit_code \<times> 'w) option" where
  "main me args w =
     (if cli_version args then Some (ExitSuccess, w)
      else case cli_command args of
        Some command \<Rightarrow> run_service me command w
      | None \<Rightarrow>
          (case paths_from_env (me_var me) of
             Inl e \<Rightarrow> Some (ExitFailure, w)
           | Inr paths \<Rightarrow>
               (case prepare_state me (cli_check_config args) (pa_state_dir paths) w of
                  (Inl e, w) \<Rightarrow> Some (ExitFailure, w)
                | (Inr u, w) \<Rightarrow>
                    (case load_from (me_config me) (me_read me w) paths of
                       Inl e \<Rightarrow> Some (ExitFailure, w)
                     | Inr config \<Rightarrow>
                         if cli_check_config args then Some (ExitSuccess, w)
                         else case me_run me config w of
                                (Inl reason, w) \<Rightarrow> Some (ExitFailure, w)
                              | (Inr u, w) \<Rightarrow> Some (ExitSuccess, w)))))"

subsection \<open>From start to shutdown\<close>

text \<open>
  What may end a run, as it stands at some moment: whether the two signal handlers could be installed,
  whether one of the signals has arrived, and what the polls of the binary have found.
\<close>

record ending =
  ed_handlers :: bool
  ed_signal :: bool
  ed_polls :: "(string \<Rightarrow> (nat \<times> nat) option) list"

definition terminate :: "ending \<Rightarrow> bool" where
  "terminate ed \<longleftrightarrow> ed_handlers ed \<and> ed_signal ed"

definition run_over :: "executable option \<Rightarrow> ending \<Rightarrow> 'w life \<Rightarrow> bool" where
  "run_over ex ed lf \<longleftrightarrow>
     terminate ed \<or> swapped ex (ed_polls ed) \<noteq> None \<or> (case lf_stage lf of Lost e \<Rightarrow> True | _ \<Rightarrow> False)"

text \<open>The moments that pass until the first at which the run is over.\<close>

fun moments_passed ::
  "buffer_env \<Rightarrow> 'w transport \<Rightarrow> executable option \<Rightarrow> (ending \<times> moment) list \<Rightarrow> 'w life \<Rightarrow> moment list" where
  "moments_passed env tr ex [] lf = []"
| "moments_passed env tr ex ((ed, m) # ms) lf =
     (if run_over ex ed lf then [] else m # moments_passed env tr ex ms (moment_step env tr m lf))"

text \<open>
  What a run meets: what the browser profile resolves to, whether the state directory can be made
  private, the database on disk with the failures to come, whether the owner thread starts and the HTTP
  client builds, the event thread, the scene asked for by the environment, the binary that runs, the
  moments of the run with what may end it, and what \<open>absorb\<close> still takes from the queue then.
  \<open>dn_lib\<close> holds the libraries the buffer calls.
\<close>

record 'w daemon_env =
  dn_home :: "string option"
  dn_browser :: poll_env
  dn_render_url :: "url \<Rightarrow> string"
  dn_parse_url :: "string \<Rightarrow> url option"
  dn_buffer_text :: "buffer_error \<Rightarrow> string"
  dn_lib :: buffer_env
  dn_private_dir :: "string \<Rightarrow> bool"
  dn_disk :: db
  dn_worker :: bool
  dn_client :: bool
  dn_event_thread :: "(string, unit) res"
  dn_scene :: "string option"
  dn_load_scene :: "string \<Rightarrow> (string, scene) res"
  dn_transport :: "'w transport"
  dn_executable :: "executable option"
  dn_moments :: "(ending \<times> moment) list"
  dn_left :: "arrival list"
  dn_closed_at :: timestamp

definition ship_error_text :: "(buffer_error \<Rightarrow> string) \<Rightarrow> ship_error \<Rightarrow> string" where
  "ship_error_text buffer_text e =
     (case e of
        Endpoint url reason \<Rightarrow>
          ''the records endpoint could not be built from '' @ quoted url @ '': '' @ reason
      | Client reason \<Rightarrow> ''the http client could not be built: '' @ reason
      | BufferFailed b \<Rightarrow> buffer_text b)"

definition database_file :: string where "database_file = ''buffer.db''"

text \<open>\<open>Buffer::open\<close>: what the owner thread is given.\<close>

definition buffer_open :: "'w daemon_env \<Rightarrow> config \<Rightarrow> (buffer_error, buffer_env \<times> db) res" where
  "buffer_open dn config =
     (if \<not> dn_private_dir dn (cf_state_dir config) then Inl (StateDir (cf_state_dir config))
      else case open_connection (path_join (cf_state_dir config) database_file) (dn_disk dn) of
             (Inl e, s) \<Rightarrow> Inl e
           | (Inr u, s) \<Rightarrow>
               let env = (dn_lib dn)\<lparr>be_device := cf_device config, be_caps := cf_buffer config,
                                    be_redactor := redactor_new (be_lower (dn_lib dn)) (cf_redact config)\<rparr>
               in if \<not> dn_worker dn then Inl WorkerFailed else Inr (env, s))"

definition http_transport_new :: "'w daemon_env \<Rightarrow> config \<Rightarrow> (ship_error, url) res" where
  "http_transport_new dn config =
     res_bind (endpoint (dn_render_url dn) (dn_parse_url dn) (cf_service_url config)) (\<lambda>url.
       if \<not> dn_client dn then Inl (Client ''the platform tls stack is unavailable'') else Inr url)"

datatype runtime_error = BufferError buffer_error | ShipError ship_error

definition pipeline_open :: "'w daemon_env \<Rightarrow> config \<Rightarrow> (runtime_error, buffer_env \<times> db) res" where
  "pipeline_open dn config =
     (case buffer_open dn config of
        Inl e \<Rightarrow> Inl (BufferError e)
      | Inr opened \<Rightarrow> (case http_transport_new dn config of Inl e \<Rightarrow> Inl (ShipError e) | Inr url \<Rightarrow> Inr opened))"

definition runtime_error_text :: "(buffer_error \<Rightarrow> string) \<Rightarrow> runtime_error \<Rightarrow> string" where
  "runtime_error_text buffer_text e =
     (case e of BufferError b \<Rightarrow> buffer_text b | ShipError r \<Rightarrow> ship_error_text buffer_text r)"

text \<open>The checks before the providers start, in order: the buffer of the pipeline.\<close>

definition daemon_start :: "'w daemon_env \<Rightarrow> config \<Rightarrow> (string, buffer_env \<times> db) res" where
  "daemon_start dn config =
     (case dn_home dn of
        None \<Rightarrow> Inl ''HOME is not set, so the browser profile cannot be resolved''
      | Some home \<Rightarrow>
          res_bind (directory_for (dn_browser dn) (user_data_dir home) (cf_browser_profile config)) (\<lambda>directory.
          case endpoint (dn_render_url dn) (dn_parse_url dn) (cf_service_url config) of
            Inl e \<Rightarrow> Inl (ship_error_text (dn_buffer_text dn) e)
          | Inr url \<Rightarrow>
              (case pipeline_open dn config of
                 Inl e \<Rightarrow> Inl (runtime_error_text (dn_buffer_text dn) e)
               | Inr opened \<Rightarrow>
                   (case dn_event_thread dn of
                      Inl source \<Rightarrow> Inl (''the event thread could not start: '' @ source)
                    | Inr u \<Rightarrow>
                        (case dn_scene dn of
                           None \<Rightarrow> Inr opened
                         | Some path \<Rightarrow> res_bind (dn_load_scene dn path) (\<lambda>sc. Inr opened))))))"

definition daemon_moments :: "'w daemon_env \<Rightarrow> buffer_env \<Rightarrow> db \<Rightarrow> 'w \<Rightarrow> moment list" where
  "daemon_moments dn env s w = moments_passed env (dn_transport dn) (dn_executable dn) (dn_moments dn) (life_start s w)"

text \<open>
  The tasks run until a signal, a replaced binary or a lost buffer ends the run, which also drops the loop of the shipper where it
  is: a batch in flight stays in the queue.
\<close>

definition daemon_life :: "'w daemon_env \<Rightarrow> buffer_env \<Rightarrow> db \<Rightarrow> 'w \<Rightarrow> 'w life" where
  "daemon_life dn env s w = live env (dn_transport dn) (daemon_moments dn env s w) (life_start s w)"

text \<open>What is left behind: what became of every emission, the final round, the database.\<close>

record 'w shutdown =
  sd_stored :: "stored list"
  sd_flushed :: "(buffer_error, progress) res"
  sd_db :: db
  sd_world :: 'w
  sd_result :: "(string, unit) res"

text \<open>
  The providers are gone and their emissions in the queue: \<open>absorb\<close> ends with what is left, which no
  loop of the shipper attends to any more; then one more batch is shipped and the buffer closed.
\<close>

definition unattended :: "arrival \<Rightarrow> arrival" where
  "unattended a = a\<lparr>ar_meanwhile := []\<rparr>"

definition daemon_stop :: "'w daemon_env \<Rightarrow> buffer_env \<Rightarrow> 'w life \<Rightarrow> 'w shutdown" where
  "daemon_stop dn env lf =
     (let (rs, s) = absorb env (map unattended (dn_left dn)) (lf_db lf);
          ((flushed, bsize, s), w) = ship_once (handle_of env) (dn_transport dn) (lf_batch_size lf) s (lf_world lf);
          (closed, s) = serve_command env (dn_closed_at dn) (dn_closed_at dn) Close s
      in \<lparr>sd_stored = lf_stored lf @ rs, sd_flushed = flushed, sd_db = s, sd_world = w,
          sd_result = (case closed of Inl e \<Rightarrow> Inl (dn_buffer_text dn e) | Inr r \<Rightarrow> Inr ())\<rparr>)"

definition daemon_run :: "'w daemon_env \<Rightarrow> config \<Rightarrow> 'w \<Rightarrow> (string, 'w shutdown) res" where
  "daemon_run dn config w =
     res_bind (daemon_start dn config) (\<lambda>(env, s). Inr (daemon_stop dn env (daemon_life dn env s w)))"

text \<open>The run as the command line sees it.\<close>

definition run_daemon :: "'w daemon_env \<Rightarrow> config \<Rightarrow> 'w \<Rightarrow> (string, unit) res \<times> 'w" where
  "run_daemon dn config w =
     (case daemon_run dn config w of Inl reason \<Rightarrow> (Inl reason, w) | Inr sd \<Rightarrow> (sd_result sd, sd_world sd))"

subsection \<open>What the command line promises\<close>

text \<open>Checking the configuration touches nothing: a daemon that runs may be reading its clone.\<close>

lemma check_config_touches_nothing:
  "main me \<lparr>cli_version = False, cli_check_config = True, cli_command = None\<rparr> w =
     Some (case res_bind (paths_from_env (me_var me)) (load_from (me_config me) (me_read me w)) of
             Inl e \<Rightarrow> ExitFailure | Inr config \<Rightarrow> ExitSuccess, w)"
  by (auto simp: main_def prepare_state_def split: sum.split)

text \<open>A clone left behind is gone once a start has come past the state directory, whatever the configuration is.\<close>

lemma unusable_config_swept:
  assumes "\<And>p w. \<not> me_exists me p (me_discard me p w)"
    and "paths_from_env (me_var me) = Inr paths" 
    and "private_dir (me_create_dir me) (me_set_permissions me) (pa_state_dir paths) w = (Inr (), w1)"
    and "load_from (me_config me) (me_read me (discard_stale_snapshot me (pa_state_dir paths) w1)) paths = Inl e"
    and "main me \<lparr>cli_version = False, cli_check_config = False, cli_command = None\<rparr> w = Some (code, w')"
  shows "code = ExitFailure \<and> \<not> me_exists me (path_join (pa_state_dir paths) snapshot_dir) w'"
  using assms by (auto simp: main_def prepare_state_def discard_stale_snapshot_def Let_def split: if_splits)

text \<open>The watch ends at the first poll that finds another file, or none.\<close>

lemma swapped_first:
  "swapped (Some ex) stats =
     (let same = (\<lambda>stat. identity_at stat (ex_path ex) = Some (ex_identity ex))
      in if list_all same stats then None else Some (Suc (length (takeWhile same stats))))"
proof -
  have "swapped_from ex n stats =
      (let same = (\<lambda>stat. identity_at stat (ex_path ex) = Some (ex_identity ex))
       in if list_all same stats then None else Some (Suc (n + length (takeWhile same stats))))" for n
    by (induction stats arbitrary: n) (auto simp: replaced_def Let_def)
  from this [of 0] show ?thesis by (simp add: swapped_def Let_def)
qed

subsection \<open>Shutting down\<close>

lemma open_connection_keeps: "open_connection path s = (r, s') \<Longrightarrow> db_tables s' = db_tables s"
proof -
  assume run: "open_connection path s = (r, s')"
  have checkpoint: "db_tables s'' = db_tables s0" if "checkpoint s0 = (c, s'')" for s0 c s''
    using that keepsD [of "\<lambda>t. t = db_tables s0" checkpoint s0 c s'']
    by (auto simp: checkpoint_def intro!: keeps_intros)
  show ?thesis
    using run unfolding open_connection_def bind_def exec_def
    by (auto simp: Let_def split: prod.splits sum.splits list.splits bool.splits dest!: checkpoint)
qed

lemma daemon_start_opens:
  assumes "daemon_start dn config = Inr (env, s)"
  shows "db_tables s = db_tables (dn_disk dn) \<and> be_device env = cf_device config \<and>
         be_caps env = cf_buffer config \<and> be_redactor env = redactor_new (be_lower env) (cf_redact config)"
  using assms open_connection_keeps
  by (fastforce simp: daemon_start_def pipeline_open_def buffer_open_def Let_def res_bind_Inr_conv
      split: option.splits sum.splits if_splits prod.splits)

lemma close_keeps: "serve_command env now later Close s = (r, s') \<Longrightarrow> db_tables s' = db_tables s"
  using keepsD [of "\<lambda>t. t = db_tables s" "serve_command env now later Close" s r s']
  by (auto simp: reply_with_def checkpoint_def intro!: keeps_intros)

text \<open>
  What a final round leaves: the queue and the dead letters as they were, or a batch less, on an
  acknowledgement of the whole batch or among the dead letters on a refusal that asks for no other try.
\<close>

definition final_round ::
  "'w transport \<Rightarrow> nat \<Rightarrow> 'w \<Rightarrow> db \<Rightarrow> db \<Rightarrow> bool" where
  "final_round tr n w s s' \<longleftrightarrow>
     (let batch = take n (pending_queue s); answer = fst (tr_post tr (body_for batch) w)
      in pending_queue s' = pending_queue s \<and> dead_texts s' = dead_texts s \<or>
         pending_queue s' = drop n (pending_queue s) \<and>
         (acknowledged (tr_parse tr) answer (length batch) \<and> dead_texts s' = dead_texts s \<or>
          (refused_for_good answer \<or> found_too_large answer \<and> n \<le> min_batch) \<and>
          (\<exists>j. dead_texts s' = drop j (dead_texts s @ map pending_envelope batch))))"

lemma ship_once_final:
  assumes ok: "db_ok s" and n: "n \<le> max_batch" and run: "ship_once (handle_of env) tr n s w = ((r, n', s'), w')"
  shows "final_round tr n w s s'"
proof -
  let ?batch = "take n (pending_queue s)"
  have "length ?batch \<le> max_batch" using n by simp
  note answer = disposition_of_answer [OF this, of "tr_parse tr" "fst (tr_post tr (body_for ?batch) w)"]
  show ?thesis
    using ship.ship_once_effect [OF ok run] answer
    by (cases r; cases "projr r")
      (auto simp: final_round_def Let_def disposition_of_def simp del: drop_append length_take take_eq_Nil)
qed

lemma ship_once_cursors:
  assumes "ship_once (handle_of env) tr n s w = ((r, n', s'), w')"
  shows "t_cursors (db_tables s') = t_cursors (db_tables s)"
proof -
  obtain g s1 where t: "take_batch n s = (g, s1)" by fastforce
  show ?thesis
  proof (cases "\<exists>batch. g = Inr batch \<and> batch \<noteq> []")
    case True
    then obtain batch where g: "g = Inr batch" "batch \<noteq> []" by blast
    obtain answer w1 where "tr_post tr (body_for batch) w = (answer, w1)" by fastforce
    with assms t g have "settle (handle_of env) (tr_clock tr w1) n batch
        (disposition_of (tr_parse tr) (length batch) answer) s1 = (r, n', s')"
      by (auto simp: ship_once_def handle_of_def)
    from settle_cursors [OF this] take_batch_frame [OF t] show ?thesis by simp
  next
    case False
    with assms t take_batch_frame [OF t] show ?thesis by (cases g) (auto simp: ship_once_def handle_of_def)
  qed
qed

lemma emissions_unattended [simp]: "emissions_of (map unattended as) = emissions_of as"
  by (induction as) (simp_all add: unattended_def split: option.split)

lemma no_enqueue_unattended: "list_all no_enqueue (map unattended as)"
  by (induction as) (simp_all add: unattended_def no_enqueue_def)

text \<open>The stop of a sound life: the rest of the queue, then the final round.\<close>

lemma daemon_stop_effect:
  assumes sound: "life_sound lf" and sd: "sd = daemon_stop dn env lf"
  shows "\<exists>rs stored. absorb env (map unattended (dn_left dn)) (lf_db lf) = (rs, stored) \<and>
     sd_stored sd = lf_stored lf @ rs \<and>
     list_all2 (\<lambda>em r. snd r = receipt_for em (fst r)) (emissions_of (dn_left dn)) rs \<and>
     t_cursors (db_tables (sd_db sd)) =
       cursors_after (zip (emissions_of (dn_left dn)) rs) (t_cursors (db_tables (lf_db lf))) \<and>
     final_round (dn_transport dn) (lf_batch_size lf) (lf_world lf) stored (sd_db sd)"
proof -
  obtain rs s1 where ab: "absorb env (map unattended (dn_left dn)) (lf_db lf) = (rs, s1)" by fastforce
  obtain r n s2 w2 where
    ship: "ship_once (handle_of env) (dn_transport dn) (lf_batch_size lf) s1 (lf_world lf) = ((r, n, s2), w2)"
    by (metis surj_pair)
  obtain c s3 where close: "serve_command env (dn_closed_at dn) (dn_closed_at dn) Close s2 = (c, s3)" by fastforce
  note kept = close_keeps [OF close]
  have out: "sd_stored sd = lf_stored lf @ rs" "sd_db sd = s3"
    using ab ship close by (simp_all add: sd daemon_stop_def Let_def del: serve_command.simps)
  have "tables_ok (db_tables (lf_db lf))" using sound by (simp add: life_sound_def)
  note eff = drain_queue_effect [OF ab [unfolded absorb_drain] this no_enqueue_unattended, simplified]
  then have "db_ok s1" by (simp add: db_ok_def)
  moreover have "lf_batch_size lf \<le> max_batch" using sound by (simp add: life_sound_def)
  ultimately have "final_round (dn_transport dn) (lf_batch_size lf) (lf_world lf) s1 s2"
    using ship by (rule ship_once_final)
  with kept have "final_round (dn_transport dn) (lf_batch_size lf) (lf_world lf) s1 s3"
    by (simp add: final_round_def pending_queue_def dead_texts_def)
  moreover have "t_cursors (db_tables s3) = t_cursors (db_tables s1)" using kept ship_once_cursors [OF ship] by simp
  ultimately show ?thesis using ab out eff by (intro exI [of _ rs] exI [of _ s1]) simp
qed

text \<open>
  C15. A run of the daemon loses nothing unsaid. However the start went, once a run has come past it,
  and however storing, reading and shipping interleave until it ends, every emission that reached the
  queue, also those in it at the end, has had its attempt in order and an honest receipt; the cursors
  at the end are those of the committed emissions and no others; and the final round removes at most
  one batch of 10 to 500 records, after a 200 that accounts for all of it or, refused for good or found
  too large at the floor, into the dead letters, whatever SQLite fails at and whatever the service
  answers. If two rows are allowed and no row found at the start and no text stored in the run is longer
  than \<open>max_bytes\<close> less the headroom of the overflow marker, every record that a settlement removed from
  the queue was in a batch that had been posted as it was and answered in one of these ways. The row ids
  of the database found are in order.
\<close>

theorem shutdown_accounts:
  assumes "daemon_run dn config w = Inr sd" and "tables_ok (db_tables (dn_disk dn))"
  shows "\<exists>env s. daemon_start dn config = Inr (env, s) \<and>
     db_tables s = db_tables (dn_disk dn) \<and> be_redactor env = redactor_new (be_lower env) (cf_redact config) \<and>
     (let lf = daemon_life dn env s w; ems = life_emissions (daemon_moments dn env s w) @ emissions_of (dn_left dn);
          stored = snd (absorb env (map unattended (dn_left dn)) (lf_db lf))
      in list_all2 (\<lambda>em r. snd r = receipt_for em (fst r)) ems (sd_stored sd) \<and>
         t_cursors (db_tables (sd_db sd)) =
           cursors_after (zip ems (sd_stored sd)) (t_cursors (db_tables (dn_disk dn))) \<and>
         (2 \<le> max_rows (be_caps env) \<and> rows_fit env (t_pending (db_tables (dn_disk dn))) \<and>
            all_fit env (lf_stored lf) \<longrightarrow>
            list_all (honest_entry (dn_transport dn) (lf_posted lf)) (lf_settled lf)) \<and>
         min_batch \<le> lf_batch_size lf \<and> lf_batch_size lf \<le> max_batch \<and>
         final_round (dn_transport dn) (lf_batch_size lf) (lf_world lf) stored (sd_db sd))"
proof -
  obtain env s where start: "daemon_start dn config = Inr (env, s)"
    and sd: "sd = daemon_stop dn env (daemon_life dn env s w)"
    using assms(1) by (auto simp: daemon_run_def res_bind_Inr_conv)
  note opened = daemon_start_opens [OF start]
  define lf where "lf = daemon_life dn env s w"
  define ms where "ms = daemon_moments dn env s w"
  have "tables_ok (db_tables s)" using opened assms(2) by simp
  note begun = life_start_ok [OF this]
  have stored: "lf_stored (life_start s w) = []" "lf_db (life_start s w) = s" by (simp_all add: life_start_def)
  obtain before where sound: "life_sound lf"
    and lived: "lf_stored lf = before"
      "list_all2 (\<lambda>em r. snd r = receipt_for em (fst r)) (life_emissions ms) before"
      "t_cursors (db_tables (lf_db lf)) =
         cursors_after (zip (life_emissions ms) before) (t_cursors (db_tables (dn_disk dn)))"
    using live_effect [OF begun(1), of env "dn_transport dn" ms w] opened stored
    unfolding lf_def daemon_life_def ms_def by auto
  have ledger: "list_all (honest_entry (dn_transport dn) (lf_posted lf)) (lf_settled lf)"
    if "2 \<le> max_rows (be_caps env)" "rows_fit env (t_pending (db_tables (dn_disk dn)))" "all_fit env (lf_stored lf)"
    using live_ledger [OF that(1) begun(2,1)] that(2,3) opened unfolding lf_def daemon_life_def by simp
  obtain rs left where rest: "absorb env (map unattended (dn_left dn)) (lf_db lf) = (rs, left)"
    "sd_stored sd = before @ rs"
    "list_all2 (\<lambda>em r. snd r = receipt_for em (fst r)) (emissions_of (dn_left dn)) rs"
    "t_cursors (db_tables (sd_db sd)) =
       cursors_after (zip (emissions_of (dn_left dn)) rs) (t_cursors (db_tables (lf_db lf)))"
    "final_round (dn_transport dn) (lf_batch_size lf) (lf_world lf) left (sd_db sd)"
    using daemon_stop_effect [OF sound sd [folded lf_def]] lived(1) by blast
  have "zip (life_emissions ms @ emissions_of (dn_left dn)) (before @ rs) =
      zip (life_emissions ms) before @ zip (emissions_of (dn_left dn)) rs"
    using list_all2_lengthD [OF lived(2)] by simp
  then have cursors: "t_cursors (db_tables (sd_db sd)) =
      cursors_after (zip (life_emissions ms @ emissions_of (dn_left dn)) (sd_stored sd))
        (t_cursors (db_tables (dn_disk dn)))"
    using rest(2,4) lived(3) by (simp add: cursors_after_append)
  have "list_all2 (\<lambda>em r. snd r = receipt_for em (fst r))
      (life_emissions ms @ emissions_of (dn_left dn)) (sd_stored sd)"
    unfolding rest(2) using lived(2) rest(3) by (rule list_all2_appendI)
  with start opened sound ledger rest(1,5) cursors show ?thesis
    by (intro exI [of _ env] exI [of _ s]) (auto simp: life_sound_def Let_def simp flip: lf_def ms_def)
qed

definition sample_url :: url where
  "sample_url =
     \<lparr>url_scheme = ''http'', url_username = [], url_password = None, url_host = Some ''h'', url_port = None,
      url_query = None, url_fragment = None, url_opaque = False\<rparr>"

definition sample_daemon :: "string list daemon_env" where
  "sample_daemon =
     \<lparr>dn_home = Some ''/u'',
      dn_browser = \<lparr>pe_local_state = Inr [], pe_info_cache = (\<lambda>s. Inr [(''P1'', JObject [(''name'', JString ''me'')])]),
                    pe_private_dir = True, pe_copy = (\<lambda>p args. NotStarted), pe_lossy = id,
                    pe_is_file = (\<lambda>p. False), pe_open = None, pe_check = None\<rparr>,
      dn_render_url = (\<lambda>u. ''http://h/''), dn_parse_url = (\<lambda>s. Some sample_url), dn_buffer_text = (\<lambda>e. ''e''),
      dn_lib = sample_env 9, dn_private_dir = (\<lambda>p. True), dn_disk = calm empty_tables, dn_worker = True,
      dn_client = True, dn_event_thread = Inr (), dn_scene = None, dn_load_scene = (\<lambda>p. Inl ''e''),
      dn_transport = sample_transport,
      dn_executable = None,
      dn_moments = map (Pair \<lparr>ed_handlers = True, ed_signal = False, ed_polls = []\<rparr>)
        [Stores (hd sample_arrivals), Stores (last sample_arrivals), Begins, Stores (hd sample_arrivals), Settles],
      dn_left = sample_arrivals, dn_closed_at = Timestamp 0\<rparr>"

definition sample_config :: config where
  "sample_config =
     \<lparr>cf_service_url = sample_url, cf_device = ''mac'', cf_tick_interval = 30, cf_history_poll_interval = 300,
      cf_revisit_window = 500, cf_browser_profile = ''me'', cf_buffer = \<lparr>max_rows = 9, max_bytes = 4096\<rparr>,
      cf_redact = [], cf_state_dir = ''/s'',
      cf_claude_code = \<lparr>cc_roots = [], cc_imports = [], cc_poll_interval = 60\<rparr>\<rparr>"

definition sample_opened :: buffer_env where
  "sample_opened =
     (sample_env 9)\<lparr>be_device := ''mac'', be_caps := \<lparr>max_rows = 9, max_bytes = 4096\<rparr>, be_redactor := redactor_new id []\<rparr>"

lemma sample_connection: "open_connection path (calm t) = (Inr (), calm t)"
  by (simp add: open_connection_def checkpoint_def query_def exec_def bind_def Let_def)

lemma sample_starts: "case daemon_start sample_daemon sample_config of Inl e \<Rightarrow> False | Inr x \<Rightarrow> True"
  by code_simp

lemma sample_opens:
  "daemon_start sample_daemon sample_config = Inr (env, s) \<Longrightarrow> env = sample_opened \<and> s = calm empty_tables"
  by (auto simp: daemon_start_def pipeline_open_def buffer_open_def Let_def res_bind_Inr_conv sample_daemon_def
      sample_config_def sample_opened_def sample_env_def sample_connection
      split: option.splits sum.splits if_splits prod.splits)

lemma sample_texts:
  "stored_texts sample_opened (lf_stored (daemon_life sample_daemon sample_opened (calm empty_tables) [])) =
     [''1'', ''2'', ''3'']"
  by code_simp

lemma sample_fits:
  "2 \<le> max_rows (be_caps sample_opened) \<and> rows_fit sample_opened (t_pending empty_tables) \<and>
     all_fit sample_opened (lf_stored (daemon_life sample_daemon sample_opened (calm empty_tables) []))"
proof -
  have "be_caps sample_opened = \<lparr>max_rows = 9, max_bytes = 4096\<rparr>" by (simp add: sample_opened_def)
  then show ?thesis
    by (simp add: rows_fit_def all_fit_def sample_texts overflow_headroom_bytes_def) (simp add: empty_tables_def)
qed

lemma sample_settles: "length (lf_settled (daemon_life sample_daemon sample_opened (calm empty_tables) [])) = 2"
  by code_simp

lemma sample_passed:
  "length (life_emissions (daemon_moments sample_daemon sample_opened (calm empty_tables) []) @
     emissions_of (dn_left sample_daemon)) = 5"
  by code_simp

theorem shutdown_accounts_witness:
  "\<exists>sd. daemon_run sample_daemon sample_config [] = Inr sd \<and> length (sd_stored sd) = 5 \<and>
     list_all (honest_entry sample_transport (lf_posted (daemon_life sample_daemon sample_opened (calm empty_tables) [])))
       (lf_settled (daemon_life sample_daemon sample_opened (calm empty_tables) [])) \<and>
     length (lf_settled (daemon_life sample_daemon sample_opened (calm empty_tables) [])) = 2"
proof -
  obtain sd where run: "daemon_run sample_daemon sample_config [] = Inr sd"
    using sample_starts by (cases "daemon_start sample_daemon sample_config") (auto simp: daemon_run_def)
  have "tables_ok (db_tables (dn_disk sample_daemon))" by (simp add: sample_daemon_def tables_ok_empty)
  from shutdown_accounts [OF run this, unfolded Let_def] obtain env s
    where start: "daemon_start sample_daemon sample_config = Inr (env, s)"
    and told: "list_all2 (\<lambda>em r. snd r = receipt_for em (fst r))
      (life_emissions (daemon_moments sample_daemon env s []) @ emissions_of (dn_left sample_daemon)) (sd_stored sd)"
    and honest: "2 \<le> max_rows (be_caps env) \<and> rows_fit env (t_pending (db_tables (dn_disk sample_daemon))) \<and>
      all_fit env (lf_stored (daemon_life sample_daemon env s [])) \<longrightarrow>
      list_all (honest_entry (dn_transport sample_daemon) (lf_posted (daemon_life sample_daemon env s [])))
        (lf_settled (daemon_life sample_daemon env s []))"
    by (elim exE conjE) (rule that, assumption+)
  have "length (sd_stored sd) = 5"
    using list_all2_lengthD [OF told] sample_passed sample_opens [OF start] by metis
  moreover have "list_all (honest_entry sample_transport
        (lf_posted (daemon_life sample_daemon sample_opened (calm empty_tables) [])))
      (lf_settled (daemon_life sample_daemon sample_opened (calm empty_tables) []))"
    using honest sample_fits sample_opens [OF start] by (simp add: sample_daemon_def)
  ultimately show ?thesis using run sample_settles by blast
qed

end
