(* ===== verification/Spec2Isabelle.thy ===== *)
theory Spec2Isabelle
  imports Delivery Config_Props Claude_Shipment Windows_Props Mac_Props Event_Sources Http_Transport Browser_Props Browser_Runtime Extractor_Props
    Service_Props Lifetime Daemon
begin

text \<open>
  A model of nikki, a macOS daemon that records what a person works on and ships it to a service, and
  the theorems that make it correct. The program is under \<open>src/src\<close>.

  \<^bold>\<open>The program.\<close> Providers watch a part of the machine and produce record drafts: the window provider
  (\<open>providers/windows.rs\<close>, fed by the event thread of \<open>macos/events.rs\<close>), the browser history
  provider (\<open>providers/browser_history.rs\<close>) and the Claude Code provider
  (\<open>providers/claude_code.rs\<close>). A provider puts its drafts into an emission, with a cursor when it
  wants to know where to go on, and the pipeline (\<open>runtime/mod.rs\<close>) stores emissions one at a time in
  the durable buffer (\<open>runtime/buffer.rs\<close>), a SQLite file owned by one thread: a draft is redacted
  (\<open>runtime/redact.rs\<close>), given the next sequence number and a deduplication key
  (\<open>runtime/dedup.rs\<close>), and its rendered envelope becomes a row of \<open>pending\<close>; what exceeds the caps is
  evicted from the old end and accounted for by an overflow marker. The shipper (\<open>runtime/ship.rs\<close>)
  takes batches from the same buffer, posts them, and deletes, buries, shrinks or keeps a batch by the
  answer. The configuration (\<open>config.rs\<close>) is read once, at the start.

  \<^bold>\<open>The theories.\<close>

  \<^item> \<open>Prelude\<close>: results, decimal and hexadecimal text, \<open>join\<close> and \<open>split\<close>, 64-bit arithmetic, time
    stamps, parsed URLs. \<open>Json\<close>: \<open>serde_json::Value\<close>. \<open>Text_Scan\<close>: trimming and splitting at
    characters over UTF-8. \<open>Float64\<close>: \<open>f64\<close> arithmetic on finite values.
  \<^item> \<open>Records\<close>: \<open>RecordDraft\<close>, \<open>Envelope\<close>, \<open>into_envelope\<close> and the five deduplication keys. Two records
    have the same key under every hash exactly when they are the same event of the same device (C1).
  \<^item> \<open>Redact\<close>: \<open>Redactor::new\<close> and \<open>apply\<close>. The policy is the one the rules spell (C2), what it hides
    does not influence what is kept (C3, C4), and nothing else changes.
  \<^item> \<open>Store\<close>, \<open>Buffer\<close>: the tables, statements that fail on a schedule (\<open>db_faults\<close>), transactions, and
    \<open>serve\<close> with its commands. \<open>Buffer_Facts\<close>, \<open>Buffer_Props\<close>, \<open>Buffer_Serve\<close>: an enqueue is all or
    nothing and meets its specification (C6), the queue is in the order of arrival and its records are
    numbered without gaps (C8, C9), the caps hold and the least is evicted (C10, C11), and only redacted text is ever stored (C12).
  \<^item> \<open>Outbox\<close>: the buffer as the queue the shipper sees, a locale interpreted on \<open>take_batch\<close>,
    \<open>delete_batch\<close> and \<open>dead_letter\<close> (C13, C14).
  \<^item> \<open>Ship\<close>, \<open>Ship_Props\<close>: the meaning of an answer, what a round does on each answer (C16), the drain, which returns
    (C17) and delivers everything to a service that accepts, and the loop with its backoff.
    \<open>Http_Transport\<close>: the request of a post and what becomes of the answer.
  \<^item> \<open>Delivery\<close>: the shipper and the providers interleaved on one buffer, as a step relation. No row is
    deleted by an acknowledgement that did not cover it (C21) in the runs in which no enqueue can evict the
    whole table: two rows are allowed, and no text stored is longer than \<open>max_bytes\<close> less the headroom
    of the marker. Without that it can happen, because row ids are reused (\<open>marker_deleted_unsent\<close>).
  \<^item> \<open>Repo_Roots\<close>: the repository a path lies in, with its bounded cache (C23).
  \<^item> \<open>Claude_Lines\<close>, \<open>Claude_Files\<close>, \<open>Claude_Reading\<close>, \<open>Claude_Cursors\<close>: the records of a transcript
    line (C24, C25, C26), reading a file in increments without loss or repetition (C27), and the stored
    cursors (C31). \<open>Claude_Provider\<close>, \<open>Claude_Increments\<close>, \<open>Claude_Delivery\<close>,
    \<open>Claude_Runtime\<close>, \<open>Claude_Samples\<close>: the provider's ticks, and the composition of a file, the
    provider, the pipeline and the buffer: over any number of visits to a growing file every record is
    stored exactly once (C33), and a visit nothing fails at leaves nothing behind (C34).
    \<open>Claude_Shipment\<close>: on to the service, where a drain posts exactly the envelopes of those records
    (C7). The locales \<open>runtime\<close> and \<open>steady_runtime\<close> are what the provider relies on; they are
    interpreted on the model of the pipeline over the buffer, once more with what the table holds as
    part of the invariant.
  \<^item> \<open>Config\<close>, \<open>Config_Props\<close>: the members of the file, their defaults and every check. A file is
    refused exactly when a field is at fault, and the error names one that is (C28); an accepted
    configuration is well-formed (C29).
  \<^item> \<open>Pipeline\<close>: emissions, \<open>absorb\<close> and \<open>store\<close> (C32), and the supervision of providers.
  \<^item> \<open>Screen\<close>, \<open>Screen_Props\<close>: the window list, the frontmost application, which windows are visible on
    which display (C35), input counters. \<open>Windows_Provider\<close>, \<open>Windows_Props\<close>: samples, debouncing (C36),
    the counting of input over a run (C37) and the markers of locking and sleep (C38). The locale
    \<open>recorder\<close> reads off what a run sends; it is interpreted on any sources with a log beside them.
    \<open>Scripted\<close>: the sources of a scene file. \<open>Mac_Bindings\<close>, \<open>Mac_Props\<close>: the sources on macOS, read
    through accessibility and Core Foundation values; a turn of the provider sets a timeout before it
    asks and asks a bounded number of times (C5).
  \<^item> \<open>Events\<close>: the event thread as steps of its callbacks, what it sends, and which applications it
    observes (C39). \<open>Event_Sources\<close>: the same with what is registered with macOS and the references
    to the inbox, which are all given back (C18).
  \<^item> \<open>Subprocess\<close>: helper programs with a deadline. \<open>Browser_History\<close>, \<open>Browser_Props\<close>: the polls of the
    browser's history; no visit in the window is missed (C20). \<open>Browser_Runtime\<close>: the provider on the
    pipeline and the buffer, killed and started at will; no visit is shipped twice unchanged (C40). The
    locale \<open>browser_store\<close> is what it relies on, interpreted on the same machine as the Claude Code
    provider's.
  \<^item> \<open>Processes\<close>: the process table and the layout of arguments and environment, which is read back
    (C19). \<open>Extractors\<close>, \<open>Extractor_Props\<close>: the details of a browser tab and of a terminal's session,
    which tell only of what is on the screen (C30).
  \<^item> \<open>Service\<close>, \<open>Service_Props\<close>: \<open>nikki install\<close> and \<open>uninstall\<close>; an installation does its steps in order up
    to the first that fails, whose failure it returns, and waits for the old agent to go (C22). \<open>Lifetime\<close>: what happens between start and
    shutdown, a list of moments at which \<open>absorb\<close> stores, a provider reads or the loop of the shipper
    takes, settles or waits, with a ledger of what was posted and what was let go of on which answer;
    \<open>run_lived\<close> shows that every run of the loop is such a list. \<open>Daemon\<close>: the command line, the watch on
    the binary, private directories, opening the pipeline, the start, what ends a run, and the shutdown;
    the whole run accounts for every emission, and what leaves the queue was posted and answered so, under
    the conditions of C21 on the texts stored (C15).

  \<^bold>\<open>How it is modelled.\<close> A \<open>Result\<close> is a sum, an \<open>Option\<close> an option, a struct a record, an enum a
  datatype. State is passed explicitly. A thread that serves commands is a function of the list of
  commands; a loop over \<open>select!\<close> is a function of the list of what it woke up for; the interleaving of
  threads on the buffer is the step relation of \<open>Delivery\<close>, the list of moments in \<open>Lifetime\<close>, and in
  \<open>Pipeline\<close> the commands others send while an emission waits are part of its arrival. Failures of the database are a schedule of the
  state, so every theorem about the buffer covers every way its statements can fail. Loops that may not
  end are \<open>partial_function (option)\<close>, where \<open>None\<close> is not returning; that they return is proved (C17,
  C22, C34, C40). No fuel is used.

  \<^bold>\<open>Parameters.\<close> What is not under \<open>src\<close> is an argument of the definitions that use it: SHA-256, the
  URL, JSON, TOML and RFC 3339 parsers and printers, lower-casing, lossy decoding, the file system, the
  clock, child processes, HTTP, and what macOS answers. Hypotheses on them are documented behaviour
  only, such as that printing a JSON value and parsing it gives the value back.

  \<^bold>\<open>Not modelled.\<close> What the calls into macOS and \<open>reqwest\<close> do (they are parameters), the moments of a
  run loop's wake-ups, logging, how a directory is created and its mode set, the spawning of tasks in
  \<open>main.rs\<close> (it wires the parts together; what they do in between is \<open>Lifetime\<close>), the files of a history snapshot and their removal, the
  AppleScript of \<open>extract/dia.rs\<close>, \<open>build.rs\<close>, and the tests with \<open>tests/stub_server.rs\<close>: they hold no
  decisions beyond calls into the system. Infinities and NaN of \<open>f64\<close> are left out, except where the
  code asks for them (\<open>truncate_idle\<close>).
\<close>

end
